(* ===== verification/Prelude.thy ===== *)
theory Prelude
  imports Main "HOL-Library.Word"
begin

text \<open>
  Shared vocabulary of the development: the machine integers of the code, the faults a run can
  end in, sequencing of computations that may fault, and \<open>std::map\<close> as a key-sorted
  association list. \<open>std::map\<close> is only used with integer keys under their usual order, for
  which the standard fixes what every operation does: at most one entry per key, iteration in
  increasing key order.
\<close>

subsection \<open>Machine integers, bytes, strings\<close>

type_synonym u8 = "8 word"
type_synonym u16 = "16 word"
type_synonym u32 = "32 word"
type_synonym u64 = "64 word"

text \<open>A \<open>std::byte\<close> and a \<open>char\<close> are both eight bits; a \<open>std::string\<close> is a sequence of them.\<close>

type_synonym byte = u8
type_synonym cstring = "byte list"

definition cstring_lit :: "string \<Rightarrow> cstring" where
  "cstring_lit s = map of_char s"

lemma unat_bounds:
  "unat (a :: u8) < 256" "unat (b :: u16) < 65536" "unat (c :: u32) < 4294967296"
  using unsigned_less [of a] unsigned_less [of b] unsigned_less [of c] by simp_all

lemma unat_u16_max: "b \<noteq> -1 \<longleftrightarrow> unat (b :: u16) < 65535"
proof -
  have "unat (-1 :: u16) = 65535" by (simp add: unsigned_minus_1_eq_mask mask_eq_exp_minus_1)
  with unat_bounds(2) [of b] show ?thesis using word_unat_eq_iff [of b "-1"] by auto
qed

lemma unat_of_nat_small:
  "n < 256 \<Longrightarrow> unat (of_nat n :: u8) = n" "n < 65536 \<Longrightarrow> unat (of_nat n :: u16) = n"
  "n < 4294967296 \<Longrightarrow> unat (of_nat n :: u32) = n"
  by (simp_all add: unat_of_nat)

lemma unat_u32_of_u16: "unat (ucast b :: u32) = unat (b :: u16)"
  using unat_bounds(2) [of b] by (simp add: unsigned_ucast_eq take_bit_nat_eq_self_iff)

lemma unat_u16_of_u32: "unat v < 65536 \<Longrightarrow> unat (ucast v :: u16) = unat (v :: u32)"
  by (simp add: unsigned_ucast_eq take_bit_nat_eq_self_iff)

subsection \<open>Collections of facts\<close>

named_theorems map_simps \<open>how the std::map operations act on lookups, keys and the invariant\<close>
named_theorems inorder_simps \<open>in-order contents after the operations of the search tree\<close>
named_theorems frame_simps \<open>fields an operation leaves unchanged\<close>
named_theorems inv_intros \<open>operations keep their component's invariant\<close>

subsection \<open>Faults and sequencing\<close>

text \<open>
  How a run can end without a result: an uncaught \<open>std::out_of_range\<close>, an integer division by
  zero, \<open>exit(1)\<close> or \<open>exit(0)\<close>, another exception that nothing catches, the use of an iterator to an
  erased element, or a loop that never ends.
\<close>

datatype fault =
    Out_of_range
  | Division_by_zero
  | Exit_failure
  | Exit_success
  | Uncaught_exception
  | Iterator_invalidated
  | Diverges

type_synonym 'a res = "fault + 'a"

text \<open>\<open>exit_with_msg\<close> of \<open>error-handler.cpp\<close>, without the message it prints.\<close>

definition exit_with_msg :: "'a res" where
  [simp]: "exit_with_msg = Inl Exit_failure"

fun and_then :: "'a res \<Rightarrow> ('a \<Rightarrow> 'b res) \<Rightarrow> 'b res" where
  "and_then (Inl e) f = Inl e"
| "and_then (Inr x) f = f x"

lemma and_then_eq_Inr [simp]: "and_then m f = Inr y \<longleftrightarrow> (\<exists>x. m = Inr x \<and> f x = Inr y)"
  by (cases m) auto

lemma and_then_eq_Inl:
  "and_then m f = Inl e \<longleftrightarrow> m = Inl e \<or> (\<exists>x. m = Inr x \<and> f x = Inl e)"
  by (cases m) auto

lemma and_then_assoc: "and_then (and_then m f) g = and_then m (\<lambda>x. and_then (f x) g)"
  by (cases m) auto

lemma and_then_cong [fundef_cong]:
  "m = m' \<Longrightarrow> (\<And>x. m' = Inr x \<Longrightarrow> f x = f' x) \<Longrightarrow> and_then m f = and_then m' f'"
  by (cases m') auto

text \<open>A \<open>for\<close> loop over a container whose body may fault.\<close>

fun for_each :: "('a \<Rightarrow> 's \<Rightarrow> 's res) \<Rightarrow> 'a list \<Rightarrow> 's \<Rightarrow> 's res" where
  "for_each f [] s = Inr s"
| "for_each f (x # xs) s = and_then (f x s) (for_each f xs)"

lemma for_each_append:
  "for_each f (xs @ ys) s = and_then (for_each f xs s) (for_each f ys)"
proof (induction xs arbitrary: s)
  case (Cons x xs)
  show ?case by (cases "f x s") (simp_all add: Cons.IH)
qed simp

text \<open>An invariant the body keeps, with what the body may use about the element.\<close>

lemma for_each_invariant:
  assumes "for_each f xs s = Inr s'" and "P s"
    and "\<And>x s s'. x \<in> set xs \<Longrightarrow> P s \<Longrightarrow> f x s = Inr s' \<Longrightarrow> P s'"
  shows "P s'"
  using assms by (induction xs arbitrary: s) auto

lemma for_each_total:
  assumes "P s" and "\<And>x s. x \<in> set xs \<Longrightarrow> P s \<Longrightarrow> \<exists>s'. f x s = Inr s' \<and> P s'"
  shows "\<exists>s'. for_each f xs s = Inr s' \<and> P s'"
  using assms
proof (induction xs arbitrary: s)
  case (Cons x xs)
  then obtain s1 where "f x s = Inr s1" "P s1" by (metis list.set_intros(1))
  with Cons show ?case by (metis and_then.simps(2) for_each.simps(2) list.set_intros(2))
qed simp

subsection \<open>std::map with an integer key\<close>

type_synonym ('k, 'v) std_map = "('k \<times> 'v) list"

definition map_ok :: "('k::linorder, 'v) std_map \<Rightarrow> bool" where
  "map_ok m \<longleftrightarrow> sorted_wrt (<) (map fst m)"

definition keys :: "('k, 'v) std_map \<Rightarrow> 'k set" where
  "keys m = fst ` set m"

text \<open>\<open>at\<close> throws \<open>std::out_of_range\<close> on a missing key; \<open>count\<close> is 0 or 1.\<close>

definition map_at :: "('k, 'v) std_map \<Rightarrow> 'k \<Rightarrow> 'v res" where
  "map_at m k = (case map_of m k of None \<Rightarrow> Inl Out_of_range | Some v \<Rightarrow> Inr v)"

definition map_count :: "('k, 'v) std_map \<Rightarrow> 'k \<Rightarrow> nat" where
  "map_count m k = (if map_of m k = None then 0 else 1)"

text \<open>\<open>insert_or_assign\<close> overwrites the value of a key that is there; \<open>insert\<close> keeps it.\<close>

fun map_assign :: "'k::linorder \<Rightarrow> 'v \<Rightarrow> ('k, 'v) std_map \<Rightarrow> ('k, 'v) std_map" where
  "map_assign k v [] = [(k, v)]"
| "map_assign k v ((k', v') # m) =
     (if k < k' then (k, v) # (k', v') # m
      else if k = k' then (k, v) # m
      else (k', v') # map_assign k v m)"

definition map_insert :: "'k::linorder \<Rightarrow> 'v \<Rightarrow> ('k, 'v) std_map \<Rightarrow> ('k, 'v) std_map" where
  "map_insert k v m = (if map_of m k = None then map_assign k v m else m)"

definition map_erase :: "'k \<Rightarrow> ('k, 'v) std_map \<Rightarrow> ('k, 'v) std_map" where
  "map_erase k m = filter (\<lambda>(k', v). k' \<noteq> k) m"

lemma keys_simps [simp, map_simps]:
  "keys [] = {}" "keys ((k, v) # m) = insert k (keys m)" "keys (m @ m') = keys m \<union> keys m'"
  by (auto simp: keys_def)

lemma finite_keys [simp]: "finite (keys m)"
  by (simp add: keys_def)

lemma map_ok_simps [simp, map_simps]:
  "map_ok []" "map_ok ((k, v) # m) \<longleftrightarrow> (\<forall>k' \<in> keys m. k < k') \<and> map_ok m"
  by (auto simp: map_ok_def keys_def)

lemma map_of_None_iff [map_simps]: "map_of m k = None \<longleftrightarrow> k \<notin> keys m"
  by (simp add: map_of_eq_None_iff keys_def)

lemma in_keys_iff: "k \<in> keys m \<longleftrightarrow> (\<exists>v. map_of m k = Some v)"
  using map_of_None_iff [of m k] by (cases "map_of m k") auto

lemma map_at_Inr [simp, map_simps]: "map_at m k = Inr v \<longleftrightarrow> map_of m k = Some v"
  by (auto simp: map_at_def split: option.splits)

lemma map_at_Inl [simp, map_simps]: "map_at m k = Inl e \<longleftrightarrow> e = Out_of_range \<and> k \<notin> keys m"
  using map_of_None_iff [of m k] by (auto simp: map_at_def split: option.splits)

lemma map_count_one [simp, map_simps]: "map_count m k = Suc 0 \<longleftrightarrow> k \<in> keys m"
  using map_of_None_iff [of m k] by (auto simp: map_count_def)

lemma keys_map_assign [simp, map_simps]: "keys (map_assign k v m) = insert k (keys m)"
  by (induction k v m rule: map_assign.induct) auto

lemma map_ok_map_assign [simp, map_simps]: "map_ok m \<Longrightarrow> map_ok (map_assign k v m)"
  by (induction k v m rule: map_assign.induct) (auto dest: order_less_trans)

lemma map_of_map_assign [simp, map_simps]:
  "map_ok m \<Longrightarrow> map_of (map_assign k v m) = (map_of m)(k \<mapsto> v)"
  by (induction k v m rule: map_assign.induct) (auto simp: fun_eq_iff)

lemma keys_map_insert [simp, map_simps]: "keys (map_insert k v m) = insert k (keys m)"
  by (auto simp: map_insert_def map_of_None_iff)

lemma map_ok_map_insert [simp, map_simps]: "map_ok m \<Longrightarrow> map_ok (map_insert k v m)"
  by (simp add: map_insert_def)

lemma map_of_map_insert [simp, map_simps]:
  "map_ok m \<Longrightarrow> map_of (map_insert k v m) =
     (if k \<in> keys m then map_of m else (map_of m)(k \<mapsto> v))"
  by (auto simp: map_insert_def map_of_None_iff)

lemma keys_map_erase [simp, map_simps]: "keys (map_erase k m) = keys m - {k}"
  by (auto simp: map_erase_def keys_def)

lemma map_ok_filter: "map_ok m \<Longrightarrow> map_ok (filter P m)"
  by (auto simp: map_ok_def sorted_wrt_map sorted_wrt_filter)

lemma map_ok_map_erase [simp, map_simps]: "map_ok m \<Longrightarrow> map_ok (map_erase k m)"
  by (simp add: map_erase_def map_ok_filter)

lemma map_of_map_erase [simp, map_simps]: "map_of (map_erase k m) = (map_of m)(k := None)"
  by (induction m) (auto simp: map_erase_def fun_eq_iff)

lemma map_ok_distinct: "map_ok m \<Longrightarrow> distinct (map fst m)"
  unfolding map_ok_def by (induction m) auto

lemma map_of_eq_mem: "map_ok m \<Longrightarrow> map_of m k = Some v \<longleftrightarrow> (k, v) \<in> set m"
  using map_ok_distinct by (metis map_of_eq_Some_iff)

lemma length_keys: "map_ok m \<Longrightarrow> length m = card (keys m)"
  by (metis distinct_card keys_def length_map list.set_map map_ok_distinct)

lemma length_map_insert:
  "map_ok m \<Longrightarrow> length (map_insert k v m) = (if k \<in> keys m then length m else Suc (length m))"
  by (simp add: length_keys insert_absorb)

lemma set_map_assign: "set (map_assign k v m) \<subseteq> insert (k, v) (set m)"
  by (induction k v m rule: map_assign.induct) auto

lemma set_map_insert: "set (map_insert k v m) \<subseteq> insert (k, v) (set m)"
  using set_map_assign [of k v m] by (auto simp: map_insert_def)

text \<open>A property of all values survives the insertion of a value that has it.\<close>

lemma ball_map_assign:
  "\<forall>x \<in> snd ` set m. P x \<Longrightarrow> P v \<Longrightarrow> \<forall>x \<in> snd ` set (map_assign k v m). P x"
  using set_map_assign by fastforce

lemma ball_map_insert:
  "\<forall>x \<in> snd ` set m. P x \<Longrightarrow> P v \<Longrightarrow> \<forall>x \<in> snd ` set (map_insert k v m). P x"
  using set_map_insert by fastforce

lemma snd_map_assign: "snd ` set (map_assign k v m) \<subseteq> insert v (snd ` set m)"
  using set_map_assign by fastforce

lemma map_of_in_values: "map_of m k = Some v \<Longrightarrow> v \<in> snd ` set m"
  by (force dest: map_of_SomeD)

lemma length_distinct_u8: "distinct (ks :: u8 list) \<Longrightarrow> length ks \<le> 256"
  using card_mono [of UNIV "set ks"] by (simp add: distinct_card card_word)

lemma length_u8_map: "map_ok (m :: (u8, 'v) std_map) \<Longrightarrow> length m < 4294967296"
  using card_mono [of UNIV "keys m"] by (simp add: length_keys card_word)

subsection \<open>A loop driven by its environment\<close>

text \<open>
  The shape of the main loops: a step that takes what the environment did and may fault. \<open>safe\<close> says
  which inputs cannot make it fault. \<open>safe_run\<close> asks that of every input of a run, in the state it meets.
\<close>

fun safe_run :: "('env \<Rightarrow> 's \<Rightarrow> 's res) \<Rightarrow> ('env \<Rightarrow> 's \<Rightarrow> bool) \<Rightarrow> 'env list \<Rightarrow> 's \<Rightarrow> bool" where
  "safe_run step safe [] s = True"
| "safe_run step safe (v # vs) s =
     (safe v s \<and> (case step v s of Inl f \<Rightarrow> True | Inr s' \<Rightarrow> safe_run step safe vs s'))"

locale faulting_loop =
  fixes step :: "'env \<Rightarrow> 's \<Rightarrow> 's res"
    and inv :: "'s \<Rightarrow> bool"
    and safe :: "'env \<Rightarrow> 's \<Rightarrow> bool"
  assumes keeps: "inv s \<Longrightarrow> step v s = Inr s' \<Longrightarrow> inv s'"
    and progress: "inv s \<Longrightarrow> safe v s \<Longrightarrow> \<exists>s'. step v s = Inr s'"
begin

lemma run_keeps: "inv s \<Longrightarrow> for_each step vs s = Inr s' \<Longrightarrow> inv s'"
  by (induction vs arbitrary: s) (auto dest: keeps)

lemma run_total: "inv s \<Longrightarrow> safe_run step safe vs s \<Longrightarrow> \<exists>s'. for_each step vs s = Inr s' \<and> inv s'"
proof (induction vs arbitrary: s)
  case (Cons v vs)
  then have "safe v s" by simp
  with Cons.prems(1) obtain s1 where "step v s = Inr s1" by (blast dest: progress)
  with Cons keeps show ?case by auto
qed simp

end

end
