(* ===== verification/Std_Set.thy ===== *)
theory Std_Set
  imports Prelude
begin

text \<open>
  \<open>std::set\<close> with an arbitrary comparator \<open>lt\<close>. One of the comparators of the code
  (\<open>operator<\<close> on positions) is not a strict order, so the set is not determined by the
  mathematical set of its elements: what \<open>insert\<close>, \<open>count\<close> and \<open>erase\<close> do depends on the
  search path. The model is the red-black search tree of the standard library the Makefile's
  compiler comes with (g++): the descents of \<open>insert\<close> (unique position), \<open>find\<close> (lower bound,
  then one comparison) and \<open>erase\<close> (equal range, then node by node), each followed by the
  bottom-up rebalancing of Cormen, Leiserson and Rivest. The laws of the first group hold for every
  comparator; those of the second need a linear order, and give a mathematical set.
\<close>

subsection \<open>The tree\<close>

datatype color = Red | Black

datatype 'a rb = Leaf | Node color "'a rb" 'a "'a rb"

fun inorder :: "'a rb \<Rightarrow> 'a list" where
  "inorder Leaf = []"
| "inorder (Node c l x r) = inorder l @ x # inorder r"

definition elems :: "'a rb \<Rightarrow> 'a set" where
  "elems t = set (inorder t)"

definition rb_size :: "'a rb \<Rightarrow> nat" where
  "rb_size t = length (inorder t)"

fun is_red :: "'a rb \<Rightarrow> bool" where
  "is_red (Node Red l x r) = True"
| "is_red t = False"

fun paint :: "color \<Rightarrow> 'a rb \<Rightarrow> 'a rb" where
  "paint c Leaf = Leaf"
| "paint c (Node c' l x r) = Node c l x r"

subsection \<open>Insertion\<close>

text \<open>
  Below a black node, a red child with a red child of its own is repaired where it appears:
  with a red uncle the two parents turn black and the node red, otherwise one or two rotations.
\<close>

fun fix_red_left :: "color \<Rightarrow> 'a rb \<Rightarrow> 'a \<Rightarrow> 'a rb \<Rightarrow> 'a rb" where
  "fix_red_left Black (Node Red ll lx lr) x r =
     (if is_red ll \<or> is_red lr
      then if is_red r then Node Red (Node Black ll lx lr) x (paint Black r)
        else if is_red ll then Node Black ll lx (Node Red lr x r)
        else (case lr of Node _ a y b \<Rightarrow> Node Black (Node Red ll lx a) y (Node Red b x r)
              | Leaf \<Rightarrow> Node Black (Node Red ll lx lr) x r)
      else Node Black (Node Red ll lx lr) x r)"
| "fix_red_left c l x r = Node c l x r"

fun fix_red_right :: "color \<Rightarrow> 'a rb \<Rightarrow> 'a \<Rightarrow> 'a rb \<Rightarrow> 'a rb" where
  "fix_red_right Black l x (Node Red rl rx rr) =
     (if is_red rl \<or> is_red rr
      then if is_red l then Node Red (paint Black l) x (Node Black rl rx rr)
        else if is_red rr then Node Black (Node Red l x rl) rx rr
        else (case rl of Node _ a y b \<Rightarrow> Node Black (Node Red l x a) y (Node Red b rx rr)
              | Leaf \<Rightarrow> Node Black l x (Node Red rl rx rr))
      else Node Black l x (Node Red rl rx rr))"
| "fix_red_right c l x r = Node c l x r"

fun insert_at_leaf :: "('a \<Rightarrow> 'a \<Rightarrow> bool) \<Rightarrow> 'a \<Rightarrow> 'a rb \<Rightarrow> 'a rb" where
  "insert_at_leaf lt k Leaf = Node Red Leaf k Leaf"
| "insert_at_leaf lt k (Node c l x r) =
     (if lt k x then fix_red_left c (insert_at_leaf lt k l) x r
      else fix_red_right c l x (insert_at_leaf lt k r))"

text \<open>
  The element just before the insertion point is the last node where the descent turned right;
  the key is new when there is none, or when that element is less than the key.
\<close>

fun insert_pred :: "('a \<Rightarrow> 'a \<Rightarrow> bool) \<Rightarrow> 'a \<Rightarrow> 'a option \<Rightarrow> 'a rb \<Rightarrow> 'a option" where
  "insert_pred lt k p Leaf = p"
| "insert_pred lt k p (Node c l x r) =
     (if lt k x then insert_pred lt k p l else insert_pred lt k (Some x) r)"

definition set_insert :: "('a \<Rightarrow> 'a \<Rightarrow> bool) \<Rightarrow> 'a \<Rightarrow> 'a rb \<Rightarrow> 'a rb" where
  "set_insert lt k t =
     (case insert_pred lt k None t of
        None \<Rightarrow> paint Black (insert_at_leaf lt k t)
      | Some j \<Rightarrow> if lt j k then paint Black (insert_at_leaf lt k t) else t)"

subsection \<open>Lookup\<close>

fun lower_bound :: "('a \<Rightarrow> 'a \<Rightarrow> bool) \<Rightarrow> 'a \<Rightarrow> 'a option \<Rightarrow> 'a rb \<Rightarrow> 'a option" where
  "lower_bound lt k y Leaf = y"
| "lower_bound lt k y (Node c l x r) =
     (if \<not> lt x k then lower_bound lt k (Some x) l else lower_bound lt k y r)"

definition set_count :: "('a \<Rightarrow> 'a \<Rightarrow> bool) \<Rightarrow> 'a rb \<Rightarrow> 'a \<Rightarrow> nat" where
  "set_count lt t k =
     (case lower_bound lt k None t of None \<Rightarrow> 0 | Some j \<Rightarrow> if lt k j then 0 else 1)"

subsection \<open>Removal\<close>

text \<open>
  A removal returns the subtree and whether it is one black node short. The first case of each
  repair, a missing sibling, cannot be met in a tree with equal black heights.
\<close>

definition splice :: "color \<Rightarrow> 'a rb \<Rightarrow> 'a rb \<times> bool" where
  "splice c child =
     (if c = Red then (child, False)
      else if is_red child then (paint Black child, False)
      else (child, True))"

fun fix_short_left' :: "color \<Rightarrow> 'a rb \<Rightarrow> 'a \<Rightarrow> 'a rb \<Rightarrow> 'a rb \<times> bool" where
  "fix_short_left' c l x Leaf = (Node c l x Leaf, True)"
| "fix_short_left' c l x (Node c' wl w wr) =
     (if \<not> is_red wl \<and> \<not> is_red wr then (Node Black l x (Node Red wl w wr), c = Black)
      else if \<not> is_red wr
      then (case wl of
              Leaf \<Rightarrow> (Node c l x (Node c' wl w wr), True)
            | Node _ a y b \<Rightarrow> (Node c (Node Black l x a) y (Node Black b w wr), False))
      else (Node c (Node Black l x wl) w (paint Black wr), False))"

fun fix_short_left :: "color \<Rightarrow> 'a rb \<Rightarrow> 'a \<Rightarrow> 'a rb \<Rightarrow> 'a rb \<times> bool" where
  "fix_short_left c l x (Node Red wl w wr) =
     (let (t, s) = fix_short_left' Red l x wl in (Node Black t w wr, s))"
| "fix_short_left c l x r = fix_short_left' c l x r"

fun fix_short_right' :: "color \<Rightarrow> 'a rb \<Rightarrow> 'a \<Rightarrow> 'a rb \<Rightarrow> 'a rb \<times> bool" where
  "fix_short_right' c Leaf x r = (Node c Leaf x r, True)"
| "fix_short_right' c (Node c' wl w wr) x r =
     (if \<not> is_red wl \<and> \<not> is_red wr then (Node Black (Node Red wl w wr) x r, c = Black)
      else if \<not> is_red wl
      then (case wr of
              Leaf \<Rightarrow> (Node c (Node c' wl w wr) x r, True)
            | Node _ a y b \<Rightarrow> (Node c (Node Black wl w a) y (Node Black b x r), False))
      else (Node c (paint Black wl) w (Node Black wr x r), False))"

fun fix_short_right :: "color \<Rightarrow> 'a rb \<Rightarrow> 'a \<Rightarrow> 'a rb \<Rightarrow> 'a rb \<times> bool" where
  "fix_short_right c (Node Red wl w wr) x r =
     (let (t, s) = fix_short_right' Red wr x r in (Node Black wl w t, s))"
| "fix_short_right c l x r = fix_short_right' c l x r"

definition rejoin_left :: "color \<Rightarrow> 'a rb \<times> bool \<Rightarrow> 'a \<Rightarrow> 'a rb \<Rightarrow> 'a rb \<times> bool" where
  "rejoin_left c lt x r =
     (if snd lt then fix_short_left c (fst lt) x r else (Node c (fst lt) x r, False))"

definition rejoin_right :: "color \<Rightarrow> 'a rb \<Rightarrow> 'a \<Rightarrow> 'a rb \<times> bool \<Rightarrow> 'a rb \<times> bool" where
  "rejoin_right c l x rt =
     (if snd rt then fix_short_right c l x (fst rt) else (Node c l x (fst rt), False))"

fun min_elem :: "'a \<Rightarrow> 'a rb \<Rightarrow> 'a" where
  "min_elem d Leaf = d"
| "min_elem d (Node c l x r) = min_elem x l"

fun delete_min :: "'a rb \<Rightarrow> 'a rb \<times> bool" where
  "delete_min Leaf = (Leaf, False)"
| "delete_min (Node c Leaf x r) = splice c r"
| "delete_min (Node c l x r) = rejoin_left c (delete_min l) x r"

text \<open>Removal of the node at an in-order index; a node with two children is replaced by its successor.\<close>

fun delete_at :: "nat \<Rightarrow> 'a rb \<Rightarrow> 'a rb \<times> bool" where
  "delete_at i Leaf = (Leaf, False)"
| "delete_at i (Node c l x r) =
     (if i < rb_size l then rejoin_left c (delete_at i l) x r
      else if i > rb_size l then rejoin_right c l x (delete_at (i - rb_size l - 1) r)
      else if l = Leaf then splice c r
      else if r = Leaf then splice c l
      else rejoin_right c l (min_elem x r) (delete_min r))"

text \<open>The two ends of \<open>equal_range\<close>, as in-order indices.\<close>

fun lower_index :: "('a \<Rightarrow> 'a \<Rightarrow> bool) \<Rightarrow> 'a \<Rightarrow> 'a rb \<Rightarrow> nat" where
  "lower_index lt k Leaf = 0"
| "lower_index lt k (Node c l x r) =
     (if \<not> lt x k then lower_index lt k l else rb_size l + 1 + lower_index lt k r)"

fun upper_index :: "('a \<Rightarrow> 'a \<Rightarrow> bool) \<Rightarrow> 'a \<Rightarrow> 'a rb \<Rightarrow> nat" where
  "upper_index lt k Leaf = 0"
| "upper_index lt k (Node c l x r) =
     (if lt k x then upper_index lt k l else rb_size l + 1 + upper_index lt k r)"

fun equal_range :: "('a \<Rightarrow> 'a \<Rightarrow> bool) \<Rightarrow> 'a \<Rightarrow> 'a rb \<Rightarrow> nat \<times> nat" where
  "equal_range lt k Leaf = (0, 0)"
| "equal_range lt k (Node c l x r) =
     (if lt x k then let (a, b) = equal_range lt k r in (rb_size l + 1 + a, rb_size l + 1 + b)
      else if lt k x then equal_range lt k l
      else (lower_index lt k l, rb_size l + 1 + upper_index lt k r))"

fun delete_many :: "nat \<Rightarrow> nat \<Rightarrow> 'a rb \<Rightarrow> 'a rb" where
  "delete_many 0 i t = t"
| "delete_many (Suc n) i t = delete_many n i (fst (delete_at i t))"

definition set_erase :: "('a \<Rightarrow> 'a \<Rightarrow> bool) \<Rightarrow> 'a \<Rightarrow> 'a rb \<Rightarrow> 'a rb" where
  "set_erase lt k t = (let (a, b) = equal_range lt k t in delete_many (b - a) a t)"

subsection \<open>In-order contents\<close>

lemma inorder_paint [simp, inorder_simps]: "inorder (paint c t) = inorder t"
  by (cases t) auto

lemma inorder_fix_red_left [simp, inorder_simps]:
  "inorder (fix_red_left c l x r) = inorder l @ x # inorder r"
  by (cases "(c, l, x, r)" rule: fix_red_left.cases) (auto split: rb.splits)

lemma inorder_fix_red_right [simp, inorder_simps]:
  "inorder (fix_red_right c l x r) = inorder l @ x # inorder r"
  by (cases "(c, l, x, r)" rule: fix_red_right.cases) (auto split: rb.splits)

lemma inorder_splice [simp, inorder_simps]: "inorder (fst (splice c t)) = inorder t"
  by (simp add: splice_def)

lemma inorder_fix_short_left' [simp, inorder_simps]:
  "inorder (fst (fix_short_left' c l x r)) = inorder l @ x # inorder r"
  by (cases "(c, l, x, r)" rule: fix_short_left'.cases) (auto split: rb.splits)

lemma inorder_fix_short_left [simp, inorder_simps]:
  "inorder (fst (fix_short_left c l x r)) = inorder l @ x # inorder r"
  by (cases "(c, l, x, r)" rule: fix_short_left.cases)
    (auto simp del: fix_short_left'.simps simp: split_beta Let_def)

lemma inorder_fix_short_right' [simp, inorder_simps]:
  "inorder (fst (fix_short_right' c l x r)) = inorder l @ x # inorder r"
  by (cases "(c, l, x, r)" rule: fix_short_right'.cases) (auto split: rb.splits)

lemma inorder_fix_short_right [simp, inorder_simps]:
  "inorder (fst (fix_short_right c l x r)) = inorder l @ x # inorder r"
  by (cases "(c, l, x, r)" rule: fix_short_right.cases)
    (auto simp del: fix_short_right'.simps simp: split_beta Let_def)

lemma inorder_rejoin [simp, inorder_simps]:
  "inorder (fst (rejoin_left c lt x r)) = inorder (fst lt) @ x # inorder r"
  "inorder (fst (rejoin_right c l x rt)) = inorder l @ x # inorder (fst rt)"
  by (simp_all add: rejoin_left_def rejoin_right_def)

lemma inorder_delete_min:
  "t \<noteq> Leaf \<Longrightarrow> min_elem d t # inorder (fst (delete_min t)) = inorder t"
proof (induction t arbitrary: d rule: delete_min.induct)
  case (3 c c' l' y r' x r)
  let ?l = "Node c' l' y r'"
  have "min_elem x ?l # inorder (fst (delete_min ?l)) = inorder ?l"
    by (rule "3.IH") simp
  from arg_cong [OF this, of "\<lambda>ys. ys @ x # inorder r"] show ?case
    by (simp del: delete_min.simps(2) min_elem.simps add: min_elem.simps(2) [of _ c ?l])
qed auto

lemma inorder_delete_at:
  "i < rb_size t \<Longrightarrow> inorder (fst (delete_at i t)) = take i (inorder t) @ drop (Suc i) (inorder t)"
proof (induction i t rule: delete_at.induct)
  case (2 i c l x r)
  consider "i < rb_size l" | "i = rb_size l" | "i > rb_size l" by linarith
  then show ?case
  proof cases
    case 1
    with 2 show ?thesis by (simp add: rb_size_def)
  next
    case 2
    then show ?thesis using inorder_delete_min [of r x] by (auto simp: rb_size_def)
  next
    case 3
    with 2 obtain j where "i = Suc (rb_size l + j)"
      by (metis add_Suc_right less_iff_Suc_add)
    with 2 3 show ?thesis by (simp add: rb_size_def)
  qed
qed (simp add: rb_size_def)

lemma inorder_delete_many:
  "i + n \<le> rb_size t \<Longrightarrow> inorder (delete_many n i t) = take i (inorder t) @ drop (i + n) (inorder t)"
proof (induction n i t rule: delete_many.induct)
  case (2 n i t)
  have t': "inorder (fst (delete_at i t)) = take i (inorder t) @ drop (Suc i) (inorder t)"
    using 2 by (simp add: inorder_delete_at)
  then have "i + n \<le> rb_size (fst (delete_at i t))"
    using 2 by (simp add: rb_size_def)
  from 2(1) [OF this] 2(2) show ?case by (simp add: t' rb_size_def)
qed simp

lemma index_le_size:
  "lower_index lt k t \<le> rb_size t" "upper_index lt k t \<le> rb_size t"
  by (induction t) (auto simp: rb_size_def)

lemma equal_range_bounds:
  "fst (equal_range lt k t) \<le> snd (equal_range lt k t)
     \<and> snd (equal_range lt k t) \<le> rb_size t"
proof (induction t)
  case (Node c l x r)
  have "lower_index lt k l \<le> rb_size l" "upper_index lt k r \<le> rb_size r"
    by (rule index_le_size)+
  with Node show ?case by (simp add: rb_size_def split_beta Let_def)
qed simp

lemma inorder_set_erase:
  "inorder (set_erase lt k t) =
     take (fst (equal_range lt k t)) (inorder t) @ drop (snd (equal_range lt k t)) (inorder t)"
  using equal_range_bounds [of lt k t]
  by (simp add: set_erase_def split_beta inorder_delete_many)

subsection \<open>Laws that hold for every comparator\<close>

lemma elems_Leaf [simp]: "elems Leaf = {}"
  by (simp add: elems_def)

lemma elems_Node [simp]: "elems (Node c l x r) = elems l \<union> insert x (elems r)"
  by (auto simp: elems_def)

lemma finite_elems [simp]: "finite (elems t)"
  by (simp add: elems_def)

lemma elems_paint [simp]: "elems (paint c t) = elems t"
  by (simp add: elems_def)

lemma elems_insert_at_leaf [simp]: "elems (insert_at_leaf lt k t) = insert k (elems t)"
  by (induction t) (auto simp: elems_def)

lemma elems_set_insert_cases: "elems (set_insert lt k t) \<in> {elems t, insert k (elems t)}"
  by (simp add: set_insert_def split: option.splits)

lemma elems_set_erase_subset: "elems (set_erase lt k t) \<subseteq> elems t"
  by (auto simp: elems_def inorder_set_erase dest: in_set_takeD in_set_dropD)

lemma lower_bound_cases:
  "lower_bound lt k y t = y \<or>
     (\<exists>j \<in> elems t. lower_bound lt k y t = Some j \<and> \<not> lt j k)"
proof (induction t arbitrary: y)
  case (Node c l x r)
  show ?case
    using Node.IH(1) [of "Some x"] Node.IH(2) [of y] by (cases "lt x k") auto
qed simp

lemma set_count_found:
  "set_count lt t k = Suc 0 \<Longrightarrow> \<exists>j \<in> elems t. \<not> lt j k \<and> \<not> lt k j"
  using lower_bound_cases [of lt k None t]
  by (auto simp: set_count_def split: option.splits if_splits)

text \<open>
  The contract a client of \<open>std::set\<close> may use whatever the comparator is: nothing is invented,
  insertion loses nothing, removal adds nothing, and a positive lookup has a witness the comparator
  does not tell apart from the key.
\<close>

locale search_set =
  fixes lt :: "'a \<Rightarrow> 'a \<Rightarrow> bool"
    and empty_set :: "'s"
    and ins :: "'a \<Rightarrow> 's \<Rightarrow> 's"
    and del :: "'a \<Rightarrow> 's \<Rightarrow> 's"
    and cnt :: "'s \<Rightarrow> 'a \<Rightarrow> nat"
    and els :: "'s \<Rightarrow> 'a set"
  assumes els_empty: "els empty_set = {}"
    and els_ins: "els (ins x s) \<in> {els s, insert x (els s)}"
    and els_del: "els (del x s) \<subseteq> els s"
    and cnt_found: "cnt s x = 1 \<Longrightarrow> \<exists>y \<in> els s. \<not> lt y x \<and> \<not> lt x y"
begin

lemma els_ins_subset: "els (ins x s) \<subseteq> insert x (els s)"
  using els_ins [of x s] by auto

lemma els_ins_superset: "els s \<subseteq> els (ins x s)"
  using els_ins [of x s] by auto

lemma els_fold_del: "els (fold del xs s) \<subseteq> els s"
  by (induction xs arbitrary: s) (auto dest: subsetD [OF els_del])

lemma els_fold_ins: "els (fold ins xs s) \<subseteq> set xs \<union> els s"
proof (induction xs arbitrary: s)
  case (Cons x xs)
  with els_ins_subset [of x s] show ?case by fastforce
qed simp

lemma ins_keeps: "\<lbrakk> \<forall>y \<in> els s. P y; P x \<rbrakk> \<Longrightarrow> \<forall>y \<in> els (ins x s). P y"
  using els_ins_subset by blast

lemma del_keeps: "\<forall>y \<in> els s. P y \<Longrightarrow> \<forall>y \<in> els (del x s). P y"
  using els_del by blast

lemma fold_del_keeps: "\<forall>y \<in> els s. P y \<Longrightarrow> \<forall>y \<in> els (fold del xs s). P y"
  using els_fold_del by blast

lemma cnt_empty: "cnt empty_set x \<noteq> 1"
  using cnt_found [of empty_set x] els_empty by auto

end

interpretation std: search_set lt Leaf "set_insert lt" "set_erase lt" "set_count lt" elems
  for lt :: "'a \<Rightarrow> 'a \<Rightarrow> bool"
proof unfold_locales
  show "elems Leaf = {}" by simp
  show "elems (set_insert lt x s) \<in> {elems s, insert x (elems s)}" for x s
    by (rule elems_set_insert_cases)
  show "elems (set_erase lt x s) \<subseteq> elems s" for x s
    by (rule elems_set_erase_subset)
  show "\<exists>y \<in> elems s. \<not> lt y x \<and> \<not> lt x y" if "set_count lt s x = 1" for s x
    using that by (intro set_count_found) simp
qed

subsection \<open>Laws for a linear order\<close>

definition set_ok :: "'a::linorder rb \<Rightarrow> bool" where
  "set_ok t \<longleftrightarrow> sorted_wrt (<) (inorder t)"

lemma set_ok_Leaf [simp]: "set_ok Leaf"
  by (simp add: set_ok_def)

lemma set_ok_Node [simp]:
  "set_ok (Node c l x r) \<longleftrightarrow>
     set_ok l \<and> set_ok r \<and> (\<forall>y \<in> elems l. y < x) \<and> (\<forall>y \<in> elems r. x < y)"
  by (auto simp: set_ok_def elems_def sorted_wrt_append dest: order_less_trans)

lemma lower_bound_ok:
  "set_ok t \<Longrightarrow> lower_bound (<) k y t =
     (case dropWhile (\<lambda>x. x < k) (inorder t) of [] \<Rightarrow> y | z # _ \<Rightarrow> Some z)"
proof (induction t arbitrary: y)
  case (Node c l x r)
  show ?case
  proof (cases "x < k")
    case True
    with Node.prems have "\<forall>z \<in> set (inorder l). z < k" by (auto simp: elems_def)
    with True Node show ?thesis by (simp add: dropWhile_append2)
  next
    case False
    with Node have "lower_bound (<) k y (Node c l x r) =
        (case dropWhile (\<lambda>x. x < k) (inorder l) of [] \<Rightarrow> Some x | z # _ \<Rightarrow> Some z)"
      by simp
    with False show ?thesis
      by (cases "dropWhile (\<lambda>x. x < k) (inorder l)")
        (simp_all add: dropWhile_append3 del: dropWhile_eq_Nil_conv)
  qed
qed simp

lemma mem_dropWhile_sorted:
  fixes k :: "'a::linorder"
  assumes "sorted_wrt (<) xs"
  shows "k \<in> set xs \<longleftrightarrow> (\<exists>zs. dropWhile (\<lambda>x. x < k) xs = k # zs)"
  using assms
proof (induction xs)
  case (Cons a xs)
  show ?case
  proof (cases "a < k")
    case False
    with Cons.prems show ?thesis by (auto dest: order_less_imp_le)
  qed (use Cons in auto)
qed simp

lemma set_count_ok:
  assumes "set_ok t"
  shows "set_count (<) t k = 1 \<longleftrightarrow> k \<in> elems t"
proof (cases "dropWhile (\<lambda>x. x < k) (inorder t)")
  case Nil
  with assms show ?thesis
    using mem_dropWhile_sorted [of "inorder t" k]
    by (simp add: set_count_def lower_bound_ok elems_def set_ok_def del: dropWhile_eq_Nil_conv)
next
  case (Cons z zs)
  then have "\<not> z < k" by (metis dropWhile_eq_Cons_conv)
  with Cons assms show ?thesis
    using mem_dropWhile_sorted [of "inorder t" k]
    by (auto simp: set_count_def lower_bound_ok elems_def set_ok_def simp del: dropWhile_eq_Cons_conv)
qed

lemma set_ok_insert_at_leaf:
  "set_ok t \<Longrightarrow> k \<notin> elems t \<Longrightarrow> set_ok (insert_at_leaf (<) k t)"
proof (induction t)
  case (Node c l x r)
  have inorder_eq: "inorder (insert_at_leaf (<) k (Node c l x r)) =
      (if k < x then inorder (Node c (insert_at_leaf (<) k l) x r)
       else inorder (Node c l x (insert_at_leaf (<) k r)))"
    by simp
  have "set_ok (Node c (insert_at_leaf (<) k l) x r)" if "k < x"
    using Node that by simp
  moreover have "set_ok (Node c l x (insert_at_leaf (<) k r))" if "\<not> k < x"
    using Node that by auto
  ultimately show ?case unfolding set_ok_def inorder_eq by presburger
qed simp

lemma insert_pred_above: "\<forall>y \<in> elems t. k < y \<Longrightarrow> insert_pred (<) (k::'a::linorder) p t = p"
  by (induction t) auto

lemma insert_pred_member:
  "set_ok t \<Longrightarrow> k \<in> elems t \<Longrightarrow> insert_pred (<) k p t = Some k"
proof (induction t arbitrary: p)
  case (Node c l x r)
  then consider "k < x" "k \<in> elems l" | "k = x" | "x < k" "k \<in> elems r" by auto
  then show ?case using Node by cases (auto simp: insert_pred_above)
qed simp

lemma insert_pred_cases:
  "insert_pred lt k p t = p \<or> (\<exists>j \<in> elems t. insert_pred lt k p t = Some j \<and> \<not> lt k j)"
proof (induction t arbitrary: p)
  case (Node c l x r)
  show ?case using Node.IH(1) [of p] Node.IH(2) [of "Some x"] by (cases "lt k x") auto
qed simp

lemma set_insert_ok:
  assumes "set_ok t"
  shows "set_insert (<) k t = (if k \<in> elems t then t else paint Black (insert_at_leaf (<) k t))"
proof (cases "k \<in> elems t")
  case True
  with assms show ?thesis by (simp add: set_insert_def insert_pred_member)
next
  case False
  then show ?thesis
    using insert_pred_cases [of "(<)" k None t]
    by (auto simp: set_insert_def not_less order.strict_iff_order split: option.splits)
qed

lemma set_ok_paint [simp]: "set_ok (paint c t) \<longleftrightarrow> set_ok t"
  by (simp add: set_ok_def)

lemma lower_index_below: "\<forall>y \<in> elems t. y < k \<Longrightarrow> lower_index (<) (k::'a::linorder) t = rb_size t"
  by (induction t) (auto simp: rb_size_def)

lemma upper_index_above: "\<forall>y \<in> elems t. k < y \<Longrightarrow> upper_index (<) (k::'a::linorder) t = 0"
  by (induction t) auto

lemma inorder_set_erase_ok:
  "set_ok t \<Longrightarrow> inorder (set_erase (<) k t) = filter (\<lambda>x. x \<noteq> k) (inorder t)"
  unfolding inorder_set_erase
proof (induction t)
  case (Node c l x r)
  have below: "filter (\<lambda>z. z \<noteq> k) (inorder l) = inorder l" if "\<not> k < x"
    using Node.prems that by (auto simp: elems_def filter_id_conv)
  have above: "filter (\<lambda>z. z \<noteq> k) (inorder r) = inorder r" if "\<not> x < k"
    using Node.prems that by (auto simp: elems_def filter_id_conv)
  have bound: "snd (equal_range (<) k l) \<le> length (inorder l)"
      "fst (equal_range (<) k l) \<le> length (inorder l)"
    using equal_range_bounds [of "(<)" k l] by (simp_all add: rb_size_def)
  consider "x < k" | "k < x" | "x = k" by fastforce
  then show ?case
  proof cases
    case 1
    with Node below show ?thesis by (auto simp: split_beta Let_def rb_size_def)
  next
    case 2
    with Node above bound show ?thesis by auto
  next
    case 3
    with Node below above show ?thesis
      by (simp add: lower_index_below upper_index_above rb_size_def)
  qed
qed simp

text \<open>
  With a linear order the container is the mathematical set: the contract of a \<open>std::set\<close> whose
  comparator meets the standard's requirement.
\<close>

locale ordered_set = search_set lt empty_set ins del cnt els
  for lt :: "'a \<Rightarrow> 'a \<Rightarrow> bool" and empty_set :: "'s"
    and ins :: "'a \<Rightarrow> 's \<Rightarrow> 's" and del :: "'a \<Rightarrow> 's \<Rightarrow> 's"
    and cnt :: "'s \<Rightarrow> 'a \<Rightarrow> nat" and els :: "'s \<Rightarrow> 'a set" +
  fixes ok :: "'s \<Rightarrow> bool"
  assumes ok_empty: "ok empty_set"
    and ok_ins: "ok s \<Longrightarrow> ok (ins x s)"
    and ok_del: "ok s \<Longrightarrow> ok (del x s)"
    and els_ins_eq: "ok s \<Longrightarrow> els (ins x s) = insert x (els s)"
    and els_del_eq: "ok s \<Longrightarrow> els (del x s) = els s - {x}"
    and cnt_iff: "ok s \<Longrightarrow> cnt s x = 1 \<longleftrightarrow> x \<in> els s"
begin

lemma ok_fold_ins: "ok s \<Longrightarrow> ok (fold ins xs s)"
  by (induction xs arbitrary: s) (auto simp: ok_ins)

lemma els_fold_ins_eq: "ok s \<Longrightarrow> els (fold ins xs s) = set xs \<union> els s"
  by (induction xs arbitrary: s) (auto simp: ok_ins els_ins_eq)

lemma cnt_after_ins: "ok s \<Longrightarrow> cnt (ins x s) y = 1 \<longleftrightarrow> y = x \<or> cnt s y = 1"
  using cnt_iff [of s y] cnt_iff [of "ins x s" y] by (simp add: ok_ins els_ins_eq)

end

interpretation ord: ordered_set "(<)" Leaf "set_insert (<)" "set_erase (<)" "set_count (<)"
    elems "set_ok :: 'a::linorder rb \<Rightarrow> bool"
proof unfold_locales
  fix s :: "'a rb" and x :: 'a
  show "set_ok (Leaf :: 'a rb)" by simp
  assume ok: "set_ok s"
  then show "set_ok (set_insert (<) x s)"
    by (simp add: set_insert_ok set_ok_insert_at_leaf)
  from ok show "set_ok (set_erase (<) x s)"
    by (simp add: set_ok_def inorder_set_erase_ok sorted_wrt_filter)
  from ok show "elems (set_insert (<) x s) = insert x (elems s)"
    by (auto simp: set_insert_ok)
  from ok show "elems (set_erase (<) x s) = elems s - {x}"
    by (auto simp: elems_def inorder_set_erase_ok)
  from ok show "set_count (<) s x = 1 \<longleftrightarrow> x \<in> elems s"
    by (rule set_count_ok)
qed

lemma elems_fold_insert:
  "set_ok t \<Longrightarrow> set_ok (fold (set_insert (<)) xs t)
     \<and> elems (fold (set_insert (<)) xs t) = set xs \<union> elems (t :: 'a::linorder rb)"
  using ord.ok_fold_ins ord.els_fold_ins_eq by blast

end
