(* ===== verification/Messages.thy ===== *)
theory Messages
  imports Std_Set
begin

text \<open>
  \<open>game-messages.h\<close> and \<open>game-messages.cpp\<close>: the message codes, players, positions and bombs, the
  comparison of positions as it is written, and the two classes in which the client keeps what the
  server told it (\<open>Lobby_info\<close> and \<open>Game_info\<close>).
\<close>

type_synonym player_id = u8
type_synonym bomb_id = u32
type_synonym score = u32

subsection \<open>Message codes\<close>

datatype server_message_code = Hello | AcceptedPlayer | GameStarted | Turn | GameEnded

fun server_code :: "server_message_code \<Rightarrow> u8" where
  "server_code Hello = 0"
| "server_code AcceptedPlayer = 1"
| "server_code GameStarted = 2"
| "server_code Turn = 3"
| "server_code GameEnded = 4"

datatype draw_message_code = Lobby | Game

fun draw_code :: "draw_message_code \<Rightarrow> u8" where
  "draw_code Lobby = 0"
| "draw_code Game = 1"

datatype input_message_code = Place_bomb | Place_block | Move

fun input_code :: "input_message_code \<Rightarrow> u8" where
  "input_code Place_bomb = 0"
| "input_code Place_block = 1"
| "input_code Move = 2"

datatype client_message_code = Join | Place_bomb_client | Place_block_client | Move_client

fun client_code :: "client_message_code \<Rightarrow> u8" where
  "client_code Join = 0"
| "client_code Place_bomb_client = 1"
| "client_code Place_block_client = 2"
| "client_code Move_client = 3"

text \<open>
  \<open>Direction\<close> is cast from a received byte without a check, so an object of the enumeration can hold
  any byte; the last constructor holds the values that are no enumerator.
\<close>

datatype direction = Up | Right | Down | Left | Other_direction u8

definition direction_of_byte :: "u8 \<Rightarrow> direction" where
  "direction_of_byte b =
     (if b = 0 then Up else if b = 1 then Right else if b = 2 then Down
      else if b = 3 then Left else Other_direction b)"

fun direction_code :: "direction \<Rightarrow> u8" where
  "direction_code Up = 0"
| "direction_code Right = 1"
| "direction_code Down = 2"
| "direction_code Left = 3"
| "direction_code (Other_direction b) = b"

lemma direction_code_of_byte [simp]: "direction_code (direction_of_byte b) = b"
  by (simp add: direction_of_byte_def)

lemma direction_of_byte_enum [simp]:
  "direction_of_byte 0 = Up" "direction_of_byte 1 = Right"
  "direction_of_byte 2 = Down" "direction_of_byte 3 = Left"
  by (simp_all add: direction_of_byte_def)

datatype event_code = Bomb_placed | Bomb_exploded | Player_moved | Block_placed

fun event_byte :: "event_code \<Rightarrow> u8" where
  "event_byte Bomb_placed = 0"
| "event_byte Bomb_exploded = 1"
| "event_byte Player_moved = 2"
| "event_byte Block_placed = 3"

text \<open>A \<open>switch\<close> on a received byte: the first listed code with that byte, if any.\<close>

definition code_of_byte :: "('c \<Rightarrow> u8) \<Rightarrow> 'c list \<Rightarrow> u8 \<Rightarrow> 'c option" where
  "code_of_byte f cs b = find (\<lambda>c. f c = b) cs"

definition server_code_of_byte :: "u8 \<Rightarrow> server_message_code option" where
  "server_code_of_byte = code_of_byte server_code [Hello, AcceptedPlayer, GameStarted, Turn, GameEnded]"

definition input_code_of_byte :: "u8 \<Rightarrow> input_message_code option" where
  "input_code_of_byte = code_of_byte input_code [Place_bomb, Place_block, Move]"

definition client_code_of_byte :: "u8 \<Rightarrow> client_message_code option" where
  "client_code_of_byte =
     code_of_byte client_code [Join, Place_bomb_client, Place_block_client, Move_client]"

definition event_code_of_byte :: "u8 \<Rightarrow> event_code option" where
  "event_code_of_byte =
     code_of_byte event_byte [Bomb_placed, Bomb_exploded, Player_moved, Block_placed]"

lemmas code_of_byte_defs = code_of_byte_def server_code_of_byte_def input_code_of_byte_def
  client_code_of_byte_def event_code_of_byte_def

lemma code_of_byte_of_code [simp]:
  "server_code_of_byte (server_code s) = Some s"
  "input_code_of_byte (input_code i) = Some i"
  "client_code_of_byte (client_code c) = Some c"
  "event_code_of_byte (event_byte e) = Some e"
proof -
  show "server_code_of_byte (server_code s) = Some s"
    by (cases s) (simp_all add: code_of_byte_defs)
  show "input_code_of_byte (input_code i) = Some i"
    by (cases i) (simp_all add: code_of_byte_defs)
  show "client_code_of_byte (client_code c) = Some c"
    by (cases c) (simp_all add: code_of_byte_defs)
  show "event_code_of_byte (event_byte e) = Some e"
    by (cases e) (simp_all add: code_of_byte_defs)
qed

subsection \<open>Players, positions, bombs\<close>

datatype player = Player (player_name: cstring) (player_address: cstring)

datatype position = Position (pos_x: u16) (pos_y: u16)

datatype bomb = Bomb (bomb_position: position) (timer: u16)

text \<open>\<open>operator<\<close> on positions, as written: the first disjunct compares an \<open>x\<close> with a \<open>y\<close>.\<close>

definition position_lt :: "position \<Rightarrow> position \<Rightarrow> bool" where
  "position_lt first second \<longleftrightarrow>
     pos_x first < pos_y second \<or> (pos_x first = pos_x second \<and> pos_y first < pos_y second)"

definition position_eq :: "position \<Rightarrow> position \<Rightarrow> bool" where
  "position_eq first second \<longleftrightarrow> pos_x first = pos_x second \<and> pos_y first = pos_y second"

definition bomb_lt :: "bomb \<Rightarrow> bomb \<Rightarrow> bool" where
  "bomb_lt first second \<longleftrightarrow>
     position_lt (bomb_position first) (bomb_position second) \<or>
     (position_eq (bomb_position first) (bomb_position second) \<and> timer first < timer second)"

lemma position_eq_iff [simp]: "position_eq p q \<longleftrightarrow> p = q"
  by (auto simp: position_eq_def position.expand)

text \<open>The order a \<open>std::set\<close> of positions needs: lexicographic, the type's linear order.\<close>

instantiation position :: linorder
begin

definition less_position :: "position \<Rightarrow> position \<Rightarrow> bool" where
  "less_position p q \<longleftrightarrow> pos_x p < pos_x q \<or> (pos_x p = pos_x q \<and> pos_y p < pos_y q)"

definition less_eq_position :: "position \<Rightarrow> position \<Rightarrow> bool" where
  "less_eq_position p q \<longleftrightarrow> pos_x p < pos_x q \<or> (pos_x p = pos_x q \<and> pos_y p \<le> pos_y q)"

instance
  by standard (auto simp: less_position_def less_eq_position_def position.expand)

end

text \<open>Sets of positions, with the comparator \<open>std::less\<close> picks up: \<open>operator<\<close>.\<close>

type_synonym position_set = "position rb"

definition pos_insert :: "position \<Rightarrow> position_set \<Rightarrow> position_set" where
  "pos_insert = set_insert position_lt"

definition pos_erase :: "position \<Rightarrow> position_set \<Rightarrow> position_set" where
  "pos_erase = set_erase position_lt"

definition pos_count :: "position_set \<Rightarrow> position \<Rightarrow> nat" where
  "pos_count = set_count position_lt"

interpretation positions: search_set position_lt Leaf pos_insert pos_erase pos_count elems
  unfolding pos_insert_def pos_erase_def pos_count_def by (rule std.search_set_axioms)

lemma position_lt_refl: "position_lt p p \<longleftrightarrow> pos_x p < pos_y p"
  by (auto simp: position_lt_def)

text \<open>Two positions neither of which is less: what the container takes for equal.\<close>

definition same_key :: "position \<Rightarrow> position \<Rightarrow> bool" where
  "same_key p q \<longleftrightarrow> \<not> position_lt p q \<and> \<not> position_lt q p"

lemma same_key_iff:
  "same_key p q \<longleftrightarrow> pos_y q \<le> pos_x p \<and> pos_y p \<le> pos_x q \<and> (pos_x p = pos_x q \<longrightarrow> pos_y p = pos_y q)"
  by (auto simp: same_key_def position_lt_def not_less)

lemma pos_count_found: "pos_count t p = Suc 0 \<Longrightarrow> \<exists>q \<in> elems t. same_key q p"
  using positions.cnt_found [of t p] by (auto simp: same_key_def)

lemma pos_count_singleton: "pos_count (pos_insert q Leaf) p = Suc 0 \<longleftrightarrow> same_key q p"
  by (auto simp: pos_count_def pos_insert_def set_count_def set_insert_def same_key_def)

subsection \<open>What the client knows of the lobby\<close>

record lobby_info =
  li_server_name :: cstring
  li_players_count :: u8
  li_size_x :: u16
  li_size_y :: u16
  li_game_length :: u16
  li_explosion_radius :: u16
  li_bomb_timer :: u16
  li_players :: "(player_id, player) std_map"

definition new_lobby_info ::
    "cstring \<Rightarrow> u8 \<Rightarrow> u16 \<Rightarrow> u16 \<Rightarrow> u16 \<Rightarrow> u16 \<Rightarrow> u16 \<Rightarrow> lobby_info" where
  "new_lobby_info server_name players_count size_x size_y game_length explosion_radius bomb_timer =
     \<lparr>li_server_name = server_name, li_players_count = players_count, li_size_x = size_x,
      li_size_y = size_y, li_game_length = game_length, li_explosion_radius = explosion_radius,
      li_bomb_timer = bomb_timer, li_players = []\<rparr>"

definition add_player :: "player_id \<Rightarrow> player \<Rightarrow> lobby_info \<Rightarrow> lobby_info" where
  "add_player i p l = l\<lparr>li_players := map_insert i p (li_players l)\<rparr>"

definition clear_players :: "lobby_info \<Rightarrow> lobby_info" where
  "clear_players l = l\<lparr>li_players := []\<rparr>"

subsection \<open>What the client knows of the game\<close>

record game_info =
  gi_server_name :: cstring
  gi_size_x :: u16
  gi_size_y :: u16
  gi_game_length :: u16
  gi_bomb_timer :: u16
  gi_turn :: u16
  gi_players :: "(player_id, player) std_map"
  gi_player_positions :: "(player_id, position) std_map"
  gi_blocks :: position_set
  gi_bombs :: "(bomb_id, bomb) std_map"
  gi_explosions :: position_set
  gi_scores :: "(player_id, score) std_map"

text \<open>
  The constructor erases, inside a range-based \<open>for\<close> over \<open>scores\<close>, the entry the loop stands on;
  advancing from an erased entry is the fault \<open>Iterator_invalidated\<close>. It leaves \<open>turn\<close> without a
  value: \<open>indet_turn\<close> is whatever the memory held.
\<close>

definition add_missing_scores ::
    "(player_id, player) std_map \<Rightarrow> (player_id, score) std_map \<Rightarrow> (player_id, score) std_map" where
  "add_missing_scores ps sc =
     fold (\<lambda>p sc. if map_count sc (fst p) = 0 then map_insert (fst p) 0 sc else sc) ps sc"

definition new_game_info ::
    "u16 \<Rightarrow> cstring \<Rightarrow> u16 \<Rightarrow> u16 \<Rightarrow> u16 \<Rightarrow> (player_id, player) std_map \<Rightarrow> u16 \<Rightarrow>
     (player_id, score) std_map \<Rightarrow> game_info res" where
  "new_game_info indet_turn server_name size_x size_y game_length players bomb_timer scores =
     (if \<exists>s \<in> set scores. map_count players (fst s) = 0 then Inl Iterator_invalidated
      else Inr \<lparr>gi_server_name = server_name, gi_size_x = size_x, gi_size_y = size_y,
        gi_game_length = game_length, gi_bomb_timer = bomb_timer, gi_turn = indet_turn,
        gi_players = players, gi_player_positions = [], gi_blocks = Leaf, gi_bombs = [],
        gi_explosions = Leaf, gi_scores = add_missing_scores players scores\<rparr>)"

definition new_turn :: "u16 \<Rightarrow> game_info \<Rightarrow> game_info" where
  "new_turn t g = g\<lparr>gi_explosions := Leaf, gi_turn := t\<rparr>"

definition add_explosion :: "position \<Rightarrow> game_info \<Rightarrow> game_info" where
  "add_explosion p g = g\<lparr>gi_explosions := pos_insert p (gi_explosions g)\<rparr>"

definition add_bomb :: "bomb_id \<Rightarrow> position \<Rightarrow> game_info \<Rightarrow> game_info" where
  "add_bomb i p g = g\<lparr>gi_bombs := map_insert i (Bomb p (gi_bomb_timer g)) (gi_bombs g)\<rparr>"

definition add_block :: "position \<Rightarrow> game_info \<Rightarrow> game_info" where
  "add_block p g = g\<lparr>gi_blocks := pos_insert p (gi_blocks g)\<rparr>"

definition remove_bomb :: "bomb_id \<Rightarrow> game_info \<Rightarrow> game_info" where
  "remove_bomb i g = g\<lparr>gi_bombs := map_erase i (gi_bombs g)\<rparr>"

definition destroy_player :: "player_id \<Rightarrow> game_info \<Rightarrow> game_info res" where
  "destroy_player i g =
     and_then (map_at (gi_scores g) i) (\<lambda>s.
       Inr (g\<lparr>gi_player_positions := map_erase i (gi_player_positions g),
              gi_scores := map_assign i (s + 1) (gi_scores g)\<rparr>))"

definition remove_block :: "position \<Rightarrow> game_info \<Rightarrow> game_info" where
  "remove_block p g = g\<lparr>gi_blocks := pos_erase p (gi_blocks g)\<rparr>"

definition change_player_position :: "player_id \<Rightarrow> position \<Rightarrow> game_info \<Rightarrow> game_info" where
  "change_player_position i p g = g\<lparr>gi_player_positions := map_insert i p (gi_player_positions g)\<rparr>"

end
