(* ===== verification/Bytes.thy ===== *)
theory Bytes
  imports Messages
begin

text \<open>
  \<open>byte-parser.cpp\<close>: the writers that turn integers, strings, positions, bombs, lists, sets and maps
  into the bytes of the protocol. Integers are written most significant byte first.
\<close>

definition insert_vector :: "byte list \<Rightarrow> byte list \<Rightarrow> byte list" where
  "insert_vector dest src = dest @ src"

definition uint8_to_byte :: "u8 \<Rightarrow> byte" where
  "uint8_to_byte u = u"

definition uint16_to_bytes :: "u16 \<Rightarrow> byte list" where
  "uint16_to_bytes u = [ucast (drop_bit 8 u), ucast u]"

definition uint32_to_bytes :: "u32 \<Rightarrow> byte list" where
  "uint32_to_bytes u =
     [ucast (drop_bit 24 u), ucast (drop_bit 16 u), ucast (drop_bit 8 u), ucast u]"

text \<open>The length byte is the size of the string reduced to eight bits; all its bytes follow.\<close>

definition string_to_bytes :: "cstring \<Rightarrow> byte list" where
  "string_to_bytes str = uint8_to_byte (of_nat (length str)) # str"

definition player_to_bytes :: "player \<Rightarrow> byte list" where
  "player_to_bytes p = string_to_bytes (player_name p) @ string_to_bytes (player_address p)"

definition position_to_bytes :: "position \<Rightarrow> byte list" where
  "position_to_bytes p = uint16_to_bytes (pos_x p) @ uint16_to_bytes (pos_y p)"

definition bomb_to_bytes :: "bomb \<Rightarrow> byte list" where
  "bomb_to_bytes b = position_to_bytes (bomb_position b) @ uint16_to_bytes (timer b)"

text \<open>The loop of the writers of containers: a 32-bit count, then the elements in their order.\<close>

definition counted_to_bytes :: "('a \<Rightarrow> byte list) \<Rightarrow> 'a list \<Rightarrow> byte list" where
  "counted_to_bytes enc xs = uint32_to_bytes (of_nat (length xs)) @ concat (map enc xs)"

definition position_set_to_bytes :: "position_set \<Rightarrow> byte list" where
  "position_set_to_bytes ps = counted_to_bytes position_to_bytes (inorder ps)"

definition bomb_set_to_bytes :: "(bomb_id, bomb) std_map \<Rightarrow> byte list" where
  "bomb_set_to_bytes bs = counted_to_bytes (\<lambda>b. bomb_to_bytes (snd b)) bs"

definition player_map_to_bytes :: "(player_id, player) std_map \<Rightarrow> byte list" where
  "player_map_to_bytes m =
     counted_to_bytes (\<lambda>p. uint8_to_byte (fst p) # player_to_bytes (snd p)) m"

definition player_position_map_to_bytes :: "(player_id, position) std_map \<Rightarrow> byte list" where
  "player_position_map_to_bytes m =
     counted_to_bytes (\<lambda>p. uint8_to_byte (fst p) # position_to_bytes (snd p)) m"

definition score_map_to_bytes :: "(player_id, score) std_map \<Rightarrow> byte list" where
  "score_map_to_bytes m =
     counted_to_bytes (\<lambda>p. uint8_to_byte (fst p) # uint32_to_bytes (snd p)) m"

definition uint8_list_to_bytes :: "u8 list \<Rightarrow> byte list" where
  "uint8_list_to_bytes xs = counted_to_bytes (\<lambda>x. [uint8_to_byte x]) xs"

definition position_list_to_bytes :: "position list \<Rightarrow> byte list" where
  "position_list_to_bytes ps = counted_to_bytes position_to_bytes ps"

lemmas container_writers = position_set_to_bytes_def bomb_set_to_bytes_def player_map_to_bytes_def
  player_position_map_to_bytes_def score_map_to_bytes_def uint8_list_to_bytes_def
  position_list_to_bytes_def

subsection \<open>Reading integers back\<close>

text \<open>What \<open>ntohs\<close> and \<open>ntohl\<close> make of the bytes copied into an integer.\<close>

definition uint16_of_bytes :: "byte \<Rightarrow> byte \<Rightarrow> u16" where
  "uint16_of_bytes a b = push_bit 8 (ucast a) + ucast b"

definition uint32_of_bytes :: "byte \<Rightarrow> byte \<Rightarrow> byte \<Rightarrow> byte \<Rightarrow> u32" where
  "uint32_of_bytes a b c d =
     push_bit 24 (ucast a) + push_bit 16 (ucast b) + push_bit 8 (ucast c) + ucast d"

lemma uint8_to_byte_id [simp]: "uint8_to_byte u = u"
  by (simp add: uint8_to_byte_def)

text \<open>The byte at bit \<open>k\<close> of a word, put back in its place above the bits below it.\<close>

lemma low_byte: "ucast (ucast u :: byte) = (take_bit 8 (u :: 'a::len word))"
  by (rule bit_eqI) (auto simp: bit_simps)

lemma join_byte:
  "push_bit k (take_bit 8 (drop_bit k u)) + take_bit k u = take_bit (k + 8) (u :: 'a::len word)"
  using bits_ident [of k "take_bit (k + 8) u"] by (simp add: drop_bit_take_bit min_def)

lemma uint16_of_to_bytes [simp]: "uint16_of_bytes (ucast (drop_bit 8 u)) (ucast u) = u"
proof -
  have "take_bit 16 u = u" by (rule bit_eqI) (auto simp: bit_simps)
  with join_byte [of 8 u] show ?thesis unfolding uint16_of_bytes_def low_byte by simp
qed

lemma uint32_of_to_bytes [simp]:
  "uint32_of_bytes (ucast (drop_bit 24 u)) (ucast (drop_bit 16 u)) (ucast (drop_bit 8 u)) (ucast u) = u"
proof -
  have "take_bit 32 u = u" by (rule bit_eqI) (auto simp: bit_simps)
  with join_byte [of 8 u] join_byte [of 16 u] join_byte [of 24 u] show ?thesis
    unfolding uint32_of_bytes_def low_byte by (simp only: add.assoc) simp
qed

lemma length_uint_to_bytes [simp]:
  "length (uint16_to_bytes u) = 2" "length (uint32_to_bytes v) = 4"
  by (simp_all add: uint16_to_bytes_def uint32_to_bytes_def)

end
