(* ===== verification/Events.thy ===== *)
theory Events
  imports Bytes
begin

text \<open>
  \<open>event.h\<close> and \<open>event.cpp\<close>: the four kinds of events of a turn (one class each in the code, one
  constructor each here), \<open>Turn_info\<close>, and their bytes.
\<close>

datatype event =
    Bomb_placed_event bomb_id position
  | Bomb_exploded_event bomb_id "player_id list" "position list"
  | Player_moved_event player_id position
  | Block_placed_event position

fun event_get_code :: "event \<Rightarrow> event_code" where
  "event_get_code (Bomb_placed_event i p) = Bomb_placed"
| "event_get_code (Bomb_exploded_event i rs bs) = Bomb_exploded"
| "event_get_code (Player_moved_event i p) = Player_moved"
| "event_get_code (Block_placed_event p) = Block_placed"

fun event_to_bytes :: "event \<Rightarrow> byte list" where
  "event_to_bytes (Bomb_placed_event i p) =
     event_byte Bomb_placed # uint32_to_bytes i @ position_to_bytes p"
| "event_to_bytes (Bomb_exploded_event i robots_destroyed blocks_destroyed) =
     event_byte Bomb_exploded # uint32_to_bytes i @ uint8_list_to_bytes robots_destroyed
       @ position_list_to_bytes blocks_destroyed"
| "event_to_bytes (Player_moved_event i p) =
     event_byte Player_moved # uint8_to_byte i # position_to_bytes p"
| "event_to_bytes (Block_placed_event p) = event_byte Block_placed # position_to_bytes p"

datatype turn_info = Turn_info (turn: u16) (events: "event list")

definition new_turn_info :: "u16 \<Rightarrow> turn_info" where
  "new_turn_info t = Turn_info t []"

definition add_event :: "event \<Rightarrow> turn_info \<Rightarrow> turn_info" where
  "add_event ev t = Turn_info (turn t) (events t @ [ev])"

definition turn_info_to_bytes :: "turn_info \<Rightarrow> byte list" where
  "turn_info_to_bytes t =
     server_code Turn # uint16_to_bytes (turn t)
       @ uint32_to_bytes (of_nat (length (events t))) @ concat (map event_to_bytes (events t))"

lemma turn_info_simps [simp]:
  "turn (new_turn_info t) = t" "events (new_turn_info t) = []"
  "turn (add_event ev ti) = turn ti" "events (add_event ev ti) = events ti @ [ev]"
  by (simp_all add: new_turn_info_def add_event_def)

lemma turn_info_to_bytes_counted:
  "turn_info_to_bytes t =
     server_code Turn # uint16_to_bytes (turn t) @ counted_to_bytes event_to_bytes (events t)"
  by (simp add: turn_info_to_bytes_def counted_to_bytes_def)

text \<open>Every event starts with the byte of its code.\<close>

lemma hd_event_to_bytes: "hd (event_to_bytes ev) = event_byte (event_get_code ev)"
  by (cases ev) simp_all

end
