(* ===== verification/Reader.thy ===== *)
theory Reader
  imports Events
begin

text \<open>
  The client's readers of the server's stream (\<open>robots-client.cpp\<close>, \<open>read_server\<close> to
  \<open>read_position_list\<close>). A reader holds the bytes of the buffer not consumed yet and, from the
  environment, the pieces in which the stream further arrives: a call of \<open>read_some\<close> takes the next piece, or as
  much of it as the buffer holds; a call that fails, or returns nothing, ends the client. The two bytes of the array of \<open>read_uint16\<close> are uninitialised: \<open>uninit\<close> gives the values
  that such an array holds, numbered by use.
\<close>

record reader =
  cur_buf :: "byte list"
  incoming :: "byte list list"
  uninit :: "nat \<Rightarrow> byte"
  uninit_used :: nat

type_synonym 'a read_op = "reader \<Rightarrow> ('a \<times> reader) res"

definition read_then :: "'a read_op \<Rightarrow> ('a \<Rightarrow> 'b read_op) \<Rightarrow> 'b read_op" where
  "read_then m f r = and_then (m r) (\<lambda>(a, r1). f a r1)"

definition read_return :: "'a \<Rightarrow> 'a read_op" where
  "read_return a r = Inr (a, r)"

definition BUFFER_SIZE :: nat where
  "BUFFER_SIZE = 256"

definition read_server :: "reader \<Rightarrow> reader res" where
  "read_server r =
     (case incoming r of
        [] \<Rightarrow> exit_with_msg
      | chunk # chunks \<Rightarrow>
          if chunk = [] then exit_with_msg
          else Inr (r\<lparr>cur_buf := take BUFFER_SIZE chunk,
            incoming := (if length chunk \<le> BUFFER_SIZE then chunks else drop BUFFER_SIZE chunk # chunks)\<rparr>))"

definition buf_update :: "nat \<Rightarrow> reader \<Rightarrow> reader" where
  "buf_update n r = r\<lparr>cur_buf := drop n (cur_buf r)\<rparr>"

definition read_if_buf_empty :: "reader \<Rightarrow> reader res" where
  "read_if_buf_empty r = (if cur_buf r = [] then read_server r else Inr r)"

lemma read_if_buf_empty_filled: "read_if_buf_empty r = Inr r1 \<Longrightarrow> 0 < length (cur_buf r1)"
  by (auto simp: read_if_buf_empty_def read_server_def BUFFER_SIZE_def split: if_splits list.splits)

lemma read_if_buf_empty_piece:
  "cur_buf r = [] \<Longrightarrow> incoming r = chunk # chunks \<Longrightarrow> chunk \<noteq> [] \<Longrightarrow> length chunk \<le> BUFFER_SIZE \<Longrightarrow>
    read_if_buf_empty r = Inr (r\<lparr>cur_buf := chunk, incoming := chunks\<rparr>)"
  by (simp add: read_if_buf_empty_def read_server_def)

lemma read_if_buf_empty_id [simp]: "cur_buf r \<noteq> [] \<Longrightarrow> read_if_buf_empty r = Inr r"
  by (simp add: read_if_buf_empty_def)

subsection \<open>Integers\<close>

definition read_u8 :: "u8 read_op" where
  "read_u8 r = and_then (read_if_buf_empty r) (\<lambda>r1. Inr (hd (cur_buf r1), buf_update 1 r1))"

text \<open>
  The loop \<open>for (size_t i = 0; i < 2; i--)\<close> of the slow path: the counter goes down, so it wraps
  around after the first byte and the loop ends.
\<close>

lemma u64_less_2:
  fixes i :: u64
  assumes "i < 2"
  shows "i = 0 \<or> i = 1"
proof -
  from assms have "unat i = 0 \<or> unat i = 1" by (auto simp: word_less_nat_alt)
  then show ?thesis by (auto simp: word_unat_eq_iff)
qed

function read_uint16_loop :: "u64 \<Rightarrow> byte list \<Rightarrow> (byte list) read_op" where
  "read_uint16_loop i uint16_bytes r =
     (if i < 2
      then and_then (read_if_buf_empty r) (\<lambda>r1.
        read_uint16_loop (i - 1) (uint16_bytes[unat i := hd (cur_buf r1)]) (buf_update 1 r1))
      else Inr (uint16_bytes, r))"
  by pat_completeness auto
termination
  by (relation "measure (\<lambda>(i, bytes, r). if i < 2 then Suc (unat i) else 0)")
    (auto dest!: u64_less_2)

declare read_uint16_loop.simps [simp del]

definition read_u16 :: "u16 read_op" where
  "read_u16 r =
     and_then (read_if_buf_empty r) (\<lambda>r1.
       if length (cur_buf r1) \<ge> 2
       then Inr (uint16_of_bytes (cur_buf r1 ! 0) (cur_buf r1 ! 1), buf_update 2 r1)
       else and_then
         (read_uint16_loop 0 [uninit r1 (uninit_used r1), uninit r1 (uninit_used r1 + 1)]
            (r1\<lparr>uninit_used := uninit_used r1 + 2\<rparr>))
         (\<lambda>(bytes, r2). Inr (uint16_of_bytes (bytes ! 0) (bytes ! 1), r2)))"

text \<open>The slow path of \<open>read_uint32\<close> counts up, one byte at a time.\<close>

fun read_uint32_loop :: "nat \<Rightarrow> (byte list) read_op" where
  "read_uint32_loop 0 = read_return []"
| "read_uint32_loop (Suc n) = read_then read_u8 (\<lambda>b. read_then (read_uint32_loop n) (\<lambda>bs. read_return (b # bs)))"

definition read_u32 :: "u32 read_op" where
  "read_u32 r =
     and_then (read_if_buf_empty r) (\<lambda>r1.
       if length (cur_buf r1) \<ge> 4
       then Inr (uint32_of_bytes (cur_buf r1 ! 0) (cur_buf r1 ! 1) (cur_buf r1 ! 2)
               (cur_buf r1 ! 3), buf_update 4 r1)
       else read_then (read_uint32_loop 4)
         (\<lambda>b. read_return (uint32_of_bytes (b ! 0) (b ! 1) (b ! 2) (b ! 3))) r1)"

subsection \<open>Strings\<close>

text \<open>
  Each round takes \<open>str_length\<close> bytes when the buffer holds as many, whatever was read before, and the
  whole buffer otherwise.
\<close>

function read_string_loop :: "nat \<Rightarrow> nat \<Rightarrow> cstring \<Rightarrow> cstring read_op" where
  "read_string_loop str_length read_bytes str r =
     (if read_bytes < str_length
      then and_then (read_if_buf_empty r) (\<lambda>r1.
        let to_read = (if length (cur_buf r1) \<ge> str_length then str_length else length (cur_buf r1))
        in read_string_loop str_length (read_bytes + to_read) (str @ take to_read (cur_buf r1))
             (buf_update to_read r1))
      else Inr (str, r))"
  by pat_completeness auto
termination
proof (relation "measure (\<lambda>(n, k, str, r). n - k)", goal_cases)
  case (2 n k str r r1 to_read)
  then have "k < n" "0 < length (cur_buf r1)" "0 < to_read"
    by (auto dest: read_if_buf_empty_filled simp del: length_greater_0_conv split: if_splits)
  then show ?case by simp
qed simp

declare read_string_loop.simps [simp del]

definition read_str :: "cstring read_op" where
  "read_str = read_then read_u8 (\<lambda>n. read_string_loop (unat n) 0 [])"

subsection \<open>Structures and containers\<close>

definition read_player :: "player read_op" where
  "read_player =
     read_then read_str (\<lambda>name. read_then read_str (\<lambda>address. read_return (Player name address)))"

definition read_position :: "position read_op" where
  "read_position = read_then read_u16 (\<lambda>x. read_then read_u16 (\<lambda>y. read_return (Position x y)))"

text \<open>A counted loop that folds what it reads into an accumulator.\<close>

fun read_times :: "nat \<Rightarrow> 'a read_op \<Rightarrow> ('a \<Rightarrow> 'b \<Rightarrow> 'b) \<Rightarrow> 'b \<Rightarrow> 'b read_op" where
  "read_times 0 m f acc = read_return acc"
| "read_times (Suc n) m f acc = read_then m (\<lambda>a. read_times n m f (f a acc))"

definition read_counted :: "'a read_op \<Rightarrow> ('a \<Rightarrow> 'b \<Rightarrow> 'b) \<Rightarrow> 'b \<Rightarrow> 'b read_op" where
  "read_counted m f acc = read_then read_u32 (\<lambda>n. read_times (unat n) m f acc)"

definition read_entry :: "'v read_op \<Rightarrow> (u8 \<times> 'v) read_op" where
  "read_entry m = read_then read_u8 (\<lambda>k. read_then m (\<lambda>v. read_return (k, v)))"

definition insert_entry :: "'k::linorder \<times> 'v \<Rightarrow> ('k, 'v) std_map \<Rightarrow> ('k, 'v) std_map" where
  "insert_entry kv m = map_insert (fst kv) (snd kv) m"

definition read_players_map :: "(player_id, player) std_map read_op" where
  "read_players_map = read_counted (read_entry read_player) insert_entry []"

definition read_scores_map :: "(player_id, score) std_map read_op" where
  "read_scores_map = read_counted (read_entry read_u32) insert_entry []"

definition read_player_id_list :: "player_id rb read_op" where
  "read_player_id_list = read_counted read_u8 (set_insert (<)) Leaf"

definition read_position_list :: "position_set read_op" where
  "read_position_list = read_counted read_position pos_insert Leaf"

subsection \<open>Reading what was written\<close>

text \<open>The reader takes exactly these bytes from the front of the buffer, and returns this value.\<close>

definition reads :: "'a read_op \<Rightarrow> byte list \<Rightarrow> 'a \<Rightarrow> bool" where
  "reads m bytes v \<longleftrightarrow>
     (\<forall>r rest. cur_buf r = bytes @ rest \<longrightarrow> m r = Inr (v, r\<lparr>cur_buf := rest\<rparr>))"

lemma reads_return: "reads (read_return v) [] v"
  by (auto simp: reads_def read_return_def)

lemma reads_then: "reads m xs a \<Longrightarrow> reads (f a) ys v \<Longrightarrow> reads (read_then m f) (xs @ ys) v"
  by (simp add: reads_def read_then_def)

lemma reads_then_return: "reads m xs a \<Longrightarrow> reads (read_then m (\<lambda>a. read_return (g a))) xs (g a)"
  using reads_then [of m xs a "\<lambda>a. read_return (g a)" "[]"] reads_return by fastforce

lemma readsD: "reads m bytes v \<Longrightarrow> cur_buf r = bytes @ rest \<Longrightarrow> m r = Inr (v, r\<lparr>cur_buf := rest\<rparr>)"
  by (simp add: reads_def)

lemma reads_u8: "reads read_u8 [uint8_to_byte b] b"
  by (simp add: reads_def read_u8_def buf_update_def)

lemma reads_u16: "reads read_u16 (uint16_to_bytes u) u"
  by (simp add: reads_def read_u16_def uint16_to_bytes_def buf_update_def)

lemma reads_u32: "reads read_u32 (uint32_to_bytes u) u"
  by (simp add: reads_def read_u32_def uint32_to_bytes_def buf_update_def)

lemma reads_str:
  assumes "length str < 256"
  shows "reads read_str (string_to_bytes str) str"
proof -
  have len: "unat (of_nat (length str) :: u8) = length str" using assms by (simp add: unat_of_nat_small)
  have "reads (read_string_loop (length str) 0 []) str str"
    unfolding reads_def
  proof (intro allI impI)
    fix r :: reader and rest assume "cur_buf r = str @ rest"
    then show "read_string_loop (length str) 0 [] r = Inr (str, r\<lparr>cur_buf := rest\<rparr>)"
      by (cases "str = []")
        (auto simp: read_string_loop.simps [of _ 0] read_string_loop.simps [of n n for n] buf_update_def Let_def)
  qed
  with reads_then [OF reads_u8, of "\<lambda>n. read_string_loop (unat n) 0 []" "of_nat (length str)" str str] len
  show ?thesis by (simp add: read_str_def string_to_bytes_def)
qed

subsection \<open>Codecs\<close>

text \<open>
  The contract of a writer and its reader: on the valid values, the reader returns what was written and
  leaves what follows. A counted container of such values is read back entry by entry.
\<close>

locale codec =
  fixes dec :: "'a read_op"
    and enc :: "'a \<Rightarrow> byte list"
    and valid :: "'a \<Rightarrow> bool"
  assumes decodes: "valid a \<Longrightarrow> reads dec (enc a) a"
begin

lemma reads_times:
  "list_all valid xs \<Longrightarrow> reads (read_times (length xs) dec f acc) (concat (map enc xs)) (fold f xs acc)"
  by (induction xs arbitrary: acc) (auto intro: reads_then decodes reads_return)

lemma reads_counted:
  assumes "list_all valid xs" and "length xs < 4294967296"
  shows "reads (read_counted dec f acc) (counted_to_bytes enc xs) (fold f xs acc)"
proof -
  have "unat (of_nat (length xs) :: u32) = length xs" using assms(2) by (rule unat_of_nat_small)
  with reads_times [OF assms(1), of f acc] show ?thesis
    unfolding read_counted_def counted_to_bytes_def
    by (intro reads_then [OF reads_u32]) simp
qed

lemma decodes_entry: "valid v \<Longrightarrow> reads (read_entry dec) (uint8_to_byte k # enc v) (k, v)"
  unfolding read_entry_def
  by (rule reads_then [where a = k and xs = "[uint8_to_byte k]", unfolded append_Cons append_Nil, OF reads_u8])
    (rule reads_then_return, rule decodes)

end

definition always :: "'a \<Rightarrow> bool" where
  "always a = True"

definition str_ok :: "cstring \<Rightarrow> bool" where
  "str_ok str \<longleftrightarrow> length str < 256"

definition player_ok :: "player \<Rightarrow> bool" where
  "player_ok p \<longleftrightarrow> str_ok (player_name p) \<and> str_ok (player_address p)"

lemma reads_player: "player_ok p \<Longrightarrow> reads read_player (player_to_bytes p) p"
proof -
  assume "player_ok p"
  then have "reads read_player (player_to_bytes p) (Player (player_name p) (player_address p))"
    unfolding player_ok_def str_ok_def read_player_def player_to_bytes_def
    by (intro reads_then [where a = "player_name p"] reads_then_return [where a = "player_address p"] reads_str)
      simp_all
  then show ?thesis by simp
qed

lemma reads_position: "reads read_position (position_to_bytes p) p"
proof -
  have "reads read_position (position_to_bytes p) (Position (pos_x p) (pos_y p))"
    unfolding read_position_def position_to_bytes_def 
    by (rule reads_then [where a = "pos_x p", OF reads_u16]) (rule reads_then_return, rule reads_u16)
  then show ?thesis by simp
qed

interpretation u8_codec: codec read_u8 "\<lambda>u. [uint8_to_byte u]" always
  by unfold_locales (rule reads_u8)

interpretation u16_codec: codec read_u16 uint16_to_bytes always
  by unfold_locales (rule reads_u16)

interpretation u32_codec: codec read_u32 uint32_to_bytes always
  by unfold_locales (rule reads_u32)

interpretation str_codec: codec read_str string_to_bytes str_ok
  by unfold_locales (simp add: str_ok_def reads_str)

interpretation player_codec: codec read_player player_to_bytes player_ok
  by unfold_locales (rule reads_player)

interpretation position_codec: codec read_position position_to_bytes always
  by unfold_locales (rule reads_position)

text \<open>The entries of the maps: a key byte, then the value.\<close>

definition value_ok :: "('v \<Rightarrow> bool) \<Rightarrow> 'k \<times> 'v \<Rightarrow> bool" where
  "value_ok ok kv = ok (snd kv)"

interpretation player_entry: codec "read_entry read_player"
    "\<lambda>p. uint8_to_byte (fst p) # player_to_bytes (snd p)" "value_ok player_ok"
  by unfold_locales (use player_codec.decodes_entry in \<open>force simp: value_ok_def\<close>)

interpretation score_entry: codec "read_entry read_u32"
    "\<lambda>p. uint8_to_byte (fst p) # uint32_to_bytes (snd p)" "value_ok always"
  by unfold_locales (use u32_codec.decodes_entry in \<open>force simp: value_ok_def always_def\<close>)

subsection \<open>Containers read back\<close>

text \<open>Inserting the entries of a map in key order rebuilds it.\<close>

lemma map_assign_last: "\<forall>k' \<in> keys m. k' < k \<Longrightarrow> map_assign k v m = m @ [(k, v)]"
  by (induction k v m rule: map_assign.induct) auto

lemma fold_insert_entry:
  "map_ok (acc @ m) \<Longrightarrow> fold insert_entry m acc = acc @ m"
proof (induction m arbitrary: acc)
  case (Cons kv m)
  obtain k v where kv: "kv = (k, v)" by (cases kv)
  with Cons.prems have below: "\<forall>k' \<in> keys acc. k' < k"
    by (auto simp: map_ok_def sorted_wrt_append keys_def)
  then have "k \<notin> keys acc" by auto
  with below kv have "insert_entry kv acc = acc @ [kv]"
    by (simp add: insert_entry_def map_insert_def map_of_None_iff map_assign_last)
  with Cons show ?case by simp
qed simp

lemma reads_players_map:
  assumes "map_ok m" and "list_all (value_ok player_ok) m" and "length m < 4294967296"
  shows "reads read_players_map (player_map_to_bytes m) m"
  using player_entry.reads_counted [OF assms(2,3), of insert_entry "[]"] fold_insert_entry [of "[]" m] assms(1)
  by (simp add: read_players_map_def player_map_to_bytes_def)

lemma reads_scores_map:
  assumes "map_ok m" and "length m < 4294967296"
  shows "reads read_scores_map (score_map_to_bytes m) m"
proof -
  have "list_all (value_ok always) m" by (simp add: list_all_iff value_ok_def always_def)
  from score_entry.reads_counted [OF this assms(2), of insert_entry "[]"] fold_insert_entry [of "[]" m] assms(1)
  show ?thesis by (simp add: read_scores_map_def score_map_to_bytes_def)
qed

lemma list_all_always [simp]: "list_all always xs"
  by (simp add: list_all_iff always_def)

lemma reads_player_id_list:
  assumes "length xs < 4294967296"
  shows "reads read_player_id_list (uint8_list_to_bytes xs) (fold (set_insert (<)) xs Leaf)"
  using u8_codec.reads_counted [OF list_all_always assms, of "set_insert (<)" Leaf]
  by (simp add: read_player_id_list_def uint8_list_to_bytes_def)

lemma reads_position_list:
  assumes "length ps < 4294967296"
  shows "reads read_position_list (position_list_to_bytes ps) (fold pos_insert ps Leaf)"
  using position_codec.reads_counted [OF list_all_always assms, of pos_insert Leaf]
  by (simp add: read_position_list_def position_list_to_bytes_def)

subsection \<open>Split messages\<close>

text \<open>
  TCP cuts the stream where it likes: what the server has sent and the client has not consumed is the
  buffer followed by what the next reads return. \<open>read_uint8\<close> and \<open>read_uint32\<close> depend on that stream
  only; \<open>read_uint16\<close> and \<open>read_string\<close> do not.
\<close>

definition stream :: "reader \<Rightarrow> byte list" where
  "stream r = cur_buf r @ concat (incoming r)"

definition live :: "reader \<Rightarrow> bool" where
  "live r \<longleftrightarrow> list_all (\<lambda>chunk. chunk \<noteq> []) (incoming r)"

definition reads_stream :: "'a read_op \<Rightarrow> byte list \<Rightarrow> 'a \<Rightarrow> bool" where
  "reads_stream m bytes v \<longleftrightarrow>
     (\<forall>r rest. live r \<and> stream r = bytes @ rest \<longrightarrow>
        (\<exists>r'. m r = Inr (v, r') \<and> live r' \<and> stream r' = rest))"

lemma read_if_buf_empty_stream:
  assumes "live r" and "stream r \<noteq> []"
  shows "\<exists>r1. read_if_buf_empty r = Inr r1 \<and> live r1 \<and> stream r1 = stream r \<and> cur_buf r1 \<noteq> []"
  using assms
  by (cases "cur_buf r"; cases "incoming r")
    (auto simp: read_if_buf_empty_def read_server_def live_def stream_def BUFFER_SIZE_def)

lemma reads_stream_return: "reads_stream (read_return v) [] v"
  by (auto simp: reads_stream_def read_return_def)

lemma reads_stream_then:
  assumes "reads_stream m xs a" and "reads_stream (f a) ys v"
  shows "reads_stream (read_then m f) (xs @ ys) v"
  unfolding reads_stream_def
proof (intro allI impI)
  fix r rest assume "live r \<and> stream r = (xs @ ys) @ rest"
  with assms(1) obtain r1 where r1: "m r = Inr (a, r1)" "live r1" "stream r1 = ys @ rest"
    by (auto simp: reads_stream_def)
  with assms(2) obtain r2 where "f a r1 = Inr (v, r2)" "live r2" "stream r2 = rest"
    by (auto simp: reads_stream_def)
  with r1 show "\<exists>r'. read_then m f r = Inr (v, r') \<and> live r' \<and> stream r' = rest"
    by (simp add: read_then_def)
qed

lemma reads_stream_u8: "reads_stream read_u8 [b] b"
  unfolding reads_stream_def
proof (intro allI impI)
  fix r rest assume r: "live r \<and> stream r = [b] @ rest"
  with read_if_buf_empty_stream [of r] obtain r1 where r1: "read_if_buf_empty r = Inr r1" "live r1"
      "stream r1 = b # rest" "cur_buf r1 \<noteq> []"
    by auto
  then have "hd (cur_buf r1) = b" "stream (buf_update 1 r1) = rest" "live (buf_update 1 r1)"
    by (cases "cur_buf r1"; simp add: stream_def buf_update_def live_def)+
  with r1(1) show "\<exists>r'. read_u8 r = Inr (b, r') \<and> live r' \<and> stream r' = rest"
    by (simp add: read_u8_def)
qed

lemma reads_stream_uint32_loop: "reads_stream (read_uint32_loop (length bs)) bs bs"
proof (induction bs)
  case (Cons b bs)
  have "reads_stream (read_then (read_uint32_loop (length bs)) (\<lambda>bs. read_return (b # bs))) (bs @ []) (b # bs)"
    by (rule reads_stream_then [OF Cons.IH reads_stream_return])
  with reads_stream_then [OF reads_stream_u8, of
      "\<lambda>b. read_then (read_uint32_loop (length bs)) (\<lambda>bs. read_return (b # bs))" b bs "b # bs"]
  show ?case by simp
qed (simp add: reads_stream_return)

lemma reads_stream_u32: "reads_stream read_u32 (uint32_to_bytes u) u"
  unfolding reads_stream_def
proof (intro allI impI)
  fix r rest assume r: "live r \<and> stream r = uint32_to_bytes u @ rest"
  with read_if_buf_empty_stream [of r] obtain r1 where r1: "read_if_buf_empty r = Inr r1" "live r1"
      "stream r1 = uint32_to_bytes u @ rest"
    by (auto simp: uint32_to_bytes_def)
  show "\<exists>r'. read_u32 r = Inr (u, r') \<and> live r' \<and> stream r' = rest"
  proof (cases "4 \<le> length (cur_buf r1)")
    case True
    then obtain a b c d bs where "cur_buf r1 = a # b # c # d # bs"
      by (auto simp: numeral_eq_Suc Suc_le_length_iff)
    with r1 show ?thesis
      by (simp add: read_u32_def buf_update_def stream_def live_def uint32_to_bytes_def)
  next
    case False
    have "reads_stream (read_then (read_uint32_loop 4)
        (\<lambda>b. read_return (uint32_of_bytes (b ! 0) (b ! 1) (b ! 2) (b ! 3)))) (uint32_to_bytes u @ []) u"
      using reads_stream_uint32_loop [of "uint32_to_bytes u"] reads_stream_return [of u]
      by (intro reads_stream_then [where a = "uint32_to_bytes u"])
        (simp_all add: uint32_to_bytes_def del: read_uint32_loop.simps, simp add: eval_nat_numeral)
    with r1 False show ?thesis by (simp add: read_u32_def reads_stream_def)
  qed
qed

text \<open>A 16-bit number whose bytes lie in two reads: the second byte is not read.\<close>

lemma read_u16_split:
  assumes "cur_buf r = [a]"
  shows "read_u16 r =
    Inr (uint16_of_bytes a (uninit r (uninit_used r + 1)),
         r\<lparr>cur_buf := [], uninit_used := uninit_used r + 2\<rparr>)"
proof -
  have "(0 :: u64) < 2" "\<not> (- 1 :: u64) < 2" by simp_all
  with assms show ?thesis
    by (simp add: read_u16_def read_uint16_loop.simps [of 0] read_uint16_loop.simps [of "- 1"] buf_update_def)
qed

text \<open>A string cut after its first \<open>length xs\<close> bytes, when the next read brings more than its length.\<close>

lemma read_str_split:
  assumes "cur_buf r = n # xs" and "xs \<noteq> []" and "length xs < unat n"
    and "incoming r = chunk # chunks" and "unat n \<le> length chunk" and "length chunk \<le> BUFFER_SIZE"
  shows "read_str r =
    Inr (xs @ take (unat n) chunk, r\<lparr>cur_buf := drop (unat n) chunk, incoming := chunks\<rparr>)"
proof -
  have "chunk \<noteq> []" using assms(3,5) by auto
  let ?r1 = "r\<lparr>cur_buf := xs\<rparr>"
  have "read_str r = read_string_loop (unat n) 0 [] ?r1"
    using assms(1) by (simp add: read_str_def read_then_def read_u8_def buf_update_def)
  also have "\<dots> = read_string_loop (unat n) (length xs) xs (r\<lparr>cur_buf := []\<rparr>)"
    using assms(2,3) by (simp add: read_string_loop.simps [of _ 0] buf_update_def)
  also have "\<dots> = Inr (xs @ take (unat n) chunk, r\<lparr>cur_buf := drop (unat n) chunk, incoming := chunks\<rparr>)"
    using assms(3-6) \<open>chunk \<noteq> []\<close>
    by (simp add: read_string_loop.simps [of _ "length xs"] read_string_loop.simps [of "unat n" "length xs + unat n"]
        Let_def read_if_buf_empty_def read_server_def buf_update_def)
  finally show ?thesis .
qed

end
