(* ===== verification/Params.thy ===== *)
theory Params
  imports Prelude
begin

text \<open>
  \<open>server-parser.cpp\<close>, and the part of \<open>client-parser.cpp\<close> that is not a call of a library. The
  command-line parser of Boost is outside the repository: it is the argument \<open>parse_options\<close>,
  which gives the values of the options that are present, or fails (its exceptions). What a field holds
  when its option is absent is indeterminate (the struct is not initialised): argument \<open>indet\<close>.
\<close>

record server_parameters =
  bomb_timer :: u16
  players_count :: u8
  turn_duration :: u64
  explosion_radius :: u16
  initial_blocks :: u16
  game_length :: u16
  server_name :: cstring
  port :: u16
  seed :: u32
  size_x :: u16
  size_y :: u16

record server_options =
  opt_bomb_timer :: "u16 option"
  opt_players_count :: "u16 option"
  opt_turn_duration :: "u64 option"
  opt_explosion_radius :: "u16 option"
  opt_help :: bool
  opt_initial_blocks :: "u16 option"
  opt_game_length :: "u16 option"
  opt_server_name :: "cstring option"
  opt_port :: "u16 option"
  opt_seed :: "u32 option"
  opt_size_x :: "u16 option"
  opt_size_y :: "u16 option"

definition stored :: "'a option \<Rightarrow> 'a \<Rightarrow> 'a" where
  "stored opt old = (case opt of None \<Rightarrow> old | Some v \<Rightarrow> v)"

definition parse_parameters ::
    "('argv \<Rightarrow> server_options option) \<Rightarrow> u32 \<Rightarrow> server_parameters \<Rightarrow> u16 \<Rightarrow> 'argv \<Rightarrow>
     server_parameters res" where
  "parse_parameters parse_options clock indet indet_count argv =
     (case parse_options argv of
        None \<Rightarrow> exit_with_msg
      | Some vm \<Rightarrow>
          if opt_help vm then Inl Exit_success
          else let players_count_u16 = stored (opt_players_count vm) indet_count in
            if players_count_u16 < 1 then exit_with_msg
            else Inr \<lparr>bomb_timer = stored (opt_bomb_timer vm) (bomb_timer indet),
              players_count = ucast players_count_u16,
              turn_duration = stored (opt_turn_duration vm) (turn_duration indet),
              explosion_radius = stored (opt_explosion_radius vm) (explosion_radius indet),
              initial_blocks = stored (opt_initial_blocks vm) (initial_blocks indet),
              game_length = stored (opt_game_length vm) (game_length indet),
              server_name = stored (opt_server_name vm) (server_name indet),
              port = stored (opt_port vm) (port indet),
              seed = stored (opt_seed vm) clock,
              size_x = stored (opt_size_x vm) (size_x indet),
              size_y = stored (opt_size_y vm) (size_y indet)\<rparr>)"

text \<open>
  The client's \<open>find_split_position\<close>: the loop keeps the index of the last colon seen;
  \<open>None\<close> stands for \<open>std::string::npos\<close>.
\<close>

definition colon :: byte where
  "colon = 58"

fun find_split_loop :: "nat \<Rightarrow> nat option \<Rightarrow> cstring \<Rightarrow> nat option" where
  "find_split_loop i position [] = position"
| "find_split_loop i position (c # cs) =
     find_split_loop (Suc i) (if c = colon then Some i else position) cs"

definition find_split_position :: "cstring \<Rightarrow> nat option" where
  "find_split_position str = find_split_loop 0 None str"

text \<open>
  \<open>parse_address_tcp\<close> and \<open>parse_address_udp\<close>: the part before the last colon is the host, the part
  after it the port, which must be a number of sixteen bits. The number parser and the resolver are
  Boost's: arguments. \<open>None\<close> is an exception of the resolver, which \<open>parse_parameters\<close> catches.
\<close>

definition parse_address_udp ::
    "(cstring \<Rightarrow> u16 option) \<Rightarrow> (cstring \<Rightarrow> cstring \<Rightarrow> 'endpoint option) \<Rightarrow> cstring \<Rightarrow> 'endpoint res" where
  "parse_address_udp lexical_cast resolve endpoint_str =
     (case find_split_position endpoint_str of
        None \<Rightarrow> exit_with_msg
      | Some position \<Rightarrow>
          (case lexical_cast (drop (position + 1) endpoint_str) of
             None \<Rightarrow> exit_with_msg
           | Some _ \<Rightarrow>
               (case resolve (take position endpoint_str) (drop (position + 1) endpoint_str) of
                  None \<Rightarrow> exit_with_msg
                | Some endpoint \<Rightarrow> Inr endpoint)))"

text \<open>The resolver reports errors through a variable that is not looked at: it gives a result in any case.\<close>

definition parse_address_tcp ::
    "(cstring \<Rightarrow> u16 option) \<Rightarrow> (cstring \<Rightarrow> cstring \<Rightarrow> 'endpoint) \<Rightarrow> cstring \<Rightarrow> 'endpoint res" where
  "parse_address_tcp lexical_cast resolve endpoint_str =
     (case find_split_position endpoint_str of
        None \<Rightarrow> exit_with_msg
      | Some position \<Rightarrow>
          (case lexical_cast (drop (position + 1) endpoint_str) of
             None \<Rightarrow> exit_with_msg
           | Some _ \<Rightarrow> Inr (resolve (take position endpoint_str) (drop (position + 1) endpoint_str))))"

record ('udp, 'tcp) client_parameters =
  cp_gui_address :: 'udp
  cp_name :: cstring
  cp_port :: u16
  cp_server_address :: 'tcp

record client_options =
  opt_gui_address :: "cstring option"
  opt_client_help :: bool
  opt_player_name :: "cstring option"
  opt_client_port :: "u16 option"
  opt_server_address :: "cstring option"

text \<open>
  The client's parameters. An absent address makes \<open>as\<close> throw, which ends the program like any other
  exception; an absent name is the empty string, an absent port is indeterminate.
\<close>

definition parse_client_parameters ::
    "('argv \<Rightarrow> client_options option) \<Rightarrow> (cstring \<Rightarrow> u16 option) \<Rightarrow>
     (cstring \<Rightarrow> cstring \<Rightarrow> 'udp option) \<Rightarrow> (cstring \<Rightarrow> cstring \<Rightarrow> 'tcp) \<Rightarrow> u16 \<Rightarrow> 'argv \<Rightarrow>
     ('udp, 'tcp) client_parameters res" where
  "parse_client_parameters parse_options lexical_cast resolve_udp resolve_tcp indet_port argv =
     (case parse_options argv of
        None \<Rightarrow> exit_with_msg
      | Some vm \<Rightarrow>
          if opt_client_help vm then Inl Exit_success
          else
            and_then (case opt_gui_address vm of None \<Rightarrow> exit_with_msg
                | Some str \<Rightarrow> parse_address_udp lexical_cast resolve_udp str) (\<lambda>gui.
            and_then (case opt_server_address vm of None \<Rightarrow> exit_with_msg
                | Some str \<Rightarrow> parse_address_tcp lexical_cast resolve_tcp str) (\<lambda>server.
              Inr \<lparr>cp_gui_address = gui, cp_name = stored (opt_player_name vm) [],
                cp_port = stored (opt_client_port vm) indet_port, cp_server_address = server\<rparr>)))"

lemma find_split_loop_none: "colon \<notin> set cs \<Longrightarrow> find_split_loop i p cs = p"
  by (induction cs arbitrary: i p) auto

lemma find_split_loop_last:
  "colon \<notin> set port_part \<Longrightarrow>
     find_split_loop i p (host @ colon # port_part) = Some (i + length host)"
  by (induction host arbitrary: i p) (auto simp: find_split_loop_none)

end
