(* ===== verification/Client.thy ===== *)
theory Client
  imports Reader Params
begin

text \<open>
  \<open>robots-client.cpp\<close> from \<open>read_bomb_placed\<close> on: the client's state, the handlers of the server's
  messages, the messages to the GUI, and the handler of the GUI's datagrams. What the process sends is
  recorded in \<open>to_gui\<close> and \<open>to_server\<close>; a \<open>send_to\<close> or a \<open>write\<close> that fails ends the client, and whether
  the next one fails is an argument of the step. Console output is left out.
\<close>

record client =
  rd :: reader
  is_lobby_status :: bool
  game :: game_info
  lobby :: lobby_info
  known_scores :: "(player_id, score) std_map"
  param_name :: cstring
  buf_udp :: "byte list"
  buf_udp_pos :: nat
  buf_udp_length :: u64
  to_gui :: "byte list list"
  to_server :: "byte list list"

text \<open>The globals before \<open>main\<close> runs: zeroed memory, empty containers.\<close>

definition new_client :: "cstring \<Rightarrow> byte list list \<Rightarrow> (nat \<Rightarrow> byte) \<Rightarrow> client" where
  "new_client name chunks indet_bytes =
     \<lparr>rd = \<lparr>cur_buf = [], incoming = chunks, uninit = indet_bytes, uninit_used = 0\<rparr>,
      is_lobby_status = False,
      game = \<lparr>gi_server_name = [], gi_size_x = 0, gi_size_y = 0, gi_game_length = 0, gi_bomb_timer = 0,
        gi_turn = 0, gi_players = [], gi_player_positions = [], gi_blocks = Leaf, gi_bombs = [],
        gi_explosions = Leaf, gi_scores = []\<rparr>,
      lobby = new_lobby_info [] 0 0 0 0 0 0, known_scores = [], param_name = name,
      buf_udp = replicate 256 0, buf_udp_pos = 0, buf_udp_length = 0, to_gui = [], to_server = []\<rparr>"

text \<open>A read from the server, with the rest of the handler after it.\<close>

definition receive :: "'a read_op \<Rightarrow> ('a \<Rightarrow> client \<Rightarrow> client res) \<Rightarrow> client \<Rightarrow> client res" where
  "receive m k c = and_then (m (rd c)) (\<lambda>(a, r). k a (c\<lparr>rd := r\<rparr>))"

definition set_game :: "(game_info \<Rightarrow> game_info) \<Rightarrow> client \<Rightarrow> client" where
  "set_game f c = c\<lparr>game := f (game c)\<rparr>"

subsection \<open>Events\<close>

definition read_bomb_placed :: "client \<Rightarrow> client res" where
  "read_bomb_placed =
     receive read_u32 (\<lambda>i. receive read_position (\<lambda>pos c. Inr (set_game (add_bomb i pos) c)))"

definition destroy_robot :: "player_id \<Rightarrow> client \<Rightarrow> client res" where
  "destroy_robot robot c = and_then (destroy_player robot (game c)) (\<lambda>g. Inr (c\<lparr>game := g\<rparr>))"

definition read_bomb_exploded :: "client \<Rightarrow> client res" where
  "read_bomb_exploded =
     receive read_u32 (\<lambda>i c.
       receive read_player_id_list (\<lambda>robots c.
         and_then (for_each destroy_robot (inorder robots) c)
           (receive read_position_list (\<lambda>blocks c. Inr (set_game (fold remove_block (inorder blocks)) c))))
         (set_game (remove_bomb i) c))"

definition read_player_moved :: "client \<Rightarrow> client res" where
  "read_player_moved =
     receive read_u8 (\<lambda>i. receive read_position (\<lambda>pos c. Inr (set_game (change_player_position i pos) c)))"

definition read_block_placed :: "client \<Rightarrow> client res" where
  "read_block_placed = receive read_position (\<lambda>pos c. Inr (set_game (add_block pos) c))"

definition read_event :: "client \<Rightarrow> client res" where
  "read_event =
     receive read_u8 (\<lambda>code. case event_code_of_byte code of
         Some Bomb_placed \<Rightarrow> read_bomb_placed
       | Some Bomb_exploded \<Rightarrow> read_bomb_exploded
       | Some Player_moved \<Rightarrow> read_player_moved
       | Some Block_placed \<Rightarrow> read_block_placed
       | None \<Rightarrow> (\<lambda>c. exit_with_msg))"

definition read_event_list :: "client \<Rightarrow> client res" where
  "read_event_list = receive read_u32 (\<lambda>n. for_each (\<lambda>i. read_event) [0..<unat n])"

subsection \<open>Server messages\<close>

definition read_hello :: "client \<Rightarrow> client res" where
  "read_hello =
     receive read_str (\<lambda>server_name. receive read_u8 (\<lambda>players_count.
     receive read_u16 (\<lambda>size_x. receive read_u16 (\<lambda>size_y. receive read_u16 (\<lambda>game_length.
     receive read_u16 (\<lambda>explosion_radius. receive read_u16 (\<lambda>bomb_timer c.
       Inr (c\<lparr>lobby := new_lobby_info server_name players_count size_x size_y game_length
         explosion_radius bomb_timer\<rparr>))))))))"

definition read_accepted_player :: "client \<Rightarrow> client res" where
  "read_accepted_player =
     receive read_u8 (\<lambda>i. receive read_str (\<lambda>name. receive read_str (\<lambda>address c.
       Inr (c\<lparr>lobby := add_player i (Player name address) (lobby c)\<rparr>))))"

text \<open>The players of the new game are those of the lobby; the map in the message is read and dropped.\<close>

definition read_game_started :: "u16 \<Rightarrow> client \<Rightarrow> client res" where
  "read_game_started indet_turn c =
     and_then (new_game_info indet_turn (li_server_name (lobby c)) (li_size_x (lobby c))
         (li_size_y (lobby c)) (li_game_length (lobby c)) (li_players (lobby c))
         (li_bomb_timer (lobby c)) (known_scores c)) (\<lambda>g.
       receive read_players_map (\<lambda>players c. Inr c) (c\<lparr>game := g\<rparr>))"

definition read_turn :: "client \<Rightarrow> client res" where
  "read_turn = receive read_u16 (\<lambda>t c. read_event_list (set_game (new_turn t) c))"

definition read_game_ended :: "client \<Rightarrow> client res" where
  "read_game_ended = receive read_scores_map (\<lambda>scores c. Inr c)"

subsection \<open>Messages to the GUI\<close>

definition lobby_message :: "lobby_info \<Rightarrow> byte list" where
  "lobby_message l =
     draw_code Lobby # string_to_bytes (li_server_name l) @ uint8_to_byte (li_players_count l)
       # uint16_to_bytes (li_size_x l) @ uint16_to_bytes (li_size_y l)
       @ uint16_to_bytes (li_game_length l) @ uint16_to_bytes (li_explosion_radius l)
       @ uint16_to_bytes (li_bomb_timer l) @ player_map_to_bytes (li_players l)"

definition game_message :: "game_info \<Rightarrow> byte list" where
  "game_message g =
     draw_code Game # string_to_bytes (gi_server_name g)
       @ uint16_to_bytes (gi_size_x g) @ uint16_to_bytes (gi_size_y g)
       @ uint16_to_bytes (gi_game_length g) @ uint16_to_bytes (gi_turn g)
       @ player_map_to_bytes (gi_players g) @ player_position_map_to_bytes (gi_player_positions g)
       @ position_set_to_bytes (gi_blocks g) @ bomb_set_to_bytes (gi_bombs g)
       @ position_set_to_bytes (gi_explosions g) @ score_map_to_bytes (gi_scores g)"

definition send_gui_message :: "bool \<Rightarrow> byte list \<Rightarrow> client \<Rightarrow> client res" where
  "send_gui_message sent msg c =
     (if sent then Inr (c\<lparr>to_gui := to_gui c @ [msg]\<rparr>) else exit_with_msg)"

subsection \<open>Handlers of the server's messages\<close>

definition handle_hello_msg :: "bool \<Rightarrow> client \<Rightarrow> client res" where
  "handle_hello_msg sent c =
     and_then (read_hello c) (\<lambda>c.
     and_then (send_gui_message sent (lobby_message (lobby c)) c) (\<lambda>c.
       Inr (c\<lparr>is_lobby_status := True\<rparr>)))"

definition handle_accepted_player_msg :: "bool \<Rightarrow> client \<Rightarrow> client res" where
  "handle_accepted_player_msg sent c =
     and_then (read_accepted_player c) (\<lambda>c. send_gui_message sent (lobby_message (lobby c)) c)"

definition handle_game_started_msg :: "u16 \<Rightarrow> client \<Rightarrow> client res" where
  "handle_game_started_msg indet_turn c =
     and_then (read_game_started indet_turn c) (\<lambda>c. Inr (c\<lparr>is_lobby_status := False\<rparr>))"

definition handle_turn_message :: "bool \<Rightarrow> client \<Rightarrow> client res" where
  "handle_turn_message sent c =
     and_then (read_turn c) (\<lambda>c. send_gui_message sent (game_message (game c)) c)"

definition handle_game_ended_msg :: "bool \<Rightarrow> client \<Rightarrow> client res" where
  "handle_game_ended_msg sent c =
     and_then (read_game_ended c) (\<lambda>c.
       let c = c\<lparr>lobby := clear_players (lobby c), is_lobby_status := True\<rparr>
       in send_gui_message sent (lobby_message (lobby c)) c)"

definition handle_server_message :: "u16 \<Rightarrow> bool \<Rightarrow> client \<Rightarrow> client res" where
  "handle_server_message indet_turn sent =
     receive read_u8 (\<lambda>msg_code. case server_code_of_byte msg_code of
         Some Hello \<Rightarrow> handle_hello_msg sent
       | Some AcceptedPlayer \<Rightarrow> handle_accepted_player_msg sent
       | Some GameStarted \<Rightarrow> handle_game_started_msg indet_turn
       | Some Turn \<Rightarrow> handle_turn_message sent
       | Some GameEnded \<Rightarrow> handle_game_ended_msg sent
       | None \<Rightarrow> (\<lambda>c. exit_with_msg))"

subsection \<open>The GUI's datagrams\<close>

definition join_message :: "cstring \<Rightarrow> byte list" where
  "join_message name = client_code Join # string_to_bytes name"

definition place_bomb_message :: "byte list" where
  "place_bomb_message = [client_code Place_bomb_client]"

definition place_block_message :: "byte list" where
  "place_block_message = [client_code Place_block_client]"

definition move_message :: "direction \<Rightarrow> byte list" where
  "move_message d = [client_code Move_client, uint8_to_byte (direction_code d)]"

definition send_server_message :: "bool \<Rightarrow> byte list \<Rightarrow> client \<Rightarrow> client res" where
  "send_server_message written msg c =
     (if written then Inr (c\<lparr>to_server := to_server c @ [msg]\<rparr>) else exit_with_msg)"

text \<open>
  \<open>receive\<close> stores the datagram at the start of the 256-byte buffer and leaves the rest as it was; the
  length left is counted, in \<open>size_t\<close>, but not looked at.
\<close>

definition receive_udp :: "byte list \<Rightarrow> client \<Rightarrow> client" where
  "receive_udp datagram c =
     (let got = take 256 datagram
      in c\<lparr>buf_udp := got @ drop (length got) (buf_udp c), buf_udp_pos := 0,
           buf_udp_length := of_nat (length got)\<rparr>)"

definition read_uint8_udp :: "client \<Rightarrow> u8 \<times> client" where
  "read_uint8_udp c =
     (buf_udp c ! buf_udp_pos c,
      c\<lparr>buf_udp_pos := buf_udp_pos c + 1, buf_udp_length := buf_udp_length c - 1\<rparr>)"

text \<open>\<open>None\<close> is a \<open>receive\<close> that throws.\<close>

definition handle_gui_message :: "byte list option \<Rightarrow> bool \<Rightarrow> client \<Rightarrow> client res" where
  "handle_gui_message received written c =
     (case received of
        None \<Rightarrow> exit_with_msg
      | Some datagram \<Rightarrow>
          let (msg_code, c1) = read_uint8_udp (receive_udp datagram c) in
          (case input_code_of_byte msg_code of
             Some Place_bomb \<Rightarrow>
               if is_lobby_status c1 then send_server_message written (join_message (param_name c1)) c1
               else send_server_message written place_bomb_message c1
           | Some Place_block \<Rightarrow>
               if is_lobby_status c1 then send_server_message written (join_message (param_name c1)) c1
               else send_server_message written place_block_message c1
           | Some Move \<Rightarrow>
               if is_lobby_status c1 then send_server_message written (join_message (param_name c1)) c1
               else let (d, c2) = read_uint8_udp c1 in
                 send_server_message written (move_message (direction_of_byte d)) c2
           | None \<Rightarrow> Inr c1))"

subsection \<open>The two threads\<close>

text \<open>
  \<open>main\<close> runs the two endless loops in a thread each. They share \<open>is_lobby_status\<close> only, which the
  receiver of the server's messages writes once per message and the receiver of the GUI's reads once
  per datagram, and nothing else that one of them writes is used by the other; so a run is a sequence
  of whole rounds of the one loop and the other.
\<close>

datatype client_input =
    From_server u16 bool
  | From_gui "byte list option" bool

fun client_step :: "client_input \<Rightarrow> client \<Rightarrow> client res" where
  "client_step (From_server indet_turn sent) c = handle_server_message indet_turn sent c"
| "client_step (From_gui received written) c = handle_gui_message received written c"

inductive client_reaches :: "client \<Rightarrow> client \<Rightarrow> bool" where
  start: "client_reaches c c"
| round: "client_reaches c c1 \<Longrightarrow> client_step i c1 = Inr c2 \<Longrightarrow> client_reaches c c2"

inductive_cases client_reachesE: "client_reaches c c'"

subsection \<open>Start\<close>

text \<open>
  The socket to the server: \<open>set_option\<close>, which throws on a socket that was never opened (no endpoint to
  try), comes before the error of \<open>connect\<close> is looked at. The socket for the GUI is bound by its
  constructor, which throws when it cannot. Both exceptions are caught nowhere.
\<close>

definition connect_to_server :: "bool \<Rightarrow> bool \<Rightarrow> unit res" where
  "connect_to_server socket_open connect_error =
     (if \<not> socket_open then Inl Uncaught_exception
      else if connect_error then exit_with_msg else Inr ())"

definition open_gui_socket :: "bool \<Rightarrow> unit res" where
  "open_gui_socket bound = (if bound then Inr () else Inl Uncaught_exception)"

definition robots_client ::
    "('udp, 'tcp) client_parameters res \<Rightarrow> ('tcp \<Rightarrow> bool \<times> bool) \<Rightarrow> (u16 \<Rightarrow> bool) \<Rightarrow>
     byte list list \<Rightarrow> (nat \<Rightarrow> byte) \<Rightarrow> client_input list \<Rightarrow> client res" where
  "robots_client parsed connect bind_port chunks indet_bytes inputs =
     and_then parsed (\<lambda>p.
     let (socket_open, connect_error) = connect (cp_server_address p) in
     and_then (connect_to_server socket_open connect_error) (\<lambda>_.
     and_then (open_gui_socket (bind_port (cp_port p))) (\<lambda>_.
       for_each client_step inputs (new_client (cp_name p) chunks indet_bytes))))"

end
