(* ===== verification/Minstd.thy ===== *)
theory Minstd
  imports Prelude
begin

text \<open>
  \<open>random.h\<close>: the class \<open>Random\<close>, a \<open>std::minstd_rand\<close>. The standard fixes that engine: the linear
  congruential generator with multiplier 48271, increment 0 and modulus 2147483647, whose seed is
  taken modulo the modulus, and 1 where that is 0. The state is the last value drawn.
\<close>

definition minstd_modulus :: nat where
  "minstd_modulus = 2147483647"

definition minstd_multiplier :: nat where
  "minstd_multiplier = 48271"

type_synonym rand_state = nat

definition new_random :: "u32 \<Rightarrow> rand_state" where
  "new_random seed = (if unat seed mod minstd_modulus = 0 then 1 else unat seed mod minstd_modulus)"

definition random_next :: "rand_state \<Rightarrow> u32 \<times> rand_state" where
  "random_next r = (let r' = minstd_multiplier * r mod minstd_modulus in (of_nat r', r'))"

definition random_ok :: "rand_state \<Rightarrow> bool" where
  "random_ok r \<longleftrightarrow> 0 < r \<and> r < minstd_modulus"

lemmas minstd_defs = minstd_modulus_def minstd_multiplier_def

lemma random_ok_new: "random_ok (new_random seed)"
  by (simp add: random_ok_def new_random_def minstd_defs)

lemma minstd_coprime: "coprime minstd_multiplier minstd_modulus"
  unfolding minstd_defs coprime_iff_gcd_eq_1 by (simp add: gcd_non_0_nat)

lemma random_ok_next:
  assumes "random_ok r"
  shows "random_ok (snd (random_next r))"
proof -
  have "\<not> minstd_modulus dvd minstd_multiplier * r"
    using assms minstd_coprime
    by (auto simp: coprime_commute coprime_dvd_mult_right_iff random_ok_def dest: dvd_imp_le)
  then show ?thesis
    by (simp add: random_ok_def random_next_def Let_def mod_greater_zero_iff_not_dvd minstd_modulus_def)
qed

lemma random_next_value:
  assumes "random_ok r"
  shows "unat (fst (random_next r)) = snd (random_next r)"
proof -
  have "minstd_multiplier * r mod minstd_modulus < 2 ^ 32"
    by (rule less_trans [OF mod_less_divisor]) (simp_all add: minstd_defs)
  then show ?thesis
    by (simp add: random_next_def Let_def unat_of_nat take_bit_eq_mod)
qed

end
