(* ===== verification/Tcp.thy ===== *)
theory Tcp
  imports Messages
begin

text \<open>
  \<open>server-tcp-handler.cpp\<close>: the table of descriptors, the receive buffer and its two readers. What the
  operating system returns (a descriptor, a peer address, the bytes of a \<open>read\<close>, poll results) is an
  argument of the operation that makes the call. Two fields the code does not have record what the
  process did to the outside: \<open>wire\<close>, the \<open>send\<close> calls with their descriptor, and \<open>closed_fds\<close>, the
  \<open>close\<close> calls, in order. The result of a \<open>send\<close> is only printed, so it is no argument: \<open>wire\<close> holds what was given to
  \<open>send\<close>, whether or not all of it was sent. That of a \<open>close\<close> matters in \<open>close_conn\<close> only.
\<close>

unbundle bit_operations_syntax

datatype message_recv_status = ERROR_CONN | ERROR_MSG | END_CONN | POTENTIALLY_SUCCESS | SUCCESS

datatype read_result = Read_failed | Read_bytes "byte list"

record pollfd =
  fd :: int
  revents :: u16

definition POLLIN :: u16 where
  "POLLIN = 1"

definition POLLERR :: u16 where
  "POLLERR = 8"

definition conn_max :: nat where
  "conn_max = 26"

definition buf_size :: nat where
  "buf_size = 256"

text \<open>\<open>current_buf.buf\<close> is a pointer into \<open>buf\<close>; here its offset.\<close>

record server_tcp_handler =
  buf :: "byte list"
  buf_pos :: nat
  buf_length :: int
  listen_port :: u16
  active_clients :: u64
  poll_descriptors :: "pollfd list"
  addresses :: "(nat, cstring) std_map"
  wire :: "(int \<times> byte list) list"
  closed_fds :: "int list"

definition slot_fd :: "server_tcp_handler \<Rightarrow> nat \<Rightarrow> int" where
  "slot_fd h i = fd (poll_descriptors h ! i)"

definition set_slot_fd :: "nat \<Rightarrow> int \<Rightarrow> server_tcp_handler \<Rightarrow> server_tcp_handler" where
  "set_slot_fd i d h =
     h\<lparr>poll_descriptors := (poll_descriptors h)[i := (poll_descriptors h ! i)\<lparr>fd := d\<rparr>]\<rparr>"

subsection \<open>Set-up and tear-down\<close>

text \<open>\<open>socket_fd\<close> is the result of \<open>socket\<close>; \<open>bind_errno\<close> and \<open>listen_errno\<close> what the calls leave.\<close>

definition open_socket :: "int \<Rightarrow> int res" where
  "open_socket socket_fd = (if socket_fd < 0 then exit_with_msg else Inr socket_fd)"

definition check_errno_exit :: "int \<Rightarrow> unit res" where
  "check_errno_exit errno = (if errno \<noteq> 0 then Inl Exit_failure else Inr ())"

text \<open>The socket is bound to the port on any address of the host; only the error code of \<open>bind\<close> matters.\<close>

definition bind_socket :: "int \<Rightarrow> unit res" where
  "bind_socket bind_errno = check_errno_exit bind_errno"

definition new_tcp_handler ::
    "byte list \<Rightarrow> int \<Rightarrow> int \<Rightarrow> u16 \<Rightarrow> server_tcp_handler res" where
  "new_tcp_handler indet_buf socket_fd bind_errno prt =
     and_then (open_socket socket_fd) (\<lambda>s.
     and_then (bind_socket bind_errno) (\<lambda>_.
       Inr \<lparr>buf = indet_buf, buf_pos = 0, buf_length = 0, listen_port = prt, active_clients = 0,
         poll_descriptors = \<lparr>fd = s, revents = 0\<rparr> # replicate (conn_max - 1) \<lparr>fd = -1, revents = 0\<rparr>,
         addresses = [], wire = [], closed_fds = []\<rparr>))"

definition start_listening :: "int \<Rightarrow> server_tcp_handler \<Rightarrow> server_tcp_handler res" where
  "start_listening listen_errno h = and_then (check_errno_exit listen_errno) (\<lambda>_. Inr h)"

definition close_fd :: "int \<Rightarrow> server_tcp_handler \<Rightarrow> server_tcp_handler" where
  "close_fd d h = h\<lparr>closed_fds := closed_fds h @ [d]\<rparr>"

definition close_conn :: "(int \<Rightarrow> int) \<Rightarrow> server_tcp_handler \<Rightarrow> server_tcp_handler res" where
  "close_conn close_errno h =
     for_each (\<lambda>p h. if fd p \<ge> 0
         then and_then (check_errno_exit (close_errno (fd p))) (\<lambda>_. Inr (close_fd (fd p) h))
         else Inr h) (poll_descriptors h) h"

subsection \<open>Polling and accepting\<close>

definition reset_revents :: "server_tcp_handler \<Rightarrow> server_tcp_handler" where
  "reset_revents h = h\<lparr>poll_descriptors := map (\<lambda>p. p\<lparr>revents := 0\<rparr>) (poll_descriptors h)\<rparr>"

text \<open>\<open>poll\<close> fills in the returned events, here given by slot.\<close>

definition poll_exec :: "(nat \<Rightarrow> u16) \<Rightarrow> server_tcp_handler \<Rightarrow> server_tcp_handler" where
  "poll_exec evs h =
     h\<lparr>poll_descriptors :=
         map (\<lambda>(i, p). p\<lparr>revents := evs i\<rparr>) (enumerate 0 (poll_descriptors h))\<rparr>"

definition is_new_connection :: "server_tcp_handler \<Rightarrow> bool" where
  "is_new_connection h \<longleftrightarrow> revents (poll_descriptors h ! 0) AND POLLIN \<noteq> 0"

definition is_message_from :: "server_tcp_handler \<Rightarrow> nat \<Rightarrow> bool" where
  "is_message_from h i \<longleftrightarrow>
     slot_fd h i \<noteq> -1 \<and> revents (poll_descriptors h ! i) AND (POLLIN OR POLLERR) \<noteq> 0"

fun digits_of :: "nat \<Rightarrow> cstring" where
  "digits_of n = (if n < 10 then [of_nat (48 + n)] else digits_of (n div 10) @ [of_nat (48 + n mod 10)])"

declare digits_of.simps [simp del]

definition size_t_of_int :: "int \<Rightarrow> nat" where
  "size_t_of_int z = nat (z mod 2 ^ 64)"

definition free_slot :: "server_tcp_handler \<Rightarrow> nat option" where
  "free_slot h = find (\<lambda>i. slot_fd h i = -1) [1..<conn_max]"

definition peer_address :: "cstring \<Rightarrow> u16 \<Rightarrow> cstring" where
  "peer_address client_ip client_port =
     cstring_lit ''['' @ client_ip @ cstring_lit '']:'' @ digits_of (unat client_port)"

text \<open>
  \<open>accept\<close> gives a descriptor (negative on failure, which is only printed) and the peer's address.
  The slot, or -1, is returned; with no free slot the address is filed under \<open>(size_t) -1\<close>.
\<close>

definition accept_client ::
    "int \<Rightarrow> cstring \<Rightarrow> u16 \<Rightarrow> server_tcp_handler \<Rightarrow> int \<times> server_tcp_handler" where
  "accept_client client_fd client_ip client_port h =
     (let (accepted_pos, h1) =
        (case free_slot h of
           Some i \<Rightarrow> (int i, (set_slot_fd i client_fd h)\<lparr>active_clients := active_clients h + 1\<rparr>)
         | None \<Rightarrow> (-1, close_fd client_fd h))
      in (accepted_pos,
          h1\<lparr>addresses :=
             map_assign (size_t_of_int accepted_pos) (peer_address client_ip client_port) (addresses h1)\<rparr>))"

definition report_msg_status :: "message_recv_status \<Rightarrow> nat \<Rightarrow> server_tcp_handler \<Rightarrow> server_tcp_handler" where
  "report_msg_status status i h =
     (if status \<noteq> SUCCESS
      then (set_slot_fd i (-1) (close_fd (slot_fd h i) h))\<lparr>active_clients := active_clients h - 1\<rparr>
      else h)"

subsection \<open>Receiving\<close>

text \<open>\<open>read\<close> stores at most \<open>buf_size\<close> bytes at the start of the buffer.\<close>

definition read_from :: "read_result \<Rightarrow> server_tcp_handler \<Rightarrow> message_recv_status \<times> server_tcp_handler" where
  "read_from r h =
     (case r of
        Read_failed \<Rightarrow> (ERROR_CONN, h\<lparr>buf_length := -1, buf_pos := 0\<rparr>)
      | Read_bytes bytes \<Rightarrow>
          let got = take buf_size bytes;
              h1 = h\<lparr>buf := got @ drop (length got) (buf h), buf_length := int (length got), buf_pos := 0\<rparr>
          in (if got = [] then END_CONN else POTENTIALLY_SUCCESS, h1))"

definition current_buf_update :: "nat \<Rightarrow> server_tcp_handler \<Rightarrow> server_tcp_handler" where
  "current_buf_update n h = h\<lparr>buf_pos := buf_pos h + n, buf_length := buf_length h - int n\<rparr>"

definition is_buf_empty :: "server_tcp_handler \<Rightarrow> bool" where
  "is_buf_empty h \<longleftrightarrow> buf_length h = 0"

text \<open>\<open>None\<close> is the \<open>MsgException\<close>; what was consumed before it was thrown stays consumed.\<close>

definition read_uint8 :: "server_tcp_handler \<Rightarrow> u8 option \<times> server_tcp_handler" where
  "read_uint8 h =
     (if buf_length h < 1 then (None, h)
      else (Some (buf h ! buf_pos h), current_buf_update 1 h))"

definition read_string :: "server_tcp_handler \<Rightarrow> cstring option \<times> server_tcp_handler" where
  "read_string h =
     (case read_uint8 h of
        (None, h1) \<Rightarrow> (None, h1)
      | (Some str_length, h1) \<Rightarrow>
          if int (unat str_length) > buf_length h1 then (None, h1)
          else (Some (take (unat str_length) (drop (buf_pos h1) (buf h1))),
                current_buf_update (unat str_length) h1))"

subsection \<open>Sending\<close>

definition send_message :: "nat \<Rightarrow> byte list \<Rightarrow> server_tcp_handler \<Rightarrow> server_tcp_handler" where
  "send_message i msg h = h\<lparr>wire := wire h @ [(slot_fd h i, msg)]\<rparr>"

definition send_message_to_all :: "byte list \<Rightarrow> server_tcp_handler \<Rightarrow> server_tcp_handler" where
  "send_message_to_all msg h =
     fold (\<lambda>i h. if slot_fd h i \<noteq> -1 then send_message i msg h else h) [1..<conn_max] h"

definition get_address :: "nat \<Rightarrow> server_tcp_handler \<Rightarrow> cstring res" where
  "get_address i h = map_at (addresses h) i"

subsection \<open>Well-formed handlers\<close>

text \<open>
  The table has its 26 slots, the unread bytes lie inside the buffer, and every connected slot has an
  address on file.
\<close>

definition buffer_ok :: "server_tcp_handler \<Rightarrow> bool" where
  "buffer_ok h \<longleftrightarrow> length (buf h) = buf_size \<and> -1 \<le> buf_length h
     \<and> int (buf_pos h) + buf_length h \<le> int buf_size"

definition handler_ok :: "server_tcp_handler \<Rightarrow> bool" where
  "handler_ok h \<longleftrightarrow> length (poll_descriptors h) = conn_max \<and> buffer_ok h \<and> map_ok (addresses h)
     \<and> (\<forall>i. 0 < i \<and> i < conn_max \<and> slot_fd h i \<noteq> -1 \<longrightarrow> i \<in> keys (addresses h))"

text \<open>The bytes received and not yet read.\<close>

definition unread :: "server_tcp_handler \<Rightarrow> byte list" where
  "unread h = take (nat (buf_length h)) (drop (buf_pos h) (buf h))"

lemma length_unread: "buffer_ok h \<Longrightarrow> length (unread h) = nat (buf_length h)"
  by (auto simp: unread_def buffer_ok_def min_def)

lemma slot_fd_set [simp]:
  "length (poll_descriptors h) = conn_max \<Longrightarrow> i < conn_max \<Longrightarrow>
     slot_fd (set_slot_fd i d h) j = (if j = i then d else slot_fd h j)"
  by (simp add: slot_fd_def set_slot_fd_def nth_list_update)

lemma set_slot_fd_simps [simp]:
  "length (poll_descriptors (set_slot_fd i d h)) = length (poll_descriptors h)"
  "buf (set_slot_fd i d h) = buf h" "buf_pos (set_slot_fd i d h) = buf_pos h"
  "buf_length (set_slot_fd i d h) = buf_length h" "addresses (set_slot_fd i d h) = addresses h"
  "wire (set_slot_fd i d h) = wire h" "active_clients (set_slot_fd i d h) = active_clients h"
  "closed_fds (set_slot_fd i d h) = closed_fds h"
  by (simp_all add: set_slot_fd_def)

lemma free_slot_Some:
  "free_slot h = Some i \<longleftrightarrow>
     0 < i \<and> i < conn_max \<and> slot_fd h i = -1 \<and> (\<forall>j. 0 < j \<and> j < i \<longrightarrow> slot_fd h j \<noteq> -1)"
proof
  assume "free_slot h = Some i"
  then obtain k where "k < conn_max - 1" "slot_fd h (Suc k) = -1" "i = Suc k"
      and before: "\<forall>j<k. slot_fd h (Suc j) \<noteq> -1"
    by (auto simp: free_slot_def find_Some_iff)
  moreover have "slot_fd h j \<noteq> -1" if "0 < j" "j < Suc k" for j
    using before that by (cases j) auto
  ultimately show "0 < i \<and> i < conn_max \<and> slot_fd h i = -1 \<and> (\<forall>j. 0 < j \<and> j < i \<longrightarrow> slot_fd h j \<noteq> -1)"
    by auto
next
  assume "0 < i \<and> i < conn_max \<and> slot_fd h i = -1 \<and> (\<forall>j. 0 < j \<and> j < i \<longrightarrow> slot_fd h j \<noteq> -1)"
  then show "free_slot h = Some i"
    unfolding free_slot_def find_Some_iff by (intro exI [of _ "i - 1"]) auto
qed

lemma free_slot_None: "free_slot h = None \<longleftrightarrow> (\<forall>i. 0 < i \<and> i < conn_max \<longrightarrow> slot_fd h i \<noteq> -1)"
  by (auto simp: free_slot_def find_None_iff)

lemma handler_ok_new:
  assumes "new_tcp_handler indet_buf socket_fd bind_errno prt = Inr h" and "length indet_buf = buf_size"
  shows "handler_ok h"
proof -
  have "slot_fd h i = -1" if "0 < i" "i < conn_max" for i
    using that assms(1) by (auto simp: new_tcp_handler_def bind_socket_def slot_fd_def nth_Cons split: nat.splits)
  with assms show ?thesis
    by (auto simp: new_tcp_handler_def bind_socket_def handler_ok_def buffer_ok_def buf_size_def conn_max_def)
qed

lemma handler_ok_accept:
  assumes "handler_ok h"
  shows "handler_ok (snd (accept_client client_fd ip prt h))"
proof (cases "free_slot h")
  case None
  with assms show ?thesis
    by (auto simp: accept_client_def handler_ok_def buffer_ok_def close_fd_def slot_fd_def)
next
  case (Some i)
  then have i: "0 < i" "i < conn_max" by (simp_all add: free_slot_Some)
  moreover from i have "size_t_of_int (int i) = i"
    by (simp add: size_t_of_int_def conn_max_def)
  moreover have "slot_fd (h\<lparr>active_clients := a, addresses := b\<rparr>) j = slot_fd h j" for a b j h
    by (simp add: slot_fd_def)
  ultimately show ?thesis
    using assms Some by (auto simp: accept_client_def handler_ok_def buffer_ok_def Let_def)
qed

lemma handler_ok_read_from: "handler_ok h \<Longrightarrow> handler_ok (snd (read_from r h))"
  by (auto simp: read_from_def handler_ok_def buffer_ok_def slot_fd_def Let_def buf_size_def
      split: read_result.splits)

lemma handler_ok_report: 
  "handler_ok h \<Longrightarrow> i < conn_max \<Longrightarrow> handler_ok (report_msg_status s i h)"
  by (auto simp: report_msg_status_def handler_ok_def buffer_ok_def close_fd_def slot_fd_def
      set_slot_fd_def nth_list_update)

lemma send_message_simps [simp]:
  "slot_fd (send_message i msg h) j = slot_fd h j"
  "poll_descriptors (send_message i msg h) = poll_descriptors h"
  "addresses (send_message i msg h) = addresses h"
  "wire (send_message i msg h) = wire h @ [(slot_fd h i, msg)]"
  by (simp_all add: send_message_def slot_fd_def)

lemma handler_ok_send [simp]: "handler_ok (send_message i msg h) \<longleftrightarrow> handler_ok h"
  by (simp add: send_message_def handler_ok_def buffer_ok_def slot_fd_def)

text \<open>The slots a message to all goes to: every connected one, in increasing order.\<close>

definition connected :: "server_tcp_handler \<Rightarrow> nat list" where
  "connected h = filter (\<lambda>i. slot_fd h i \<noteq> -1) [1..<conn_max]"

lemma fold_send_wire:
  "fold (\<lambda>i h. if slot_fd h i \<noteq> -1 then send_message i msg h else h) is h =
     h\<lparr>wire := wire h @ map (\<lambda>i. (slot_fd h i, msg)) (filter (\<lambda>i. slot_fd h i \<noteq> -1) is)\<rparr>"
proof (induction "is" arbitrary: h)
  case (Cons i "is")
  have "slot_fd (h\<lparr>wire := w\<rparr>) j = slot_fd h j" for w j by (simp add: slot_fd_def)
  then show ?case by (simp add: Cons.IH send_message_def)
qed simp

lemma send_message_to_all_wire:
  "send_message_to_all msg h = h\<lparr>wire := wire h @ map (\<lambda>i. (slot_fd h i, msg)) (connected h)\<rparr>"
  by (simp add: send_message_to_all_def fold_send_wire connected_def)

lemma handler_ok_send_all [simp]: "handler_ok (send_message_to_all msg h) \<longleftrightarrow> handler_ok h"
  by (simp add: send_message_to_all_wire handler_ok_def buffer_ok_def slot_fd_def)

lemma handler_ok_poll [simp]:
  "handler_ok (reset_revents h) \<longleftrightarrow> handler_ok h" "handler_ok (poll_exec evs h) \<longleftrightarrow> handler_ok h"
proof -
  have "slot_fd (reset_revents h) i = slot_fd h i" "slot_fd (poll_exec evs h) i = slot_fd h i"
    if "length (poll_descriptors h) = conn_max" "i < conn_max" for i
    using that
    by (simp_all add: slot_fd_def reset_revents_def poll_exec_def nth_enumerate_eq)
  then show "handler_ok (reset_revents h) \<longleftrightarrow> handler_ok h"
      "handler_ok (poll_exec evs h) \<longleftrightarrow> handler_ok h"
    by (auto simp: handler_ok_def buffer_ok_def reset_revents_def poll_exec_def)
qed

subsection \<open>The readers\<close>

lemma read_uint8_unread:
  assumes "buffer_ok h"
  shows "read_uint8 h = (case unread h of [] \<Rightarrow> (None, h) | b # _ \<Rightarrow> (Some b, current_buf_update 1 h))"
proof (cases "buf_length h < 1")
  case True
  then show ?thesis by (simp add: read_uint8_def unread_def)
next
  case False
  with assms have "drop (buf_pos h) (buf h) = buf h ! buf_pos h # drop (Suc (buf_pos h)) (buf h)"
    by (intro Cons_nth_drop_Suc [symmetric]) (auto simp: buffer_ok_def)
  with False show ?thesis
    by (simp add: read_uint8_def unread_def take_Cons' )
qed

lemma current_buf_update_ok:
  assumes "buffer_ok h" and "n \<le> length (unread h)"
  shows "buffer_ok (current_buf_update n h) \<and> unread (current_buf_update n h) = drop n (unread h)"
proof -
  have "n \<le> nat (buf_length h)" using assms by (simp add: length_unread)
  then have "nat (buf_length h - int n) = nat (buf_length h) - n" by simp
  with assms \<open>n \<le> nat (buf_length h)\<close> show ?thesis
    by (cases "n = 0") (auto simp: buffer_ok_def unread_def current_buf_update_def drop_take add.commute)
qed

lemma read_string_unread:
  assumes "buffer_ok h"
  shows "read_string h =
     (case unread h of [] \<Rightarrow> (None, h)
      | n # bs \<Rightarrow> (let h1 = current_buf_update 1 h in
          if length bs < unat n then (None, h1)
          else (Some (take (unat n) bs), current_buf_update (unat n) h1)))"
proof (cases "unread h")
  case Nil
  with assms show ?thesis by (simp add: read_string_def read_uint8_unread)
next
  case (Cons n bs)
  let ?h1 = "current_buf_update 1 h"
  have h1: "buffer_ok ?h1" "unread ?h1 = bs"
    using current_buf_update_ok [OF assms, of 1] Cons by simp_all
  have "nat (buf_length h) = Suc (length bs)"
    using length_unread [OF assms] Cons by simp
  then have "buf_length ?h1 = int (length bs)"
    by (simp add: current_buf_update_def)
  then have len: "buf_length ?h1 < int (unat n) \<longleftrightarrow> length bs < unat n"
    by (simp only: of_nat_less_iff)
  have "take (unat n) (drop (buf_pos ?h1) (buf ?h1)) = take (unat n) bs" if "\<not> length bs < unat n"
    using h1 that length_unread [OF h1(1)] by (auto simp: unread_def min_def)
  with assms Cons len show ?thesis by (simp add: read_string_def read_uint8_unread)
qed

end
