(* ===== verification/Engine.thy ===== *)
theory Engine
  imports Events Minstd Params Tcp "HOL-Library.While_Combinator"
begin

text \<open>
  \<open>game-engine.h\<close> and \<open>game-engine.cpp\<close>: the state of the server's game and its operations, up to the
  handlers of the clients' messages. An operation that can throw \<open>std::out_of_range\<close>, divide by zero
  or loop for ever has a result of type \<open>_ res\<close>. Console output is left out.
\<close>

record game_engine =
  game_params :: server_parameters
  tcp_handler :: server_tcp_handler
  gameplay_started :: bool
  players :: "(player_id, player) std_map"
  scores :: "(player_id, score) std_map"
  players_positions :: "(player_id, position) std_map"
  blocks_positions :: position_set
  player_ids :: "(nat, player_id) std_map"
  next_player_id :: player_id
  current_turn :: u16
  current_blocks_to_erase :: "position list"
  current_players_to_destroy :: "player_id rb"
  turns :: "turn_info list"
  bombs :: "(bomb_id, bomb) std_map"
  next_bomb_id :: bomb_id
  random :: rand_state

definition new_game_engine :: "server_parameters \<Rightarrow> server_tcp_handler \<Rightarrow> game_engine" where
  "new_game_engine params h =
     \<lparr>game_params = params, tcp_handler = h, gameplay_started = False, players = [], scores = [],
      players_positions = [], blocks_positions = Leaf, player_ids = [], next_player_id = 0,
      current_turn = 0, current_blocks_to_erase = [], current_players_to_destroy = Leaf,
      turns = [], bombs = [], next_bomb_id = 0, random = new_random (seed params)\<rparr>"

definition add_turn_event :: "u16 \<Rightarrow> event \<Rightarrow> game_engine \<Rightarrow> game_engine res" where
  "add_turn_event t ev e =
     (if unat t < length (turns e)
      then Inr (e\<lparr>turns := (turns e)[unat t := add_event ev (turns e ! unat t)]\<rparr>)
      else Inl Out_of_range)"

subsection \<open>The board\<close>

definition check_position :: "game_engine \<Rightarrow> position \<Rightarrow> bool" where
  "check_position e pos \<longleftrightarrow>
     pos_x pos < size_x (game_params e) \<and> pos_y pos < size_y (game_params e)"

definition check_position_to_move :: "game_engine \<Rightarrow> position \<Rightarrow> bool" where
  "check_position_to_move e pos \<longleftrightarrow> check_position e pos \<and> pos_count (blocks_positions e) pos = 0"

subsection \<open>Explosions\<close>

text \<open>The local variables of \<open>handle_explosion\<close> and the two fields of the engine it changes.\<close>

record explosion =
  robots_destroyed :: "player_id list"
  blocks_destroyed :: "position list"
  to_destroy :: "player_id rb"
  to_erase :: "position list"
  go_up :: bool
  go_down :: bool
  go_left :: bool
  go_right :: bool
  ex_i :: u16

definition strike_robots :: "game_engine \<Rightarrow> position \<Rightarrow> explosion \<Rightarrow> explosion" where
  "strike_robots e pos b =
     fold (\<lambda>(p, q) b. if position_eq q pos
         then b\<lparr>robots_destroyed := robots_destroyed b @ [p], to_destroy := set_insert (<) p (to_destroy b)\<rparr>
         else b) (players_positions e) b"

text \<open>The body shared by the centre and the four directions; the result says whether a block was hit.\<close>

definition strike_cell :: "game_engine \<Rightarrow> position \<Rightarrow> explosion \<Rightarrow> bool \<times> explosion" where
  "strike_cell e pos b =
     (let b1 = strike_robots e pos b in
      if pos_count (blocks_positions e) pos = 1
      then (True, b1\<lparr>blocks_destroyed := blocks_destroyed b1 @ [pos], to_erase := to_erase b1 @ [pos]\<rparr>)
      else (False, b1))"

definition strike :: "game_engine \<Rightarrow> position \<Rightarrow> bool \<Rightarrow> explosion \<Rightarrow> bool \<times> explosion" where
  "strike e pos go b =
     (if go
      then if check_position e pos
        then let (was_block, b1) = strike_cell e pos b in (\<not> was_block, b1)
        else (False, b)
      else (False, b))"

definition explosion_round :: "game_engine \<Rightarrow> u16 \<Rightarrow> u16 \<Rightarrow> explosion \<Rightarrow> explosion" where
  "explosion_round e x y b =
     (let i = ex_i b;
          (down, b1) = strike e (Position x (y - i)) (go_down b) b;
          (up, b2) = strike e (Position x (y + i)) (go_up b) b1;
          (left, b3) = strike e (Position (x - i) y) (go_left b) b2;
          (right, b4) = strike e (Position (x + i) y) (go_right b) b3
      in b4\<lparr>go_up := up, go_down := down, go_left := left, go_right := right, ex_i := i + 1\<rparr>)"

definition explosion_loop :: "game_engine \<Rightarrow> u16 \<Rightarrow> u16 \<Rightarrow> explosion \<Rightarrow> explosion option" where
  "explosion_loop e x y =
     while_option (\<lambda>b. ex_i b \<le> explosion_radius (game_params e)) (explosion_round e x y)"

definition explosion_start :: "game_engine \<Rightarrow> explosion" where
  "explosion_start e =
     \<lparr>robots_destroyed = [], blocks_destroyed = [], to_destroy = current_players_to_destroy e,
      to_erase = current_blocks_to_erase e, go_up = True, go_down = True, go_left = True,
      go_right = True, ex_i = 1\<rparr>"

definition handle_explosion :: "bomb_id \<Rightarrow> bomb \<Rightarrow> game_engine \<Rightarrow> game_engine res" where
  "handle_explosion i bomb e =
     (let (was_block, b) = strike_cell e (bomb_position bomb) (explosion_start e);
          finished = (if was_block then Some b
            else explosion_loop e (pos_x (bomb_position bomb)) (pos_y (bomb_position bomb)) b)
      in case finished of
           None \<Rightarrow> Inl Diverges
         | Some b \<Rightarrow> add_turn_event (current_turn e)
             (Bomb_exploded_event i (robots_destroyed b) (blocks_destroyed b))
             (e\<lparr>current_players_to_destroy := to_destroy b, current_blocks_to_erase := to_erase b\<rparr>))"

subsection \<open>Beginning a turn\<close>

text \<open>The loop visits the entries of \<open>bombs\<close> in key order and changes only timers while it does.\<close>

definition tick_bomb :: "bomb_id \<times> bomb \<Rightarrow> game_engine \<Rightarrow> game_engine res" where
  "tick_bomb entry e =
     (let i = fst entry;
          bomb = Bomb (bomb_position (snd entry)) (timer (snd entry) - 1);
          e1 = e\<lparr>bombs := map_assign i bomb (bombs e)\<rparr>
      in if timer bomb = 0 then handle_explosion i bomb e1 else Inr e1)"

definition begin_turn :: "game_engine \<Rightarrow> game_engine res" where
  "begin_turn e =
     (let t = current_turn e + 1;
          e1 = e\<lparr>current_turn := t, turns := turns e @ [new_turn_info t]\<rparr>
      in and_then (for_each tick_bomb (bombs e1) e1) (\<lambda>e2.
        let e3 = e2\<lparr>bombs := filter (\<lambda>(i, bomb). timer bomb \<noteq> 0) (bombs e2)\<rparr>
        in Inr (e3\<lparr>blocks_positions := fold pos_erase (current_blocks_to_erase e3) (blocks_positions e3)\<rparr>)))"

subsection \<open>Placing robots and blocks at random\<close>

definition random_coordinate :: "u16 \<Rightarrow> rand_state \<Rightarrow> (u16 \<times> rand_state) res" where
  "random_coordinate bound r =
     (let (v, r1) = random_next r in
      if bound = 0 then Inl Division_by_zero else Inr (ucast (v mod (ucast bound :: u32)), r1))"

definition random_position :: "game_engine \<Rightarrow> (position \<times> rand_state) res" where
  "random_position e =
     and_then (random_coordinate (size_x (game_params e)) (random e)) (\<lambda>(x, r1).
     and_then (random_coordinate (size_y (game_params e)) r1) (\<lambda>(y, r2).
       Inr (Position x y, r2)))"

definition seed_player :: "player_id \<Rightarrow> game_engine \<Rightarrow> game_engine res" where
  "seed_player i e =
     and_then (random_position e) (\<lambda>(pos, r).
     and_then (add_turn_event (current_turn e) (Player_moved_event i pos) (e\<lparr>random := r\<rparr>)) (\<lambda>e1.
       Inr (e1\<lparr>players_positions := map_assign i pos (players_positions e1)\<rparr>)))"

definition seed_players :: "game_engine \<Rightarrow> game_engine res" where
  "seed_players e = for_each (\<lambda>player. seed_player (fst player)) (players e) e"

definition seed_block :: "game_engine \<Rightarrow> game_engine res" where
  "seed_block e =
     and_then (random_position e) (\<lambda>(pos, r).
     and_then (add_turn_event 0 (Block_placed_event pos) (e\<lparr>random := r\<rparr>)) (\<lambda>e1.
       Inr (e1\<lparr>blocks_positions := pos_insert pos (blocks_positions e1)\<rparr>)))"

definition seed_blocks :: "game_engine \<Rightarrow> game_engine res" where
  "seed_blocks e = for_each (\<lambda>i. seed_block) [0..<unat (initial_blocks (game_params e))] e"

subsection \<open>Messages to the clients\<close>

definition hello_msg :: "server_parameters \<Rightarrow> byte list" where
  "hello_msg p =
     server_code Hello # string_to_bytes (server_name p) @ uint8_to_byte (players_count p)
       # uint16_to_bytes (size_x p) @ uint16_to_bytes (size_y p) @ uint16_to_bytes (game_length p)
       @ uint16_to_bytes (explosion_radius p) @ uint16_to_bytes (bomb_timer p)"

definition game_started_msg :: "game_engine \<Rightarrow> byte list" where
  "game_started_msg e = server_code GameStarted # player_map_to_bytes (players e)"

definition accepted_player_msg :: "player_id \<Rightarrow> player \<Rightarrow> byte list" where
  "accepted_player_msg i p = server_code AcceptedPlayer # uint8_to_byte i # player_to_bytes p"

definition game_ended_msg :: "game_engine \<Rightarrow> byte list" where
  "game_ended_msg e = server_code GameEnded # score_map_to_bytes (scores e)"

definition send_to :: "nat \<Rightarrow> byte list \<Rightarrow> game_engine \<Rightarrow> game_engine" where
  "send_to i msg e = e\<lparr>tcp_handler := send_message i msg (tcp_handler e)\<rparr>"

definition send_to_all :: "byte list \<Rightarrow> game_engine \<Rightarrow> game_engine" where
  "send_to_all msg e = e\<lparr>tcp_handler := send_message_to_all msg (tcp_handler e)\<rparr>"

definition send_hello :: "nat \<Rightarrow> game_engine \<Rightarrow> game_engine" where
  "send_hello i e = send_to i (hello_msg (game_params e)) e"

definition send_game_started :: "nat \<Rightarrow> game_engine \<Rightarrow> game_engine" where
  "send_game_started i e = send_to i (game_started_msg e) e"

definition send_turn :: "nat \<Rightarrow> turn_info \<Rightarrow> game_engine \<Rightarrow> game_engine" where
  "send_turn i t e = send_to i (turn_info_to_bytes t) e"

definition send_all_turns :: "nat \<Rightarrow> game_engine \<Rightarrow> game_engine" where
  "send_all_turns i e = fold (send_turn i) (turns e) e"

definition send_accepted_player :: "nat \<Rightarrow> player_id \<Rightarrow> player \<Rightarrow> game_engine \<Rightarrow> game_engine" where
  "send_accepted_player i p_id p e = send_to i (accepted_player_msg p_id p) e"

definition send_all_accepted_player :: "nat \<Rightarrow> game_engine \<Rightarrow> game_engine" where
  "send_all_accepted_player i e =
     fold (\<lambda>player. send_accepted_player i (fst player) (snd player)) (players e) e"

definition send_hello_state :: "nat \<Rightarrow> game_engine \<Rightarrow> game_engine" where
  "send_hello_state i e =
     (if gameplay_started e then send_all_turns i (send_game_started i e)
      else send_all_accepted_player i e)"

subsection \<open>Starting, summarising and ending\<close>

definition start_gameplay :: "game_engine \<Rightarrow> game_engine res" where
  "start_gameplay e =
     (let e1 = e\<lparr>gameplay_started := True, turns := turns e @ [new_turn_info 0]\<rparr>;
          e2 = send_to_all (game_started_msg e1) e1
      in and_then (seed_players e2) seed_blocks)"

definition end_gameplay :: "game_engine \<Rightarrow> game_engine" where
  "end_gameplay e =
     (let e1 = send_to_all (game_ended_msg e) e
      in e1\<lparr>gameplay_started := False, players := [], scores := [], players_positions := [],
          blocks_positions := Leaf, player_ids := [], next_player_id := 0, current_turn := 0,
          turns := [], bombs := [], next_bomb_id := 0\<rparr>)"

definition respawn :: "player_id \<Rightarrow> game_engine \<Rightarrow> game_engine res" where
  "respawn p_id e =
     and_then (map_at (scores e) p_id) (\<lambda>s.
       seed_player p_id (e\<lparr>scores := map_assign p_id (s + 1) (scores e)\<rparr>))"

definition turn_at :: "game_engine \<Rightarrow> u16 \<Rightarrow> turn_info res" where
  "turn_at e t = (if unat t < length (turns e) then Inr (turns e ! unat t) else Inl Out_of_range)"

definition summarise_turn :: "game_engine \<Rightarrow> game_engine res" where
  "summarise_turn e =
     and_then (for_each respawn (inorder (current_players_to_destroy e)) e) (\<lambda>e1.
     and_then (turn_at e1 (current_turn e1)) (\<lambda>t.
       let e2 = send_to_all (turn_info_to_bytes t) e1;
           e3 = e2\<lparr>current_blocks_to_erase := [], current_players_to_destroy := Leaf\<rparr>
       in Inr (if current_turn e3 = game_length (game_params e3) then end_gameplay e3 else e3)))"

subsection \<open>The clients' messages\<close>

datatype client_message =
    Join_msg cstring
  | Place_bomb_msg
  | Place_block_msg
  | Move_msg direction

definition join_handle_msg :: "cstring \<Rightarrow> nat \<Rightarrow> game_engine \<Rightarrow> game_engine res" where
  "join_handle_msg name i e =
     (if gameplay_started e then Inr e
      else let p_id = next_player_id e in
        and_then (get_address i (tcp_handler e)) (\<lambda>address.
          let player = Player name address;
              e1 = e\<lparr>next_player_id := p_id + 1,
                player_ids := map_assign i p_id (player_ids e),
                players := map_insert p_id player (players e),
                scores := map_insert p_id 0 (scores e)\<rparr>;
              e2 = send_to_all (accepted_player_msg p_id player) e1
          in if length (players e2) = unat (players_count (game_params e2))
             then start_gameplay e2 else Inr e2))"

text \<open>
  The guard the other three handlers start with: the client must have joined (the
  \<open>std::out_of_range\<close> of this lookup is caught) and its robot must not be destroyed in this turn.
\<close>

definition acting_player :: "nat \<Rightarrow> game_engine \<Rightarrow> player_id option" where
  "acting_player i e =
     (case map_of (player_ids e) i of
        None \<Rightarrow> None
      | Some p_id \<Rightarrow>
          if set_count (<) (current_players_to_destroy e) p_id = 1 then None else Some p_id)"

definition place_bomb_handle_msg :: "nat \<Rightarrow> game_engine \<Rightarrow> game_engine res" where
  "place_bomb_handle_msg i e =
     (case acting_player i e of
        None \<Rightarrow> Inr e
      | Some p_id \<Rightarrow>
          let b_id = next_bomb_id e; e1 = e\<lparr>next_bomb_id := b_id + 1\<rparr> in
          and_then (map_at (players_positions e1) p_id) (\<lambda>pos.
            add_turn_event (current_turn e1) (Bomb_placed_event b_id pos)
              (e1\<lparr>bombs := map_insert b_id (Bomb pos (bomb_timer (game_params e1))) (bombs e1)\<rparr>)))"

definition place_block_handle_msg :: "nat \<Rightarrow> game_engine \<Rightarrow> game_engine res" where
  "place_block_handle_msg i e =
     (case acting_player i e of
        None \<Rightarrow> Inr e
      | Some p_id \<Rightarrow>
          and_then (map_at (players_positions e) p_id) (\<lambda>pos.
            add_turn_event (current_turn e) (Block_placed_event pos)
              (e\<lparr>blocks_positions := pos_insert pos (blocks_positions e)\<rparr>)))"

text \<open>
  For a direction that is no enumerator, the \<open>switch\<close> leaves \<open>new_position\<close> without a value;
  \<open>indet\<close> is whatever the memory held.
\<close>

fun moved_position :: "position \<Rightarrow> direction \<Rightarrow> position \<Rightarrow> position" where
  "moved_position indet Up pos = Position (pos_x pos) (pos_y pos + 1)"
| "moved_position indet Down pos = Position (pos_x pos) (pos_y pos - 1)"
| "moved_position indet Left pos = Position (pos_x pos - 1) (pos_y pos)"
| "moved_position indet Right pos = Position (pos_x pos + 1) (pos_y pos)"
| "moved_position indet (Other_direction b) pos = indet"

definition move_handle_msg :: "position \<Rightarrow> direction \<Rightarrow> nat \<Rightarrow> game_engine \<Rightarrow> game_engine res" where
  "move_handle_msg indet direction i e =
     (case acting_player i e of
        None \<Rightarrow> Inr e
      | Some p_id \<Rightarrow>
          and_then (map_at (players_positions e) p_id) (\<lambda>pos.
            let new_pos = moved_position indet direction pos in
            if \<not> check_position_to_move e new_pos then Inr e
            else add_turn_event (current_turn e) (Player_moved_event p_id new_pos)
              (e\<lparr>players_positions := map_assign p_id new_pos (players_positions e)\<rparr>)))"

fun client_handle_msg :: "position \<Rightarrow> client_message \<Rightarrow> nat \<Rightarrow> game_engine \<Rightarrow> game_engine res" where
  "client_handle_msg indet (Join_msg name) i e = join_handle_msg name i e"
| "client_handle_msg indet Place_bomb_msg i e = place_bomb_handle_msg i e"
| "client_handle_msg indet Place_block_msg i e = place_block_handle_msg i e"
| "client_handle_msg indet (Move_msg d) i e = move_handle_msg indet d i e"

end
