(* ===== verification/Replay.thy ===== *)
theory Replay
  imports Client Engine
begin

text \<open>
  What the client makes of the server's messages. A message of the server is a value of
  \<open>server_message\<close> with the bytes the server's own writers give it; \<open>apply_message\<close> says what it does to
  the client, without bytes and buffers. The handlers refine it, and keep the client's invariant.
\<close>

subsection \<open>The messages as values\<close>

datatype server_message =
    Hello_message server_parameters
  | Accepted_message player_id player
  | Started_message "(player_id, player) std_map"
  | Turn_message turn_info
  | Ended_message "(player_id, score) std_map"

fun message_bytes :: "server_message \<Rightarrow> byte list" where
  "message_bytes (Hello_message p) = hello_msg p"
| "message_bytes (Accepted_message i p) = accepted_player_msg i p"
| "message_bytes (Started_message ps) = server_code GameStarted # player_map_to_bytes ps"
| "message_bytes (Turn_message t) = turn_info_to_bytes t"
| "message_bytes (Ended_message sc) = server_code GameEnded # score_map_to_bytes sc"

text \<open>Messages that fit the format: strings up to 255 bytes, containers below \<open>2 ^ 32\<close> elements.\<close>

fun event_ok :: "event \<Rightarrow> bool" where
  "event_ok (Bomb_exploded_event i robots blocks) \<longleftrightarrow>
     length robots < 4294967296 \<and> length blocks < 4294967296"
| "event_ok _ \<longleftrightarrow> True"

fun message_ok :: "server_message \<Rightarrow> bool" where
  "message_ok (Hello_message p) \<longleftrightarrow> str_ok (server_name p)"
| "message_ok (Accepted_message i p) \<longleftrightarrow> player_ok p"
| "message_ok (Started_message ps) \<longleftrightarrow>
     map_ok ps \<and> list_all (value_ok player_ok) ps \<and> length ps < 4294967296"
| "message_ok (Turn_message t) \<longleftrightarrow> list_all event_ok (events t) \<and> length (events t) < 4294967296"
| "message_ok (Ended_message sc) \<longleftrightarrow> map_ok sc \<and> length sc < 4294967296"

subsection \<open>Their meaning\<close>

fun apply_event :: "event \<Rightarrow> game_info \<Rightarrow> game_info res" where
  "apply_event (Bomb_placed_event i pos) g = Inr (add_bomb i pos g)"
| "apply_event (Bomb_exploded_event i robots blocks) g =
     and_then (for_each destroy_player (inorder (fold (set_insert (<)) robots Leaf)) (remove_bomb i g))
       (\<lambda>g. Inr (fold remove_block (inorder (fold pos_insert blocks Leaf)) g))"
| "apply_event (Player_moved_event i pos) g = Inr (change_player_position i pos g)"
| "apply_event (Block_placed_event pos) g = Inr (add_block pos g)"

definition apply_turn :: "turn_info \<Rightarrow> game_info \<Rightarrow> game_info res" where
  "apply_turn t g = for_each apply_event (events t) (new_turn (turn t) g)"

definition lobby_of :: "server_parameters \<Rightarrow> lobby_info" where
  "lobby_of p = new_lobby_info (server_name p) (players_count p) (size_x p) (size_y p)
     (game_length p) (explosion_radius p) (bomb_timer p)"

fun apply_message :: "u16 \<Rightarrow> bool \<Rightarrow> server_message \<Rightarrow> client \<Rightarrow> client res" where
  "apply_message t sent (Hello_message p) c =
     and_then (send_gui_message sent (lobby_message (lobby_of p)) (c\<lparr>lobby := lobby_of p\<rparr>)) (\<lambda>c.
       Inr (c\<lparr>is_lobby_status := True\<rparr>))"
| "apply_message t sent (Accepted_message i p) c =
     (let l = add_player i p (lobby c) in send_gui_message sent (lobby_message l) (c\<lparr>lobby := l\<rparr>))"
| "apply_message t sent (Started_message ps) c =
     and_then (new_game_info t (li_server_name (lobby c)) (li_size_x (lobby c))
         (li_size_y (lobby c)) (li_game_length (lobby c)) (li_players (lobby c))
         (li_bomb_timer (lobby c)) (known_scores c)) (\<lambda>g.
       Inr (c\<lparr>game := g, is_lobby_status := False\<rparr>))"
| "apply_message t sent (Turn_message ti) c =
     and_then (apply_turn ti (game c)) (\<lambda>g. send_gui_message sent (game_message g) (c\<lparr>game := g\<rparr>))"
| "apply_message t sent (Ended_message sc) c =
     (let l = clear_players (lobby c)
      in send_gui_message sent (lobby_message l) (c\<lparr>lobby := l, is_lobby_status := True\<rparr>))"

subsection \<open>The handlers refine it\<close>

text \<open>The client with these bytes left in its buffer.\<close>

definition advance :: "byte list \<Rightarrow> client \<Rightarrow> client" where
  "advance bytes c = c\<lparr>rd := (rd c)\<lparr>cur_buf := bytes\<rparr>\<rparr>"

lemma receive_reads:
  "reads m bytes v \<Longrightarrow> receive m k (advance (bytes @ rest) c) = k v (advance rest c)"
  by (simp add: receive_def reads_def advance_def)

lemma receive_u8 [simp]: "receive read_u8 k (advance (b # rest) c) = k b (advance rest c)"
  using receive_reads [OF reads_u8, of k b rest c] by simp

lemmas receive_simps [simp] =
  receive_reads [OF reads_u16] receive_reads [OF reads_u32] receive_reads [OF reads_position]

lemma receive_str [simp]:
  "str_ok str \<Longrightarrow> receive read_str k (advance (string_to_bytes str @ rest) c) = k str (advance rest c)"
  by (rule receive_reads [OF str_codec.decodes])

lemma advance_simps [simp]:
  "set_game f (advance bytes c) = advance bytes (set_game f c)"
  "advance bytes (advance bytes' c) = advance bytes c"
  "game (advance bytes c) = game c" "lobby (advance bytes c) = lobby c"
  "known_scores (advance bytes c) = known_scores c"
  "(advance bytes c)\<lparr>lobby := l\<rparr> = advance bytes (c\<lparr>lobby := l\<rparr>)"
  "(advance bytes c)\<lparr>game := g\<rparr> = advance bytes (c\<lparr>game := g\<rparr>)"
  "(advance bytes c)\<lparr>is_lobby_status := s\<rparr> = advance bytes (c\<lparr>is_lobby_status := s\<rparr>)"
  by (simp_all add: advance_def set_game_def)

text \<open>An operation on the game alone, lifted to the client.\<close>

definition lift_game :: "(game_info \<Rightarrow> game_info res) \<Rightarrow> client \<Rightarrow> client res" where
  "lift_game f c = and_then (f (game c)) (\<lambda>g. Inr (c\<lparr>game := g\<rparr>))"

lemma for_each_lift: "for_each (\<lambda>x. lift_game (f x)) xs c = lift_game (for_each f xs) c"
proof (induction xs arbitrary: c)
  case (Cons x xs)
  show ?case
    by (cases "f x (game c)") (simp_all add: Cons.IH [unfolded lift_game_def] lift_game_def)
qed (simp add: lift_game_def)

lemma for_each_destroy: "for_each destroy_robot robots c = lift_game (for_each destroy_player robots) c"
proof -
  have eq: "destroy_robot = (\<lambda>r. lift_game (destroy_player r))"
    by (intro ext) (simp add: destroy_robot_def lift_game_def)
  show ?thesis unfolding eq by (rule for_each_lift)
qed

lemma lift_game_advance:
  "lift_game f (advance bytes c) = and_then (lift_game f c) (\<lambda>c. Inr (advance bytes c))"
  by (cases "f (game c)") (simp_all add: lift_game_def)

lemma read_event_refines:
  assumes "event_ok ev"
  shows "read_event (advance (event_to_bytes ev @ rest) c) = lift_game (apply_event ev) (advance rest c)"
proof (cases ev)
  case (Bomb_placed_event i pos)
  then show ?thesis by (simp add: read_event_def read_bomb_placed_def lift_game_def set_game_def del: event_byte.simps)
next
  case (Bomb_exploded_event i robots blocks)
  then have len: "length robots < 4294967296" "length blocks < 4294967296" using assms by simp_all
  let ?rs = "inorder (fold (set_insert (<)) robots Leaf)"
  show ?thesis
    using Bomb_exploded_event
    by (cases "for_each destroy_player ?rs (remove_bomb i (game c))")
      (simp_all add: read_event_def read_bomb_exploded_def for_each_destroy lift_game_def set_game_def
        receive_reads [OF reads_player_id_list [OF len(1)]] receive_reads [OF reads_position_list [OF len(2)]]
        receive_reads [OF reads_position_list [OF len(2)], where rest = rest] and_then_assoc
        del: event_byte.simps)
next
  case (Player_moved_event i pos)
  then show ?thesis by (simp add: read_event_def read_player_moved_def lift_game_def set_game_def del: event_byte.simps)
next
  case (Block_placed_event pos)
  then show ?thesis by (simp add: read_event_def read_block_placed_def lift_game_def set_game_def del: event_byte.simps)
qed

lemma read_events_refine:
  assumes "list_all event_ok evs"
  shows "for_each (\<lambda>i. read_event) [k..<k + length evs] (advance (concat (map event_to_bytes evs) @ rest) c)
    = lift_game (for_each apply_event evs) (advance rest c)"
  using assms
proof (induction evs arbitrary: c k)
  case (Cons ev evs)
  then have ev: "read_event (advance (event_to_bytes ev @ concat (map event_to_bytes evs) @ rest) c) =
      lift_game (apply_event ev) (advance (concat (map event_to_bytes evs) @ rest) c)"
    by (simp add: read_event_refines)
  have IH: "for_each (\<lambda>i. read_event) [Suc k..<Suc (k + length evs)]
      (advance (concat (map event_to_bytes evs) @ rest) (c\<lparr>game := g\<rparr>))
      = lift_game (for_each apply_event evs) (advance rest (c\<lparr>game := g\<rparr>))" for g
    using Cons.IH [of "Suc k"] Cons.prems by simp
  show ?case
    by (cases "apply_event ev (game c)") (simp_all add: upt_rec [of k] ev IH lift_game_def del: upt_Suc)
qed (simp add: lift_game_def advance_def)

lemma read_turn_refines:
  assumes "list_all event_ok (events t)" and "length (events t) < 4294967296"
  shows "read_turn (advance (uint16_to_bytes (turn t) @ counted_to_bytes event_to_bytes (events t) @ rest) c)
    = lift_game (apply_turn t) (advance rest c)"
  using read_events_refine [OF assms(1), of 0] assms(2)
  by (simp add: read_turn_def read_event_list_def counted_to_bytes_def unat_of_nat_small
      lift_game_def set_game_def apply_turn_def)

lemma handle_code:
  "handle_server_message t sent (advance (server_code m # bytes) c) =
     (case m of
        Hello \<Rightarrow> handle_hello_msg sent
      | AcceptedPlayer \<Rightarrow> handle_accepted_player_msg sent
      | GameStarted \<Rightarrow> handle_game_started_msg t
      | Turn \<Rightarrow> handle_turn_message sent
      | GameEnded \<Rightarrow> handle_game_ended_msg sent) (advance bytes c)"
  by (simp add: handle_server_message_def del: server_code.simps)

lemma send_gui_advance [simp]:
  "send_gui_message sent msg (advance bytes c) =
     and_then (send_gui_message sent msg c) (\<lambda>c. Inr (advance bytes c))"
  by (simp add: send_gui_message_def advance_def)

text \<open>Applying a message does not depend on the unread bytes.\<close>

lemma handle_message_refines:
  assumes "message_ok m"
  shows "handle_server_message t sent (advance (message_bytes m @ rest) c) = apply_message t sent m (advance rest c)"
proof (cases m)
  case (Hello_message p)
  then show ?thesis
    using assms
    by (simp add: hello_msg_def handle_code handle_hello_msg_def read_hello_def lobby_of_def del: server_code.simps)
next
  case (Accepted_message i p)
  then show ?thesis
    using assms
    by (cases p) (simp add: accepted_player_msg_def handle_code handle_accepted_player_msg_def
        read_accepted_player_def player_to_bytes_def player_ok_def Let_def del: server_code.simps)
next
  case (Started_message ps)
  then have r: "reads read_players_map (player_map_to_bytes ps) ps"
    using assms by (simp add: reads_players_map)
  let ?g = "new_game_info t (li_server_name (lobby c)) (li_size_x (lobby c)) (li_size_y (lobby c))
    (li_game_length (lobby c)) (li_players (lobby c)) (li_bomb_timer (lobby c)) (known_scores c)"
  show ?thesis
    using Started_message
    by (cases ?g) (simp_all add: handle_code handle_game_started_msg_def read_game_started_def
        receive_reads [OF r] del: server_code.simps)
next
  case (Turn_message ti)
  then have "handle_server_message t sent (advance (message_bytes m @ rest) c) =
      and_then (lift_game (apply_turn ti) (advance rest c)) (\<lambda>c. send_gui_message sent (game_message (game c)) c)"
    using assms
    by (simp add: turn_info_to_bytes_counted handle_code handle_turn_message_def read_turn_refines
        del: server_code.simps)
  then show ?thesis
    using Turn_message by (cases "apply_turn ti (game c)") (simp_all add: lift_game_def)
next
  case (Ended_message sc)
  then have r: "reads read_scores_map (score_map_to_bytes sc) sc"
    using assms by (simp add: reads_scores_map)
  show ?thesis
    using Ended_message
    by (simp add: handle_code handle_game_ended_msg_def read_game_ended_def receive_reads [OF r] Let_def
        del: server_code.simps)
qed

lemma handle_after_load:
  assumes "read_if_buf_empty (rd c) = Inr r"
  shows "handle_server_message t sent c = handle_server_message t sent (c\<lparr>rd := r\<rparr>)"
proof -
  have "read_if_buf_empty r = Inr r" using read_if_buf_empty_filled [OF assms] by simp
  with assms show ?thesis by (simp add: handle_server_message_def receive_def read_u8_def)
qed

text \<open>The buffer once a round has begun: what is left in it, or the next bytes received.\<close>

lemma handle_front:
  assumes "read_if_buf_empty (rd c) = Inr r" and "cur_buf r = message_bytes m @ rest" and "message_ok m"
  shows "handle_server_message t sent c = apply_message t sent m (advance rest (c\<lparr>rd := r\<rparr>))"
proof -
  have "c\<lparr>rd := r\<rparr> = advance (message_bytes m @ rest) (c\<lparr>rd := r\<rparr>)"
    using assms(2) by (simp add: advance_def)
  with handle_message_refines [OF assms(3)] handle_after_load [OF assms(1)] show ?thesis by metis
qed

subsection \<open>A run through the stream\<close>

text \<open>
  What a message means does not depend on the reader; so as long as every piece that arrives holds whole
  messages, a round for each message does what the messages mean, one after the other.
\<close>

lemma apply_message_rd:
  "apply_message t sent m (rd_update f c) = and_then (apply_message t sent m c) (\<lambda>c. Inr (rd_update f c))"
proof (cases m)
  case (Started_message ps)
  let ?g = "new_game_info t (li_server_name (lobby c)) (li_size_x (lobby c)) (li_size_y (lobby c))
    (li_game_length (lobby c)) (li_players (lobby c)) (li_bomb_timer (lobby c)) (known_scores c)"
  show ?thesis using Started_message by (cases ?g) simp_all
next
  case (Turn_message ti)
  then show ?thesis by (cases "apply_turn ti (game c)") (simp_all add: send_gui_message_def)
qed (simp_all add: send_gui_message_def Let_def)

lemma for_each_rd:
  "for_each (apply_message t sent) ms (rd_update f c)
    = and_then (for_each (apply_message t sent) ms c) (\<lambda>c. Inr (rd_update f c))"
proof (induction ms arbitrary: c)
  case (Cons m ms)
  show ?case
    using apply_message_rd [of t sent m f c] Cons.IH
    by (cases "apply_message t sent m c") (simp_all del: apply_message.simps)
qed simp

lemma advance_update: "advance bytes = rd_update (cur_buf_update (\<lambda>_. bytes))"
  by (simp add: advance_def fun_eq_iff)

lemma rounds_in_buffer:
  assumes "list_all message_ok ms"
  shows "for_each (\<lambda>m. handle_server_message t sent) ms (advance (concat (map message_bytes ms) @ rest) c)
    = and_then (for_each (apply_message t sent) ms c) (\<lambda>c. Inr (advance rest c))"
  using assms
proof (induction ms arbitrary: c)
  case (Cons m ms)
  let ?rest = "concat (map message_bytes ms) @ rest"
  have "message_ok m" using Cons.prems by simp
  then have step: "handle_server_message t sent (advance (message_bytes m @ ?rest) c)
      = and_then (apply_message t sent m c) (\<lambda>c. Inr (advance ?rest c))"
    by (simp only: handle_message_refines) (simp only: advance_update apply_message_rd)
  have IH: "for_each (\<lambda>m. handle_server_message t sent) ms (advance ?rest c1)
      = and_then (for_each (apply_message t sent) ms c1) (\<lambda>c. Inr (advance rest c))" for c1
    using Cons.IH [of c1] Cons.prems by simp
  show ?case
    using step IH by (cases "apply_message t sent m c") (simp_all del: apply_message.simps)
qed simp

text \<open>The pieces of a stream: \<open>mss\<close> are the messages of each.\<close>

definition pieces :: "server_message list list \<Rightarrow> byte list list" where
  "pieces mss = map (\<lambda>ms. concat (map message_bytes ms)) mss"

lemma message_bytes_not_Nil: "message_bytes m \<noteq> []"
  by (cases m) (simp_all add: hello_msg_def accepted_player_msg_def turn_info_to_bytes_def)

text \<open>The messages at the front of a piece; what follows them stays in the buffer.\<close>

lemma rounds_of_piece:
  assumes "list_all message_ok ms" and "ms \<noteq> []" and "length (concat (map message_bytes ms) @ tail) \<le> BUFFER_SIZE"
    and "cur_buf (rd c) = []" and "incoming (rd c) = (concat (map message_bytes ms) @ tail) # later"
  shows "for_each (\<lambda>m. handle_server_message t sent) ms c
    = and_then (for_each (apply_message t sent) ms c)
        (\<lambda>c'. Inr (rd_update (\<lambda>r. r\<lparr>cur_buf := tail, incoming := later\<rparr>) c'))"
proof -
  let ?f = "\<lambda>m. handle_server_message t sent" and ?a = "apply_message t sent"
  let ?next = "incoming_update (\<lambda>_. later)" and ?bytes = "concat (map message_bytes ms)"
  from assms(2) obtain m ms' where ms: "ms = m # ms'" by (cases ms) auto
  have load: "read_if_buf_empty (rd c) = Inr (cur_buf_update (\<lambda>_. ?bytes @ tail) (?next (rd c)))"
    using assms(3-5) message_bytes_not_Nil [of m] read_if_buf_empty_piece [of "rd c" "?bytes @ tail" later]
    by (auto simp: ms)
  have start: "c\<lparr>rd := cur_buf_update (\<lambda>_. ?bytes @ tail) (?next (rd c))\<rparr> = advance (?bytes @ tail) (rd_update ?next c)"
    by (simp add: advance_def)
  have "for_each ?f ms c = for_each ?f ms (advance (?bytes @ tail) (rd_update ?next c))"
    using handle_after_load [OF load, of t sent, unfolded start] by (simp add: ms)
  also have "\<dots> = and_then (for_each ?a ms (rd_update ?next c)) (\<lambda>c. Inr (advance tail c))"
    by (rule rounds_in_buffer [OF assms(1)])
  also have "\<dots> = and_then (for_each ?a ms c) (\<lambda>c'. Inr (advance tail (rd_update ?next c')))"
    by (simp add: for_each_rd and_then_assoc comp_def)
  also have "(\<lambda>c'. Inr (advance tail (rd_update ?next c')))
      = (\<lambda>c'. Inr (rd_update (\<lambda>r. r\<lparr>cur_buf := tail, incoming := later\<rparr>) c'))"
  proof (rule ext)
    show "Inr (advance tail (rd_update ?next c')) = Inr (rd_update (\<lambda>r. r\<lparr>cur_buf := tail, incoming := later\<rparr>) c')" for c'
      by (cases c'; cases "rd c'") (simp add: advance_def)
  qed
  finally show ?thesis .
qed

lemma rounds_over_pieces:
  assumes "list_all (list_all message_ok) mss" and "[] \<notin> set mss"
    and "list_all (\<lambda>piece. length piece \<le> BUFFER_SIZE) (pieces mss)"
    and "cur_buf (rd c) = []" and "incoming (rd c) = pieces mss @ later"
  shows "for_each (\<lambda>m. handle_server_message t sent) (concat mss) c
    = and_then (for_each (apply_message t sent) (concat mss) c)
        (\<lambda>c'. Inr (rd_update (incoming_update (\<lambda>_. later)) c'))"
  using assms
proof (induction mss arbitrary: c)
  case Nil
  then have "rd_update (incoming_update (\<lambda>_. later)) c = c" by (simp add: pieces_def)
  then show ?case by simp
next
  case (Cons ms mss)
  let ?f = "\<lambda>m. handle_server_message t sent" and ?a = "apply_message t sent"
  let ?next = "incoming_update (\<lambda>_. pieces mss @ later)"
  have ms: "list_all message_ok ms" "ms \<noteq> []" "length (concat (map message_bytes ms) @ []) \<le> BUFFER_SIZE"
      "incoming (rd c) = (concat (map message_bytes ms) @ []) # pieces mss @ later"
    using Cons.prems by (auto simp: pieces_def)
  have keep: "for_each ?a ms c = Inr c1 \<Longrightarrow> rd c1 = rd c" for c1
    using for_each_rd [of t sent ms "\<lambda>_. rd c" c] by (cases c1) auto
  have first: "for_each ?f ms c = and_then (for_each ?a ms c) (\<lambda>c'. Inr (rd_update ?next c'))"
  proof (cases "for_each ?a ms c")
    case (Inr c1)
    then have "rd_update (\<lambda>r. r\<lparr>cur_buf := [], incoming := pieces mss @ later\<rparr>) c1 = rd_update ?next c1"
      using keep [OF Inr] Cons.prems(4) by simp
    with Inr rounds_of_piece [OF ms(1-3) Cons.prems(4) ms(4), of t sent] show ?thesis by simp
  qed (simp add: rounds_of_piece [OF ms(1-3) Cons.prems(4) ms(4), of t sent])
  show ?case
  proof (cases "for_each ?a ms c")
    case (Inl e)
    with first show ?thesis by (simp add: for_each_append del: apply_message.simps)
  next
    case (Inr c1)
    let ?c1 = "rd_update ?next c1"
    have "for_each ?f (concat mss) ?c1 = and_then (for_each ?a (concat mss) ?c1)
        (\<lambda>c'. Inr (rd_update (incoming_update (\<lambda>_. later)) c'))"
      using Cons.prems keep [OF Inr] by (intro Cons.IH) (simp_all add: pieces_def)
    also have "\<dots> = and_then (for_each ?a (concat mss) c1) (\<lambda>c'. Inr (rd_update (incoming_update (\<lambda>_. later)) c'))"
      by (simp add: for_each_rd and_then_assoc comp_def)
    finally show ?thesis using Inr first by (simp add: for_each_append del: apply_message.simps)
  qed
qed

text \<open>A front part of the messages of a stream, which may end within a piece.\<close>

lemma concat_split:
  assumes "concat mss = xs @ ys" and "xs \<noteq> []"
  shows "\<exists>mss1 ms1 ms2 mss2. mss = mss1 @ (ms1 @ ms2) # mss2 \<and> xs = concat mss1 @ ms1 \<and> ms1 \<noteq> []"
  using assms
proof (induction mss arbitrary: xs)
  case (Cons ms mss)
  have "ms @ concat mss = xs @ ys" using Cons.prems(1) by simp
  then obtain us where "ms = xs @ us \<or> xs = ms @ us \<and> concat mss = us @ ys"
    unfolding append_eq_append_conv2 by auto
  then have "ms = xs @ us \<or> xs = ms @ us \<and> us \<noteq> [] \<and> concat mss = us @ ys" by (cases "us = []") auto
  then show ?case
  proof (elim disjE conjE)
    assume "ms = xs @ us"
    with Cons.prems(2) show ?thesis by (intro exI [of _ "[]"] exI [of _ xs] exI [of _ us] exI [of _ mss]) simp
  next
    assume us: "xs = ms @ us" "us \<noteq> []" "concat mss = us @ ys"
    from Cons.IH [OF us(3,2)] obtain mss1 ms1 ms2 mss2 where
      "mss = mss1 @ (ms1 @ ms2) # mss2" "us = concat mss1 @ ms1" "ms1 \<noteq> []" by blast
    with us(1) show ?thesis
      by (intro exI [of _ "ms # mss1"] exI [of _ ms1] exI [of _ ms2] exI [of _ mss2]) simp
  qed
qed simp

lemma rounds_over_front:
  assumes ok: "list_all (list_all message_ok) mss" and full: "[] \<notin> set mss"
    and small: "list_all (\<lambda>piece. length piece \<le> BUFFER_SIZE) (pieces mss)"
    and buf: "cur_buf (rd c) = []" and inc: "incoming (rd c) = pieces mss @ later"
    and front: "concat mss = xs @ ys" "xs \<noteq> []"
  shows "\<exists>f. for_each (\<lambda>m. handle_server_message t sent) xs c
    = and_then (for_each (apply_message t sent) xs c) (\<lambda>c'. Inr (rd_update f c'))"
proof -
  let ?f = "\<lambda>m. handle_server_message t sent" and ?a = "apply_message t sent"
  obtain mss1 ms1 ms2 mss2 where mss: "mss = mss1 @ (ms1 @ ms2) # mss2" "xs = concat mss1 @ ms1" "ms1 \<noteq> []"
    using concat_split [OF front] by blast
  let ?tail = "concat (map message_bytes ms2)" and ?later = "pieces mss2 @ later"
  let ?piece = "concat (map message_bytes ms1) @ ?tail"
  let ?g = "\<lambda>r. r\<lparr>cur_buf := ?tail, incoming := ?later\<rparr>"
  have one: "for_each ?f (concat mss1) c = and_then (for_each ?a (concat mss1) c)
      (\<lambda>c'. Inr (rd_update (incoming_update (\<lambda>_. ?piece # ?later)) c'))"
    using ok full small buf inc by (intro rounds_over_pieces) (auto simp: mss(1) pieces_def)
  have "for_each ?f xs c = and_then (for_each ?a xs c) (\<lambda>c'. Inr (rd_update ?g c'))"
  proof (cases "for_each ?a (concat mss1) c")
    case (Inr c1)
    have "rd c1 = rd c" using for_each_rd [of t sent "concat mss1" "\<lambda>_. rd c" c] Inr by (cases c1) auto
    then have "for_each ?f ms1 (rd_update (incoming_update (\<lambda>_. ?piece # ?later)) c1)
        = and_then (for_each ?a ms1 (rd_update (incoming_update (\<lambda>_. ?piece # ?later)) c1)) (\<lambda>c'. Inr (rd_update ?g c'))"
      using ok small buf mss(3) by (intro rounds_of_piece) (auto simp: mss(1) pieces_def)
    also have "\<dots> = and_then (for_each ?a ms1 c1) (\<lambda>c'. Inr (rd_update ?g c'))"
      by (simp add: for_each_rd and_then_assoc comp_def)
    finally show ?thesis using one Inr by (simp add: mss(2) for_each_append del: apply_message.simps)
  qed (simp add: one mss(2) for_each_append)
  then show ?thesis by blast
qed

end
