(* ===== verification/Blast.thy ===== *)
theory Blast
  imports Engine
begin

text \<open>
  What an explosion hits. The specification says of a position that the blast reaches it when it is
  the bomb's, or is on the board in one of the four directions, at most the radius away, with no block
  and no edge before it. The loop of \<open>handle_explosion\<close>, which advances the four directions together
  with a flag each, is shown to visit exactly these cells, and to end unless the radius is 65535. The cells are the cross of the
  rules of the game, in natural numbers.
\<close>

subsection \<open>The specification\<close>

definition is_block :: "game_engine \<Rightarrow> position \<Rightarrow> bool" where
  "is_block e pos \<longleftrightarrow> pos_count (blocks_positions e) pos = 1"

definition open_cell :: "game_engine \<Rightarrow> position \<Rightarrow> bool" where
  "open_cell e pos \<longleftrightarrow> check_position e pos \<and> \<not> is_block e pos"

text \<open>The cell \<open>k\<close> steps away in each direction, in the order of the loop body.\<close>

definition directions :: "position \<Rightarrow> (nat \<Rightarrow> position) list" where
  "directions c =
     [\<lambda>k. Position (pos_x c) (pos_y c - of_nat k), \<lambda>k. Position (pos_x c) (pos_y c + of_nat k),
      \<lambda>k. Position (pos_x c - of_nat k) (pos_y c), \<lambda>k. Position (pos_x c + of_nat k) (pos_y c)]"

definition clear_before :: "game_engine \<Rightarrow> (nat \<Rightarrow> position) \<Rightarrow> nat \<Rightarrow> bool" where
  "clear_before e f k \<longleftrightarrow> list_all (\<lambda>j. open_cell e (f j)) [1..<k]"

definition in_blast :: "game_engine \<Rightarrow> position \<Rightarrow> nat \<Rightarrow> position \<Rightarrow> bool" where
  "in_blast e c r pos \<longleftrightarrow>
     pos = c \<or>
     (\<not> is_block e c \<and>
      (\<exists>f \<in> set (directions c). \<exists>k \<in> {1..r}.
         pos = f k \<and> check_position e pos \<and> clear_before e f k))"

subsection \<open>The cells in the order they are visited\<close>

definition reached :: "game_engine \<Rightarrow> nat \<Rightarrow> (nat \<Rightarrow> position) \<Rightarrow> position list" where
  "reached e k f = (if clear_before e f k \<and> check_position e (f k) then [f k] else [])"

definition round_cells :: "game_engine \<Rightarrow> position \<Rightarrow> nat \<Rightarrow> position list" where
  "round_cells e c k = concat (map (reached e k) (directions c))"

definition blast_cells :: "game_engine \<Rightarrow> position \<Rightarrow> nat \<Rightarrow> position list" where
  "blast_cells e c n = concat (map (round_cells e c) [1..<Suc n])"

lemma set_blast_cells:
  "pos \<in> set (blast_cells e c n) \<longleftrightarrow>
     (\<exists>f \<in> set (directions c). \<exists>k \<in> {1..n}. pos = f k \<and> check_position e pos \<and> clear_before e f k)"
  by (auto simp: blast_cells_def round_cells_def reached_def less_Suc_eq_le simp del: upt_Suc
      split: if_splits; force)

lemma in_blast_cells:
  "in_blast e c r pos \<longleftrightarrow> pos = c \<or> \<not> is_block e c \<and> pos \<in> set (blast_cells e c r)"
  unfolding in_blast_def set_blast_cells by blast

lemma clear_before_Suc:
  "clear_before e f (Suc (Suc n)) \<longleftrightarrow> clear_before e f (Suc n) \<and> open_cell e (f (Suc n))"
  by (simp add: clear_before_def)

lemma clear_before_1 [simp]: "clear_before e f (Suc 0)"
  by (simp add: clear_before_def)

subsection \<open>The effect of visiting cells\<close>

definition robots_at :: "game_engine \<Rightarrow> position \<Rightarrow> player_id list" where
  "robots_at e pos = map fst (filter (\<lambda>(p, q). q = pos) (players_positions e))"

definition robots_in :: "game_engine \<Rightarrow> position list \<Rightarrow> player_id list" where
  "robots_in e cells = concat (map (robots_at e) cells)"

text \<open>The state \<open>b'\<close> is \<open>b\<close> after the cells were struck, whatever the flags and the counter are.\<close>

definition struck :: "game_engine \<Rightarrow> position list \<Rightarrow> explosion \<Rightarrow> explosion \<Rightarrow> bool" where
  "struck e cells b b' \<longleftrightarrow>
     robots_destroyed b' = robots_destroyed b @ robots_in e cells \<and>
     blocks_destroyed b' = blocks_destroyed b @ filter (is_block e) cells \<and>
     to_destroy b' = fold (set_insert (<)) (robots_in e cells) (to_destroy b) \<and>
     to_erase b' = to_erase b @ filter (is_block e) cells"

lemma struck_Nil [simp]: "struck e [] b b"
  by (simp add: struck_def robots_in_def)

lemma struck_append: "struck e xs b b1 \<Longrightarrow> struck e ys b1 b2 \<Longrightarrow> struck e (xs @ ys) b b2"
  by (simp add: struck_def robots_in_def)

lemma struck_flags [simp]:
  "struck e cells b (b'\<lparr>go_up := u, go_down := d, go_left := l, go_right := r, ex_i := i\<rparr>)
     \<longleftrightarrow> struck e cells b b'"
  by (simp add: struck_def)

lemma strike_robots_fold:
  "fold (\<lambda>(p, q) b. if position_eq q pos
       then b\<lparr>robots_destroyed := robots_destroyed b @ [p], to_destroy := set_insert (<) p (to_destroy b)\<rparr>
       else b) m b =
   b\<lparr>robots_destroyed := robots_destroyed b @ map fst (filter (\<lambda>(p, q). q = pos) m),
     to_destroy := fold (set_insert (<)) (map fst (filter (\<lambda>(p, q). q = pos) m)) (to_destroy b)\<rparr>"
  by (induction m arbitrary: b) auto

lemma strike_robots_eq:
  "strike_robots e pos b =
     b\<lparr>robots_destroyed := robots_destroyed b @ robots_at e pos,
       to_destroy := fold (set_insert (<)) (robots_at e pos) (to_destroy b)\<rparr>"
  unfolding strike_robots_def strike_robots_fold robots_at_def by (rule refl)

lemma strike_cell_struck:
  "fst (strike_cell e pos b) = is_block e pos \<and> struck e [pos] b (snd (strike_cell e pos b))"
  by (simp add: strike_cell_def strike_robots_eq struck_def robots_in_def is_block_def Let_def)

lemma strike_cell_frame:
  "go_up (snd (strike_cell e pos b)) = go_up b \<and> go_down (snd (strike_cell e pos b)) = go_down b \<and>
   go_left (snd (strike_cell e pos b)) = go_left b \<and> go_right (snd (strike_cell e pos b)) = go_right b \<and>
   ex_i (snd (strike_cell e pos b)) = ex_i b"
  by (simp add: strike_cell_def strike_robots_eq Let_def)

text \<open>One direction of one round, once its flag says whether the way is clear.\<close>

lemma strike_step:
  assumes "strike e (f k) (clear_before e f k) b = (go', b')" and "k = Suc n"
  shows "go' = clear_before e f (Suc k) \<and> struck e (reached e k f) b b'"
  using assms strike_cell_struck [of e "f k" b]
  by (auto simp: strike_def reached_def clear_before_Suc open_cell_def split: if_splits prod.splits)

lemma explosion_round_step:
  fixes c :: position
  assumes k: "k = Suc n" and i: "ex_i b = of_nat k"
    and go: "[go_down b, go_up b, go_left b, go_right b] = map (\<lambda>f. clear_before e f k) (directions c)"
    and b': "b' = explosion_round e (pos_x c) (pos_y c) b"
  shows "ex_i b' = of_nat (Suc k)
    \<and> [go_down b', go_up b', go_left b', go_right b'] = map (\<lambda>f. clear_before e f (Suc k)) (directions c)
    \<and> struck e (round_cells e c k) b b'"
proof -
  obtain fd fu fl fr where dirs: "directions c = [fd, fu, fl, fr]"
    and at: "fd k = Position (pos_x c) (pos_y c - ex_i b)" "fu k = Position (pos_x c) (pos_y c + ex_i b)"
      "fl k = Position (pos_x c - ex_i b) (pos_y c)" "fr k = Position (pos_x c + ex_i b) (pos_y c)"
    using i by (simp add: directions_def)
  obtain d b1 where d: "strike e (fd k) (clear_before e fd k) b = (d, b1)" by fastforce
  obtain u b2 where u: "strike e (fu k) (clear_before e fu k) b1 = (u, b2)" by fastforce
  obtain l b3 where l: "strike e (fl k) (clear_before e fl k) b2 = (l, b3)" by fastforce
  obtain r b4 where r: "strike e (fr k) (clear_before e fr k) b3 = (r, b4)" by fastforce
  have b'_eq: "b' = b4\<lparr>go_up := u, go_down := d, go_left := l, go_right := r, ex_i := ex_i b + 1\<rparr>"
    using go d u l r by (simp add: b' explosion_round_def Let_def dirs at)
  have "struck e (reached e k fd @ reached e k fu @ reached e k fl @ reached e k fr) b b4"
    using strike_step [OF d k] strike_step [OF u k] strike_step [OF l k] strike_step [OF r k]
    by (blast intro: struck_append)
  with strike_step [OF d k] strike_step [OF u k] strike_step [OF l k] strike_step [OF r k]
  show ?thesis by (simp add: b'_eq i dirs round_cells_def add.commute)
qed

subsection \<open>The loop\<close>

definition loop_inv :: "game_engine \<Rightarrow> position \<Rightarrow> explosion \<Rightarrow> explosion \<Rightarrow> bool" where
  "loop_inv e c b0 b \<longleftrightarrow>
     (\<exists>n \<le> unat (explosion_radius (game_params e)).
        ex_i b = of_nat (Suc n) \<and>
        [go_down b, go_up b, go_left b, go_right b]
          = map (\<lambda>f. clear_before e f (Suc n)) (directions c) \<and>
        struck e (blast_cells e c n) b0 b)"

lemma loop_inv_start:
  assumes "ex_i b = 1" and "go_up b \<and> go_down b \<and> go_left b \<and> go_right b"
  shows "loop_inv e c b b"
  unfolding loop_inv_def
  by (rule exI [of _ 0]) (simp add: assms directions_def blast_cells_def)

lemma blast_cells_Suc: "blast_cells e c (Suc n) = blast_cells e c n @ round_cells e c (Suc n)"
  by (simp add: blast_cells_def)

lemma loop_inv_step:
  assumes "loop_inv e c b0 b" and guard: "ex_i b \<le> explosion_radius (game_params e)"
    and small: "explosion_radius (game_params e) \<noteq> -1"
  shows "loop_inv e c b0 (explosion_round e (pos_x c) (pos_y c) b) \<and>
    unat (ex_i (explosion_round e (pos_x c) (pos_y c) b)) = Suc (unat (ex_i b))"
proof -
  let ?r = "explosion_radius (game_params e)" and ?b' = "explosion_round e (pos_x c) (pos_y c) b"
  from assms(1) obtain n where n: "n \<le> unat ?r" and i: "ex_i b = of_nat (Suc n)"
    and go: "[go_down b, go_up b, go_left b, go_right b]
      = map (\<lambda>f. clear_before e f (Suc n)) (directions c)"
    and st: "struck e (blast_cells e c n) b0 b"
    by (auto simp: loop_inv_def)
  have r: "unat ?r < 65535"
    using small by (simp add: unat_u16_max)
  with n have "unat (ex_i b) = Suc n"
    unfolding i by (subst unat_of_nat_small) simp_all
  with guard have le: "Suc n \<le> unat ?r" by (simp add: word_le_nat_alt)
  with r have "unat (of_nat (Suc (Suc n)) :: u16) = Suc (Suc n)"
    by (subst unat_of_nat_small) simp_all
  with explosion_round_step [OF refl i go refl] le st \<open>unat (ex_i b) = Suc n\<close>
  show ?thesis
    unfolding loop_inv_def
    by (auto intro!: exI [of _ "Suc n"] intro: struck_append simp: blast_cells_Suc)
qed

lemma explosion_loop_ends:
  assumes "explosion_radius (game_params e) \<noteq> -1" and "ex_i b = 1"
    and "go_up b \<and> go_down b \<and> go_left b \<and> go_right b"
  shows "\<exists>b'. explosion_loop e (pos_x c) (pos_y c) b = Some b' \<and>
    struck e (blast_cells e c (unat (explosion_radius (game_params e)))) b b'"
proof -
  let ?r = "explosion_radius (game_params e)"
  have "\<exists>b'. explosion_loop e (pos_x c) (pos_y c) b = Some b'"
    unfolding explosion_loop_def
  proof (rule measure_while_option_Some [where P = "loop_inv e c b" and f = "\<lambda>b. Suc (unat ?r) - unat (ex_i b)"])
    fix s assume s: "loop_inv e c b s" "ex_i s \<le> ?r"
    from loop_inv_step [OF this assms(1)] s(2)
    show "loop_inv e c b (explosion_round e (pos_x c) (pos_y c) s) \<and>
        Suc (unat ?r) - unat (ex_i (explosion_round e (pos_x c) (pos_y c) s)) < Suc (unat ?r) - unat (ex_i s)"
      by (auto simp: word_le_nat_alt)
  qed (rule loop_inv_start [OF assms(2,3)])
  then obtain b' where b': "explosion_loop e (pos_x c) (pos_y c) b = Some b'" ..
  have "loop_inv e c b b'"
    using b' unfolding explosion_loop_def
    by (rule while_option_rule [where P = "loop_inv e c b", rotated])
      (use loop_inv_step [OF _ _ assms(1)] loop_inv_start [OF assms(2,3)] in auto)
  moreover have "\<not> ex_i b' \<le> ?r"
    using b' unfolding explosion_loop_def by (rule while_option_stop)
  ultimately obtain n where n: "n \<le> unat ?r" "ex_i b' = of_nat (Suc n)"
      "struck e (blast_cells e c n) b b'" and gt: "\<not> ex_i b' \<le> ?r"
    by (auto simp: loop_inv_def)
  have "n = unat ?r"
  proof (rule ccontr)
    assume "n \<noteq> unat ?r"
    with n(1) have lt: "Suc n \<le> unat ?r" by simp
    then have "unat (ex_i b') = Suc n"
      unfolding n(2) using unat_bounds(2) [of ?r] by (subst unat_of_nat_small) simp_all
    with lt gt show False by (simp add: word_le_nat_alt)
  qed
  with n b' show ?thesis by blast
qed

text \<open>With radius 65535 the 16-bit counter never exceeds the bound.\<close>

lemma explosion_loop_diverges:
  assumes "explosion_radius (game_params e) = -1"
  shows "explosion_loop e x y b = None"
  using assms by (simp add: explosion_loop_def while_option_def)

subsection \<open>What an explosion does to the engine\<close>

definition struck_cells :: "game_engine \<Rightarrow> position \<Rightarrow> position list" where
  "struck_cells e c =
     c # (if is_block e c then [] else blast_cells e c (unat (explosion_radius (game_params e))))"

definition after_explosion :: "bomb_id \<Rightarrow> position \<Rightarrow> game_engine \<Rightarrow> game_engine" where
  "after_explosion i c e =
     (let cells = struck_cells e c; hit = robots_in e cells; blocks = filter (is_block e) cells
      in e\<lparr>current_players_to_destroy := fold (set_insert (<)) hit (current_players_to_destroy e),
           current_blocks_to_erase := current_blocks_to_erase e @ blocks,
           turns := (turns e)[unat (current_turn e) :=
             add_event (Bomb_exploded_event i hit blocks) (turns e ! unat (current_turn e))]\<rparr>)"

lemma handle_explosion_eq:
  assumes small: "explosion_radius (game_params e) \<noteq> -1" and turn: "unat (current_turn e) < length (turns e)"
  shows "handle_explosion i bomb e = Inr (after_explosion i (bomb_position bomb) e)"
proof -
  let ?c = "bomb_position bomb"
  obtain was_block b where b: "strike_cell e ?c (explosion_start e) = (was_block, b)" by fastforce
  with strike_cell_struck [of e ?c "explosion_start e"]
  have was_block: "was_block = is_block e ?c" and st: "struck e [?c] (explosion_start e) b"
    by simp_all
  have flags: "ex_i b = 1" "go_up b \<and> go_down b \<and> go_left b \<and> go_right b"
    using strike_cell_frame [of e ?c "explosion_start e"] b by (simp_all add: explosion_start_def)
  obtain b' where b': "(if was_block then Some b else explosion_loop e (pos_x ?c) (pos_y ?c) b) = Some b'"
    and st': "struck e (struck_cells e ?c) (explosion_start e) b'"
  proof (cases was_block)
    case True
    with st was_block that show ?thesis by (simp add: struck_cells_def)
  next
    case False
    with explosion_loop_ends [OF small flags, of ?c] was_block st that show ?thesis
      by (auto simp: struck_cells_def dest: struck_append)
  qed
  from st' have "robots_destroyed b' = robots_in e (struck_cells e ?c)"
      "blocks_destroyed b' = filter (is_block e) (struck_cells e ?c)"
      "to_destroy b' = fold (set_insert (<)) (robots_in e (struck_cells e ?c)) (current_players_to_destroy e)"
      "to_erase b' = current_blocks_to_erase e @ filter (is_block e) (struck_cells e ?c)"
    by (simp_all add: struck_def explosion_start_def)
  with b b' turn show ?thesis
    by (simp add: handle_explosion_def after_explosion_def add_turn_event_def Let_def)
qed

lemma handle_explosion_diverges:
  assumes "explosion_radius (game_params e) = -1" and "\<not> is_block e (bomb_position bomb)"
  shows "handle_explosion i bomb e = Inl Diverges"
proof -
  obtain was_block b where b: "strike_cell e (bomb_position bomb) (explosion_start e) = (was_block, b)"
    by fastforce
  with strike_cell_struck [of e "bomb_position bomb" "explosion_start e"] assms(2)
  have "\<not> was_block" by simp
  with b assms(1) show ?thesis
    by (simp add: handle_explosion_def explosion_loop_diverges)
qed

lemma in_struck_cells:
  "q \<in> set (struck_cells e c) \<longleftrightarrow> in_blast e c (unat (explosion_radius (game_params e))) q"
  by (auto simp: struck_cells_def in_blast_cells)

lemma set_robots_in:
  "set (robots_in e cells) = {p. \<exists>q \<in> set cells. (p, q) \<in> set (players_positions e)}"
  by (force simp: robots_in_def robots_at_def)

subsection \<open>Where the cells lie\<close>

text \<open>
  The subtraction and addition on 16-bit coordinates wrap around only through 65535, a coordinate
  that is on no board; a step that has not met it has not wrapped.
\<close>

lemma step_back:
  fixes u :: u16
  assumes "\<And>j. 0 < j \<Longrightarrow> j \<le> k \<Longrightarrow> u - of_nat j \<noteq> -1" and "k < 65536"
  shows "k \<le> unat u \<and> unat (u - of_nat k) = unat u - k"
proof -
  have "u - of_nat (Suc (unat u)) = -1" by simp
  with assms(1) [of "Suc (unat u)"] have "k \<le> unat u" by (meson not_less_eq_eq zero_less_Suc)
  with assms(2) show ?thesis
    by (simp add: unat_sub_if_size unat_of_nat_small word_size word_le_nat_alt)
qed

lemma step_forward:
  fixes u :: u16
  assumes "\<And>j. 0 < j \<Longrightarrow> j \<le> k \<Longrightarrow> u + of_nat j \<noteq> -1" and "k < 65536" and "u \<noteq> -1"
  shows "unat (u + of_nat k) = unat u + k"
proof -
  have "u + of_nat (65535 - unat u) = of_nat (unat u + (65535 - unat u))" by simp
  also have "\<dots> = of_nat 65535" using unat_bounds(2) [of u] by (simp del: of_nat_add)
  finally have "u + of_nat (65535 - unat u) = -1" by simp
  with assms(1) [of "65535 - unat u"] assms(3) have "k < 65535 - unat u"
    using unat_u16_max [of u] by fastforce
  with assms(2) show ?thesis by (simp add: unat_word_ariths unat_of_nat_small)
qed

lemma off_board:
  "\<not> check_position e (Position (-1) y)" "\<not> check_position e (Position x (-1))"
proof -
  have "\<not> (-1 :: u16) < v" for v
    using word_n1_ge [of v] by (simp add: not_less)
  then show "\<not> check_position e (Position (-1) y)" "\<not> check_position e (Position x (-1))"
    by (simp_all add: check_position_def)
qed

lemma not_edge: "check_position e (Position x y) \<Longrightarrow> x \<noteq> -1 \<and> y \<noteq> -1"
  using off_board by metis

text \<open>The cell \<open>k\<close> steps away in one of the four directions, in natural numbers.\<close>

definition cell_at :: "position \<Rightarrow> nat \<Rightarrow> nat \<Rightarrow> position \<Rightarrow> bool" where
  "cell_at c d k q \<longleftrightarrow>
     (if d = 0 then pos_x q = pos_x c \<and> k \<le> unat (pos_y c) \<and> unat (pos_y q) = unat (pos_y c) - k
      else if d = 1 then pos_x q = pos_x c \<and> unat (pos_y q) = unat (pos_y c) + k
      else if d = 2 then pos_y q = pos_y c \<and> k \<le> unat (pos_x c) \<and> unat (pos_x q) = unat (pos_x c) - k
      else pos_y q = pos_y c \<and> unat (pos_x q) = unat (pos_x c) + k)"

lemma reached_cell_at:
  assumes "d < 4" and "0 < k" and "k < 65536" and "check_position e c"
    and "check_position e ((directions c ! d) k)" and "clear_before e (directions c ! d) k"
  shows "cell_at c d k ((directions c ! d) k)"
proof -
  have on_board: "check_position e ((directions c ! d) j)" if "0 < j" "j \<le> k" for j
    using that assms(5,6) by (cases "j = k") (auto simp: clear_before_def open_cell_def list_all_iff)
  have centre: "pos_x c \<noteq> -1" "pos_y c \<noteq> -1"
    using assms(4) not_edge [of e "pos_x c" "pos_y c"] by simp_all
  consider "d = 0" | "d = 1" | "d = 2" | "d = 3" using assms(1) by linarith
  then show ?thesis
  proof cases
    case 1
    have "check_position e (Position (pos_x c) (pos_y c - of_nat j))" if "0 < j" "j \<le> k" for j
      using on_board [OF that] by (simp add: 1 directions_def)
    then have "pos_y c - of_nat j \<noteq> -1" if "0 < j" "j \<le> k" for j
      using that not_edge by blast
    from step_back [OF this assms(3)] show ?thesis by (simp add: 1 directions_def cell_at_def)
  next
    case 2
    have "check_position e (Position (pos_x c) (pos_y c + of_nat j))" if "0 < j" "j \<le> k" for j
      using on_board [OF that] by (simp add: 2 directions_def)
    then have "pos_y c + of_nat j \<noteq> -1" if "0 < j" "j \<le> k" for j
      using that not_edge by blast
    from step_forward [OF this assms(3) centre(2)] show ?thesis by (simp add: 2 directions_def cell_at_def)
  next
    case 3
    have "check_position e (Position (pos_x c - of_nat j) (pos_y c))" if "0 < j" "j \<le> k" for j
      using on_board [OF that] by (simp add: 3 directions_def)
    then have "pos_x c - of_nat j \<noteq> -1" if "0 < j" "j \<le> k" for j
      using that not_edge by blast
    from step_back [OF this assms(3)] show ?thesis by (simp add: 3 directions_def cell_at_def)
  next
    case 4
    have "check_position e (Position (pos_x c + of_nat j) (pos_y c))" if "0 < j" "j \<le> k" for j
      using on_board [OF that] by (simp add: 4 directions_def)
    then have "pos_x c + of_nat j \<noteq> -1" if "0 < j" "j \<le> k" for j
      using that not_edge by blast
    from step_forward [OF this assms(3) centre(1)] show ?thesis by (simp add: 4 directions_def cell_at_def)
  qed
qed

lemma in_blast_cell_at:
  assumes "in_blast e c r q" and "check_position e c" and "r < 65536" and "q \<noteq> c"
  obtains d k where "d < 4" "0 < k" "k \<le> r" "cell_at c d k q"
proof -
  from assms(1,4) obtain f k where f: "f \<in> set (directions c)" "1 \<le> k" "k \<le> r" "q = f k"
      "check_position e q" "clear_before e f k"
    by (auto simp: in_blast_def)
  have "length (directions c) = 4" by (simp add: directions_def)
  with f(1) obtain d where "d < 4" "f = directions c ! d"
    by (auto simp: in_set_conv_nth)
  with f assms(2,3) reached_cell_at [of d k e c] have "cell_at c d k q" by simp
  with \<open>d < 4\<close> f that [of d k] show ?thesis by simp
qed

text \<open>Different steps or directions give different cells, so no cell is visited twice.\<close>

lemma cell_at_nat:
  assumes "cell_at c d k q"
  shows "(d = 0 \<and> unat (pos_x q) = unat (pos_x c) \<and> unat (pos_y q) + k = unat (pos_y c))
    \<or> (d = 1 \<and> unat (pos_x q) = unat (pos_x c) \<and> unat (pos_y q) = unat (pos_y c) + k)
    \<or> (d = 2 \<and> unat (pos_y q) = unat (pos_y c) \<and> unat (pos_x q) + k = unat (pos_x c))
    \<or> (3 \<le> d \<and> unat (pos_y q) = unat (pos_y c) \<and> unat (pos_x q) = unat (pos_x c) + k)"
  using assms unfolding cell_at_def by (cases "d = 0"; cases "d = 1"; cases "d = 2") simp_all

lemma cell_at_unique:
  assumes "cell_at c d k q" and "cell_at c d' k' q" and "d < 4" "d' < 4" "0 < k" "0 < k'"
  shows "d = d' \<and> k = k'"
  using cell_at_nat [OF assms(1)] cell_at_nat [OF assms(2)] assms(3-6)
  by (elim disjE) simp_all

lemma cell_at_centre: "cell_at c d k c \<Longrightarrow> k = 0"
  by (drule cell_at_nat) (elim disjE, simp_all)

subsection \<open>The cross in natural numbers\<close>

lemma cell_at_determined: "cell_at c d k q \<Longrightarrow> cell_at c d k q' \<Longrightarrow> q = q'"
  by (cases q; cases q') (auto simp: cell_at_def word_unat_eq_iff split: if_splits)

lemma cell_at_steps:
  assumes "d < 4" and "cell_at c d k q" and "j \<le> k"
  shows "cell_at c d j ((directions c ! d) j)"
proof -
  have sub: "unat (u - of_nat j) = unat u - j" if "k \<le> unat u" for u :: u16
  proof -
    have "unat (of_nat j :: u16) = j" using that assms(3) unat_bounds(2) [of u] by (intro unat_of_nat_small) simp
    with that assms(3) show ?thesis by (simp add: unat_sub word_le_nat_alt)
  qed
  have add: "unat (u + of_nat j) = unat u + j" if "unat v = unat u + k" for u v :: u16
    using that assms(3) unat_bounds(2) [of v] by (simp add: unat_word_ariths unat_of_nat_small)
  consider "d = 0" | "d = 1" | "d = 2" | "d = 3" using assms(1) by linarith
  then show ?thesis
    by cases (use assms(2,3) sub add in \<open>auto simp: cell_at_def directions_def\<close>)
qed

lemma cell_at_directions: "d < 4 \<Longrightarrow> cell_at c d k q \<Longrightarrow> q = (directions c ! d) k"
  using cell_at_steps [of d c k q k] cell_at_determined by blast

lemma cell_between:
  assumes "cell_at c d k q" and "cell_at c d j q'" and "j \<le> k" and "d < 4" and "check_position e c" and "check_position e q"
  shows "check_position e q'"
  using cell_at_nat [OF assms(1)] cell_at_nat [OF assms(2)] assms(3-6)
  by (elim disjE) (simp_all add: check_position_def word_less_nat_alt)

text \<open>
  Reached by the blast, in natural numbers: on the board, in one of the four directions, at most \<open>r\<close> steps away, and with no
  block between.
\<close>

definition in_cross :: "game_engine \<Rightarrow> position \<Rightarrow> nat \<Rightarrow> position \<Rightarrow> bool" where
  "in_cross e c r q \<longleftrightarrow> q = c \<or>
     (\<not> is_block e c \<and> check_position e q \<and>
      (\<exists>d < 4. \<exists>k \<in> {1..r}. cell_at c d k q \<and>
         (\<forall>j q'. 0 < j \<and> j < k \<and> cell_at c d j q' \<longrightarrow> \<not> is_block e q')))"

lemma clear_before_cells:
  assumes "d < 4" and "cell_at c d k q" and "check_position e c" and "check_position e q"
  shows "clear_before e (directions c ! d) k \<longleftrightarrow> (\<forall>j q'. 0 < j \<and> j < k \<and> cell_at c d j q' \<longrightarrow> \<not> is_block e q')"
proof -
  have "open_cell e ((directions c ! d) j) \<longleftrightarrow> (\<forall>q'. cell_at c d j q' \<longrightarrow> \<not> is_block e q')" if "j < k" for j
  proof -
    have j: "j \<le> k" using that by simp
    note at = cell_at_steps [OF assms(1,2) j]
    have "q' = (directions c ! d) j" if "cell_at c d j q'" for q' by (rule cell_at_determined [OF that at])
    moreover have "check_position e ((directions c ! d) j)" by (rule cell_between [OF assms(2) at j assms(1,3,4)])
    ultimately show ?thesis unfolding open_cell_def using at by blast
  qed
  moreover have "clear_before e (directions c ! d) k \<longleftrightarrow> (\<forall>j. 0 < j \<and> j < k \<longrightarrow> open_cell e ((directions c ! d) j))"
    by (auto simp: clear_before_def list_all_iff)
  ultimately show ?thesis by blast
qed

lemma in_blast_cross:
  assumes c: "check_position e c" and r: "r < 65536"
  shows "in_blast e c r q \<longleftrightarrow> in_cross e c r q"
proof -
  have dirs: "set (directions c) = (\<lambda>d. directions c ! d) ` {..<4}"
    by (auto simp: directions_def eval_nat_numeral lessThan_Suc)
  have "(\<exists>k \<in> {1..r}. q = (directions c ! d) k \<and> check_position e q \<and> clear_before e (directions c ! d) k)
      \<longleftrightarrow> check_position e q \<and> (\<exists>k \<in> {1..r}. cell_at c d k q \<and>
         (\<forall>j q'. 0 < j \<and> j < k \<and> cell_at c d j q' \<longrightarrow> \<not> is_block e q'))" (is "?l \<longleftrightarrow> ?r") if d: "d < 4" for d
  proof
    assume ?l
    then obtain k where k: "k \<in> {1..r}" "q = (directions c ! d) k" "check_position e q" "clear_before e (directions c ! d) k"
      by blast
    then have at: "cell_at c d k q" using reached_cell_at [OF d _ _ c, of k] r by auto
    with k clear_before_cells [OF d at c] show ?r by blast
  next
    assume ?r
    then obtain k where k: "k \<in> {1..r}" "cell_at c d k q" "check_position e q"
        "\<forall>j q'. 0 < j \<and> j < k \<and> cell_at c d j q' \<longrightarrow> \<not> is_block e q'"
      by blast
    with clear_before_cells [OF d k(2) c k(3)] cell_at_directions [OF d k(2)] show ?l by blast
  qed
  then show ?thesis unfolding in_blast_def in_cross_def dirs by auto
qed

end
