(* ===== verification/Engine_Inv.thy ===== *)
theory Engine_Inv
  imports Blast
begin

text \<open>
  The invariant of the game engine, and that every operation of the engine keeps it and ends without
  a fault. The parameters are assumed reasonable: a board that is not empty, at least one player, and a
  blast radius below 65535.
\<close>

definition config_ok :: "server_parameters \<Rightarrow> bool" where
  "config_ok p \<longleftrightarrow> size_x p \<noteq> 0 \<and> size_y p \<noteq> 0 \<and> players_count p \<noteq> 0 \<and> explosion_radius p \<noteq> -1"

text \<open>The turn stored at index \<open>i\<close> is turn \<open>i\<close>, and the last one is the current one.\<close>

definition turns_ok :: "turn_info list \<Rightarrow> u16 \<Rightarrow> bool" where
  "turns_ok ts t \<longleftrightarrow> map turn ts = map of_nat [0..<Suc (unat t)]"

text \<open>Holds in every state: tables sorted, scores and slots only of players, at most one of each.\<close>

definition tables_ok :: "game_engine \<Rightarrow> bool" where
  "tables_ok e \<longleftrightarrow> config_ok (game_params e) \<and> handler_ok (tcp_handler e) \<and> random_ok (random e)
     \<and> map_ok (players e) \<and> map_ok (scores e) \<and> map_ok (players_positions e)
     \<and> map_ok (player_ids e) \<and> map_ok (bombs e) \<and> set_ok (current_players_to_destroy e)
     \<and> keys (scores e) = keys (players e) \<and> snd ` set (player_ids e) \<subseteq> keys (players e)
     \<and> elems (current_players_to_destroy e) \<subseteq> keys (players e)"

text \<open>While a game is played: everything on the board, the turns in step.\<close>

definition board_ok :: "game_engine \<Rightarrow> bool" where
  "board_ok e \<longleftrightarrow> turns_ok (turns e) (current_turn e)
     \<and> (\<forall>q \<in> snd ` set (players_positions e). check_position e q)
     \<and> (\<forall>q \<in> elems (blocks_positions e). check_position e q)
     \<and> (\<forall>b \<in> snd ` set (bombs e). check_position e (bomb_position b))"

definition players_placed :: "game_engine \<Rightarrow> bool" where
  "players_placed e \<longleftrightarrow> keys (players_positions e) = keys (players e)"

text \<open>In the lobby: no game state is left over, identifiers are given out in order.\<close>

definition lobby_ok :: "game_engine \<Rightarrow> bool" where
  "lobby_ok e \<longleftrightarrow> players_positions e = [] \<and> turns e = [] \<and> current_turn e = 0 \<and> bombs e = []
     \<and> blocks_positions e = Leaf \<and> current_players_to_destroy e = Leaf \<and> current_blocks_to_erase e = []
     \<and> length (players e) < unat (players_count (game_params e))
     \<and> next_player_id e = of_nat (length (players e))
     \<and> keys (players e) = of_nat ` {..<length (players e)}"

definition engine_inv :: "game_engine \<Rightarrow> bool" where
  "engine_inv e \<longleftrightarrow> tables_ok e \<and>
     (if gameplay_started e
      then board_ok e \<and> players_placed e \<and> length (players e) = unat (players_count (game_params e))
        \<and> current_turn e \<le> game_length (game_params e)
      else lobby_ok e)"

lemmas engine_inv_defs = engine_inv_def tables_ok_def board_ok_def players_placed_def lobby_ok_def

lemma check_position_cong:
  "game_params e' = game_params e \<Longrightarrow> check_position e' = check_position e"
  by (simp add: check_position_def fun_eq_iff)

lemma check_position_frame [simp, frame_simps]:
  "check_position (e\<lparr>tcp_handler := h\<rparr>) = check_position e"
  "check_position (e\<lparr>gameplay_started := g\<rparr>) = check_position e"
  "check_position (e\<lparr>players := ps\<rparr>) = check_position e"
  "check_position (e\<lparr>scores := ss\<rparr>) = check_position e"
  "check_position (e\<lparr>players_positions := pos\<rparr>) = check_position e"
  "check_position (e\<lparr>blocks_positions := bs\<rparr>) = check_position e"
  "check_position (e\<lparr>player_ids := ids\<rparr>) = check_position e"
  "check_position (e\<lparr>next_player_id := ni\<rparr>) = check_position e"
  "check_position (e\<lparr>current_turn := t\<rparr>) = check_position e"
  "check_position (e\<lparr>current_blocks_to_erase := be\<rparr>) = check_position e"
  "check_position (e\<lparr>current_players_to_destroy := pd\<rparr>) = check_position e"
  "check_position (e\<lparr>turns := ts\<rparr>) = check_position e"
  "check_position (e\<lparr>bombs := bm\<rparr>) = check_position e"
  "check_position (e\<lparr>next_bomb_id := nb\<rparr>) = check_position e"
  "check_position (e\<lparr>random := r\<rparr>) = check_position e"
  by (simp_all add: check_position_def fun_eq_iff)

lemma engine_inv_new:
  "config_ok params \<Longrightarrow> handler_ok h \<Longrightarrow> engine_inv (new_game_engine params h)"
  by (simp add: engine_inv_defs new_game_engine_def random_ok_new config_ok_def unat_gt_0)

subsection \<open>Turns\<close>

lemma turns_ok_length: "turns_ok ts t \<Longrightarrow> length ts = Suc (unat t)"
  unfolding turns_ok_def by (metis diff_zero length_map length_upt)

lemma turns_ok_update: "turns_ok ts t \<Longrightarrow> i < length ts \<Longrightarrow> turns_ok (ts[i := add_event ev (ts ! i)]) t"
  unfolding turns_ok_def map_update turn_info_simps by (metis list_update_id nth_map)

lemma turns_ok_next: "turns_ok ts t \<Longrightarrow> t \<noteq> -1 \<Longrightarrow> turns_ok (ts @ [new_turn_info (t + 1)]) (t + 1)"
proof -
  assume ok: "turns_ok ts t" and "t \<noteq> -1"
  then have "unat (t + 1) = Suc (unat t)"
    by (simp add: unat_u16_max unat_word_ariths)
  with ok show ?thesis by (simp add: turns_ok_def)
qed

lemma turns_ok_first: "turns_ok [new_turn_info 0] 0"
  by (simp add: turns_ok_def)

lemma add_turn_event_Inr:
  "unat t < length (turns e) \<Longrightarrow>
     add_turn_event t ev e = Inr (e\<lparr>turns := (turns e)[unat t := add_event ev (turns e ! unat t)]\<rparr>)"
  by (simp add: add_turn_event_def)

lemma board_ok_add_event:
  assumes "board_ok e" and "t = current_turn e \<or> t = 0"
  obtains ts where "add_turn_event t ev e = Inr (e\<lparr>turns := ts\<rparr>)" and "turns_ok ts (current_turn e)"
proof -
  have ok: "turns_ok (turns e) (current_turn e)" using assms(1) by (simp add: board_ok_def)
  then have "unat t < length (turns e)" using assms(2) by (auto simp: turns_ok_length)
  with ok that add_turn_event_Inr show ?thesis by (blast intro: turns_ok_update)
qed

subsection \<open>Random positions\<close>

lemma random_coordinate_ok:
  assumes "random_ok r" and "bound \<noteq> 0"
  obtains x r' where "random_coordinate bound r = Inr (x, r')" and "random_ok r'" and "x < bound"
proof -
  let ?v = "fst (random_next r) mod (ucast bound :: u32)"
  have "0 < unat bound" using assms(2) by (simp add: unat_gt_0)
  then have v: "unat ?v < unat bound" by (simp add: unat_mod unat_u32_of_u16)
  then have "unat (ucast ?v :: u16) = unat ?v"
    using unat_bounds(2) [of bound] by (intro unat_u16_of_u32) linarith
  with v have "(ucast ?v :: u16) < bound" by (simp add: word_less_nat_alt)
  with assms random_ok_next that show ?thesis
    by (simp add: random_coordinate_def split_beta Let_def)
qed

lemma random_position_ok:
  assumes "tables_ok e"
  obtains pos r where "random_position e = Inr (pos, r)" and "random_ok r" and "check_position e pos"
proof -
  from assms have ok: "random_ok (random e)" "size_x (game_params e) \<noteq> 0" "size_y (game_params e) \<noteq> 0"
    by (simp_all add: tables_ok_def config_ok_def)
  obtain x r1 where x: "random_coordinate (size_x (game_params e)) (random e) = Inr (x, r1)"
      "random_ok r1" "x < size_x (game_params e)"
    by (rule random_coordinate_ok [OF ok(1,2)])
  obtain y r2 where "random_coordinate (size_y (game_params e)) r1 = Inr (y, r2)"
      "random_ok r2" "y < size_y (game_params e)"
    by (rule random_coordinate_ok [OF x(2) ok(3)])
  with x that show ?thesis by (simp add: random_position_def check_position_def)
qed

subsection \<open>Seeding\<close>

text \<open>What seeding may change.\<close>

definition reseeded :: "game_engine \<Rightarrow> game_engine \<Rightarrow> bool" where
  "reseeded e e' \<longleftrightarrow> (\<exists>r ts ps bs. e' =
     e\<lparr>random := r, turns := ts, players_positions := ps, blocks_positions := bs\<rparr>)"

lemma reseeded_refl [simp]: "reseeded e e"
  unfolding reseeded_def
  by (intro exI [of _ "random e"] exI [of _ "turns e"] exI [of _ "players_positions e"]
      exI [of _ "blocks_positions e"]) simp

lemma reseeded_trans: "reseeded a b \<Longrightarrow> reseeded b c \<Longrightarrow> reseeded a c"
proof -
  assume "reseeded a b" and "reseeded b c"
  then obtain r ts ps bs where
    "c = a\<lparr>random := r, turns := ts, players_positions := ps, blocks_positions := bs\<rparr>"
    by (auto simp: reseeded_def)
  then show "reseeded a c" unfolding reseeded_def by blast
qed

lemma reseeded_frame [frame_simps]:
  assumes "reseeded e e'"
  shows "game_params e' = game_params e" "tcp_handler e' = tcp_handler e" "players e' = players e"
    "scores e' = scores e" "player_ids e' = player_ids e" "bombs e' = bombs e"
    "gameplay_started e' = gameplay_started e" "current_turn e' = current_turn e"
    "next_player_id e' = next_player_id e" "next_bomb_id e' = next_bomb_id e"
    "current_players_to_destroy e' = current_players_to_destroy e"
    "current_blocks_to_erase e' = current_blocks_to_erase e"
  using assms by (auto simp: reseeded_def)

definition seeded :: "game_engine \<Rightarrow> game_engine \<Rightarrow> bool" where
  "seeded e e' \<longleftrightarrow> reseeded e e' \<and> tables_ok e' \<and> board_ok e'"

lemma seed_player_ok:
  assumes "tables_ok e" and "board_ok e"
  shows "\<exists>e'. seed_player i e = Inr e' \<and> seeded e e'
    \<and> keys (players_positions e') = insert i (keys (players_positions e))
    \<and> blocks_positions e' = blocks_positions e"
proof -
  obtain pos r where pos: "random_position e = Inr (pos, r)" "random_ok r" "check_position e pos"
    by (rule random_position_ok [OF assms(1)])
  have "board_ok (e\<lparr>random := r\<rparr>)"
    using assms(2) by (simp add: board_ok_def check_position_def)
  then obtain ts where ts: "add_turn_event (current_turn e) (Player_moved_event i pos) (e\<lparr>random := r\<rparr>)
      = Inr (e\<lparr>random := r, turns := ts\<rparr>)" "turns_ok ts (current_turn e)"
    by (rule board_ok_add_event) auto
  let ?e' = "e\<lparr>random := r, turns := ts, players_positions := map_assign i pos (players_positions e)\<rparr>"
  have "reseeded e ?e'"
    unfolding reseeded_def
    by (intro exI [of _ r] exI [of _ ts] exI [of _ "map_assign i pos (players_positions e)"]
        exI [of _ "blocks_positions e"]) simp
  moreover have "tables_ok ?e'" using assms(1) pos(2) by (simp add: tables_ok_def)
  moreover have "board_ok ?e'"
    using assms(2) pos(3) ts(2) ball_map_assign [of "players_positions e" "check_position e" pos i]
    by (simp add: board_ok_def check_position_def)
  ultimately show ?thesis using pos(1) ts(1) by (simp add: seed_player_def seeded_def)
qed

lemma seed_players_ok:
  assumes "tables_ok e" and "board_ok e"
  shows "\<exists>e'. for_each (\<lambda>player. seed_player (fst player)) ps e = Inr e' \<and> seeded e e'
    \<and> keys (players_positions e') = keys ps \<union> keys (players_positions e)"
  using assms
proof (induction ps arbitrary: e)
  case (Cons p ps)
  obtain e1 where e1: "seed_player (fst p) e = Inr e1" "seeded e e1"
      "keys (players_positions e1) = insert (fst p) (keys (players_positions e))"
    using seed_player_ok [OF Cons.prems] by blast
  from e1(2) obtain e2 where "for_each (\<lambda>player. seed_player (fst player)) ps e1 = Inr e2" "seeded e1 e2"
      "keys (players_positions e2) = keys ps \<union> keys (players_positions e1)"
    using Cons.IH [of e1] by (auto simp: seeded_def)
  with e1 show ?case by (cases p) (auto simp: seeded_def dest: reseeded_trans)
qed (simp add: seeded_def)

lemma seed_block_ok:
  assumes "tables_ok e" and "board_ok e"
  shows "\<exists>e'. seed_block e = Inr e' \<and> seeded e e' \<and> players_positions e' = players_positions e"
proof -
  obtain pos r where pos: "random_position e = Inr (pos, r)" "random_ok r" "check_position e pos"
    by (rule random_position_ok [OF assms(1)])
  have "board_ok (e\<lparr>random := r\<rparr>)"
    using assms(2) by (simp add: board_ok_def check_position_def)
  then obtain ts where ts: "add_turn_event 0 (Block_placed_event pos) (e\<lparr>random := r\<rparr>)
      = Inr (e\<lparr>random := r, turns := ts\<rparr>)" "turns_ok ts (current_turn e)"
    by (rule board_ok_add_event [where t = 0 and ev = "Block_placed_event pos"]) auto
  let ?e' = "e\<lparr>random := r, turns := ts, blocks_positions := pos_insert pos (blocks_positions e)\<rparr>"
  have "reseeded e ?e'"
    unfolding reseeded_def
    by (intro exI [of _ r] exI [of _ ts] exI [of _ "players_positions e"]
        exI [of _ "pos_insert pos (blocks_positions e)"]) simp
  moreover have "tables_ok ?e'" using assms(1) pos(2) by (simp add: tables_ok_def)
  moreover have "board_ok ?e'"
    using assms(2) pos(3) ts(2) positions.ins_keeps [of "blocks_positions e" "check_position e" pos]
    by (simp add: board_ok_def check_position_def)
  ultimately show ?thesis using pos(1) ts(1) by (simp add: seed_block_def seeded_def)
qed

lemma seed_blocks_ok:
  assumes "tables_ok e" and "board_ok e"
  shows "\<exists>e'. seed_blocks e = Inr e' \<and> seeded e e' \<and> players_positions e' = players_positions e"
  unfolding seed_blocks_def
proof (rule for_each_total [where P = "\<lambda>s. seeded e s \<and> players_positions s = players_positions e"])
  fix i s assume "seeded e s \<and> players_positions s = players_positions e"
  then show "\<exists>s'. seed_block s = Inr s' \<and> seeded e s' \<and> players_positions s' = players_positions e"
    using seed_block_ok [of s] by (auto simp: seeded_def dest: reseeded_trans)
qed (simp add: seeded_def assms)

subsection \<open>Beginning a turn\<close>

text \<open>What bombs may change while a turn begins.\<close>

definition bombed :: "game_engine \<Rightarrow> game_engine \<Rightarrow> bool" where
  "bombed e e' \<longleftrightarrow> (\<exists>bs ds es ts. e' =
     e\<lparr>bombs := bs, current_players_to_destroy := ds, current_blocks_to_erase := es, turns := ts\<rparr>)"

lemma bombed_refl [simp]: "bombed e e"
  unfolding bombed_def
  by (intro exI [of _ "bombs e"] exI [of _ "current_players_to_destroy e"]
      exI [of _ "current_blocks_to_erase e"] exI [of _ "turns e"]) simp

lemma bombed_trans: "bombed a b \<Longrightarrow> bombed b c \<Longrightarrow> bombed a c"
proof -
  assume "bombed a b" and "bombed b c"
  then obtain bs ds es ts where "c =
    a\<lparr>bombs := bs, current_players_to_destroy := ds, current_blocks_to_erase := es, turns := ts\<rparr>"
    by (auto simp: bombed_def)
  then show "bombed a c" unfolding bombed_def by blast
qed

lemma bombed_frame [frame_simps]:
  assumes "bombed e e'"
  shows "game_params e' = game_params e" "tcp_handler e' = tcp_handler e" "players e' = players e"
    "scores e' = scores e" "player_ids e' = player_ids e" "current_turn e' = current_turn e"
    "gameplay_started e' = gameplay_started e" "players_positions e' = players_positions e"
    "blocks_positions e' = blocks_positions e" "random e' = random e"
    "next_player_id e' = next_player_id e" "next_bomb_id e' = next_bomb_id e"
  using assms by (auto simp: bombed_def)

lemma explosion_ok:
  assumes "engine_inv e" and "gameplay_started e"
  shows "handle_explosion i bomb e = Inr (after_explosion i (bomb_position bomb) e)
    \<and> engine_inv (after_explosion i (bomb_position bomb) e)
    \<and> bombed e (after_explosion i (bomb_position bomb) e)"
proof -
  let ?c = "bomb_position bomb" and ?ds = "current_players_to_destroy e"
  let ?hit = "robots_in e (struck_cells e ?c)" and ?blocks = "filter (is_block e) (struck_cells e ?c)"
  let ?ts = "(turns e)[unat (current_turn e) :=
    add_event (Bomb_exploded_event i ?hit ?blocks) (turns e ! unat (current_turn e))]"
  have eq: "after_explosion i ?c e =
      e\<lparr>current_players_to_destroy := fold (set_insert (<)) ?hit ?ds,
        current_blocks_to_erase := current_blocks_to_erase e @ ?blocks, turns := ?ts\<rparr>"
    by (simp add: after_explosion_def Let_def)
  have turns: "turns_ok (turns e) (current_turn e)" and small: "explosion_radius (game_params e) \<noteq> -1"
    using assms by (simp_all add: engine_inv_defs config_ok_def)
  then have turns': "turns_ok ?ts (current_turn e)"
    by (simp add: turns_ok_update turns_ok_length)
  have "set ?hit \<subseteq> keys (players_positions e)"
    by (force simp: set_robots_in keys_def)
  moreover have "keys (players_positions e) = keys (players e)" "set_ok ?ds" "elems ?ds \<subseteq> keys (players e)"
    using assms by (simp_all add: engine_inv_defs)
  ultimately have "set_ok (fold (set_insert (<)) ?hit ?ds)"
      "elems (fold (set_insert (<)) ?hit ?ds) \<subseteq> keys (players e)"
    using elems_fold_insert [of ?ds ?hit] by auto
  with assms turns' have "engine_inv (after_explosion i ?c e)"
    unfolding eq by (simp add: engine_inv_defs)
  moreover have "bombed e (after_explosion i ?c e)"
    unfolding eq bombed_def
    by (intro exI [of _ "bombs e"] exI [of _ "fold (set_insert (<)) ?hit ?ds"]
        exI [of _ "current_blocks_to_erase e @ ?blocks"] exI [of _ ?ts]) simp
  ultimately show ?thesis
    using handle_explosion_eq [OF small] turns by (simp add: turns_ok_length)
qed

lemma tick_bomb_ok:
  assumes "engine_inv e" and "gameplay_started e" and "check_position e (bomb_position (snd entry))"
  shows "\<exists>e'. tick_bomb entry e = Inr e' \<and> engine_inv e' \<and> bombed e e'"
proof -
  let ?bomb = "Bomb (bomb_position (snd entry)) (timer (snd entry) - 1)"
  let ?e1 = "e\<lparr>bombs := map_assign (fst entry) ?bomb (bombs e)\<rparr>"
  have "\<forall>b \<in> snd ` set (bombs e). check_position e (bomb_position b)"
    using assms(1,2) by (simp add: engine_inv_defs)
  then have "\<forall>b \<in> snd ` set (map_assign (fst entry) ?bomb (bombs e)). check_position e (bomb_position b)"
    by (rule ball_map_assign) (simp add: assms(3))
  with assms(1,2) have inv: "engine_inv ?e1"
    by (simp add: engine_inv_defs)
  have "bombed e ?e1"
    unfolding bombed_def
    by (intro exI [of _ "map_assign (fst entry) ?bomb (bombs e)"] exI [of _ "current_players_to_destroy e"]
        exI [of _ "current_blocks_to_erase e"] exI [of _ "turns e"]) simp
  with inv explosion_ok [OF inv, of "fst entry" ?bomb] assms(2) show ?thesis
    by (auto simp: tick_bomb_def Let_def intro: bombed_trans)
qed

lemma begin_turn_ok:
  assumes inv: "engine_inv e" and started: "gameplay_started e"
    and before: "current_turn e < game_length (game_params e)"
  shows "\<exists>e'. begin_turn e = Inr e' \<and> engine_inv e' \<and> gameplay_started e' \<and>
    tcp_handler e' = tcp_handler e \<and> player_ids e' = player_ids e \<and> game_params e' = game_params e \<and>
    current_turn e' = current_turn e + 1"
proof -
  let ?t = "current_turn e + 1"
  let ?e1 = "e\<lparr>current_turn := ?t, turns := turns e @ [new_turn_info ?t]\<rparr>"
  have not_max: "current_turn e \<noteq> -1"
    using before word_n1_ge [of "game_length (game_params e)"] by (auto simp: not_less [symmetric])
  have inv1: "engine_inv ?e1"
    using inv started before turns_ok_next [OF _ not_max] inc_le [OF before]
    by (simp add: engine_inv_defs)
  have entries: "\<And>entry. entry \<in> set (bombs e) \<Longrightarrow> check_position e (bomb_position (snd entry))"
    using inv started by (auto simp: engine_inv_defs)
  have "\<exists>e2. for_each tick_bomb (bombs ?e1) ?e1 = Inr e2 \<and> (engine_inv e2 \<and> bombed ?e1 e2)"
  proof (rule for_each_total)
    fix entry s assume "entry \<in> set (bombs ?e1)" and s: "engine_inv s \<and> bombed ?e1 s"
    then have "check_position s (bomb_position (snd entry))" "gameplay_started s"
      using entries [of entry] started bombed_frame [OF conjunct2 [OF s]]
      by (simp_all add: check_position_def)
    with s tick_bomb_ok [of s entry]
    show "\<exists>s'. tick_bomb entry s = Inr s' \<and> engine_inv s' \<and> bombed ?e1 s'"
      by (blast intro: bombed_trans)
  qed (simp add: inv1)
  then obtain e2 where e2: "for_each tick_bomb (bombs ?e1) ?e1 = Inr e2" "engine_inv e2" "bombed ?e1 e2"
    by blast
  let ?e4 = "e2\<lparr>bombs := filter (\<lambda>(i, bomb). timer bomb \<noteq> 0) (bombs e2),
    blocks_positions := fold pos_erase (current_blocks_to_erase e2) (blocks_positions e2)\<rparr>"
  have "engine_inv ?e4"
    using e2(2) bombed_frame [OF e2(3)] started
      positions.fold_del_keeps [of "blocks_positions e2" "check_position e2" "current_blocks_to_erase e2"]
    by (auto simp: engine_inv_defs map_ok_filter)
  moreover have "begin_turn e = Inr ?e4"
    using e2(1) by (simp add: begin_turn_def Let_def)
  ultimately show ?thesis
    using bombed_frame [OF e2(3)] started by auto
qed

subsection \<open>Starting, summarising and ending\<close>

lemma board_ok_start:
  assumes "players_positions e = []" "turns e = []" "current_turn e = 0" "bombs e = []"
    "blocks_positions e = Leaf"
  shows "board_ok (e\<lparr>gameplay_started := True, turns := turns e @ [new_turn_info 0], tcp_handler := h\<rparr>)"
  using assms by (simp add: board_ok_def turns_ok_first)

lemma start_gameplay_ok:
  assumes "tables_ok e" and "players_positions e = []" "turns e = []" "current_turn e = 0" "bombs e = []"
    "blocks_positions e = Leaf" "length (players e) = unat (players_count (game_params e))"
  shows "\<exists>e'. start_gameplay e = Inr e' \<and> engine_inv e' \<and> gameplay_started e' \<and>
    player_ids e' = player_ids e \<and> game_params e' = game_params e \<and> players e' = players e \<and>
    current_turn e' = 0 \<and>
    tcp_handler e' = send_message_to_all (game_started_msg e) (tcp_handler e) \<and>
    current_players_to_destroy e' = current_players_to_destroy e \<and>
    current_blocks_to_erase e' = current_blocks_to_erase e"
proof -
  let ?h = "send_message_to_all (game_started_msg e) (tcp_handler e)"
  let ?e2 = "e\<lparr>gameplay_started := True, turns := turns e @ [new_turn_info 0], tcp_handler := ?h\<rparr>"
  have tables: "tables_ok ?e2" using assms(1) by (simp add: tables_ok_def)
  have board: "board_ok ?e2" using assms(2-6) by (rule board_ok_start)
  obtain e3 where e3: "seed_players ?e2 = Inr e3" "seeded ?e2 e3"
      "keys (players_positions e3) = keys (players ?e2) \<union> keys (players_positions ?e2)"
    using seed_players_ok [OF tables board, of "players ?e2"] by (auto simp: seed_players_def)
  obtain e4 where e4: "seed_blocks e3 = Inr e4" "seeded e3 e4" "players_positions e4 = players_positions e3"
    using seed_blocks_ok [of e3] e3(2) by (auto simp: seeded_def)
  have "game_started_msg (e\<lparr>gameplay_started := True, turns := ts\<rparr>) = game_started_msg e" for ts
    by (simp add: game_started_msg_def)
  then have run: "start_gameplay e = Inr e4"
    using e3(1) e4(1) by (simp add: start_gameplay_def Let_def send_to_all_def)
  have "reseeded ?e2 e4" using e3(2) e4(2) by (auto simp: seeded_def dest: reseeded_trans)
  note frame = reseeded_frame [OF this]
  have "engine_inv e4"
    using e4(2,3) e3(3) assms frame by (simp add: engine_inv_def seeded_def players_placed_def)
  with run frame assms(4) show ?thesis by simp
qed

lemma end_gameplay_ok:
  assumes "tables_ok e" and "current_players_to_destroy e = Leaf" and "current_blocks_to_erase e = []"
  shows "engine_inv (end_gameplay e)"
  using assms
  by (simp add: end_gameplay_def engine_inv_defs send_to_all_def config_ok_def unat_gt_0 Let_def)

text \<open>What the respawning of robots may change.\<close>

definition respawned :: "game_engine \<Rightarrow> game_engine \<Rightarrow> bool" where
  "respawned e e' \<longleftrightarrow> (\<exists>sc r ts ps bs. e' =
     e\<lparr>scores := sc, random := r, turns := ts, players_positions := ps, blocks_positions := bs\<rparr>)"

lemma respawned_refl [simp]: "respawned e e"
  unfolding respawned_def
  by (intro exI [of _ "scores e"] exI [of _ "random e"] exI [of _ "turns e"]
      exI [of _ "players_positions e"] exI [of _ "blocks_positions e"]) simp

lemma respawned_trans: "respawned a b \<Longrightarrow> respawned b c \<Longrightarrow> respawned a c"
proof -
  assume "respawned a b" and "respawned b c"
  then obtain sc r ts ps bs where
    "c = a\<lparr>scores := sc, random := r, turns := ts, players_positions := ps, blocks_positions := bs\<rparr>"
    by (auto simp: respawned_def)
  then show "respawned a c" unfolding respawned_def by blast
qed

lemma respawned_frame [frame_simps]:
  assumes "respawned e e'"
  shows "game_params e' = game_params e" "tcp_handler e' = tcp_handler e" "players e' = players e"
    "player_ids e' = player_ids e" "bombs e' = bombs e"
    "gameplay_started e' = gameplay_started e" "current_turn e' = current_turn e"
    "next_player_id e' = next_player_id e" "next_bomb_id e' = next_bomb_id e"
    "current_players_to_destroy e' = current_players_to_destroy e"
    "current_blocks_to_erase e' = current_blocks_to_erase e"
  using assms by (auto simp: respawned_def)

lemma respawn_ok:
  assumes "engine_inv e" and "gameplay_started e" and "p \<in> keys (players e)"
  shows "\<exists>e'. respawn p e = Inr e' \<and> engine_inv e' \<and> respawned e e'"
proof -
  from assms have keys: "keys (scores e) = keys (players e)" "map_ok (scores e)"
    and inv: "tables_ok e" "board_ok e" "players_placed e"
    by (simp_all add: engine_inv_def tables_ok_def)
  with assms(3) obtain s where s: "map_of (scores e) p = Some s" by (metis in_keys_iff)
  let ?e1 = "e\<lparr>scores := map_assign p (s + 1) (scores e)\<rparr>"
  have "tables_ok ?e1" using inv(1) keys assms(3) by (auto simp: tables_ok_def)
  moreover have "board_ok ?e1" using inv(2) by (simp add: board_ok_def)
  ultimately obtain e' where e': "seed_player p ?e1 = Inr e'" "seeded ?e1 e'"
      "keys (players_positions e') = insert p (keys (players_positions e))"
      "blocks_positions e' = blocks_positions e"
    using seed_player_ok [of ?e1 p] by auto
  then have re: "reseeded ?e1 e'" by (simp add: seeded_def)
  note frame = reseeded_frame [OF re]
  from re have "respawned e e'"
    unfolding reseeded_def respawned_def by blast
  moreover have "engine_inv e'"
    using e'(2,3) frame assms inv(3) by (auto simp: engine_inv_def seeded_def players_placed_def)
  moreover have "respawn p e = Inr e'"
    using s e'(1) by (simp add: respawn_def map_at_def)
  ultimately show ?thesis by blast
qed

text \<open>
  Between two iterations of the server's loop: no robot or block is waiting to be destroyed, and a
  game that goes on has turns left.
\<close>

definition idle_inv :: "game_engine \<Rightarrow> bool" where
  "idle_inv e \<longleftrightarrow> engine_inv e \<and> current_players_to_destroy e = Leaf \<and> current_blocks_to_erase e = []
     \<and> (gameplay_started e \<longrightarrow> current_turn e < game_length (game_params e))"

lemma respawn_all_ok:
  assumes "engine_inv e" and "gameplay_started e"
  shows "\<exists>e'. for_each respawn (inorder (current_players_to_destroy e)) e = Inr e'
    \<and> (engine_inv e' \<and> respawned e e')"
proof (rule for_each_total)
  fix p s
  assume "p \<in> set (inorder (current_players_to_destroy e))" and s: "engine_inv s \<and> respawned e s"
  then have "p \<in> keys (players e)"
    using assms by (auto simp: engine_inv_defs elems_def)
  then have "p \<in> keys (players s)" "gameplay_started s"
    using assms(2) respawned_frame [OF conjunct2 [OF s]] by simp_all
  with s respawn_ok [of s p] show "\<exists>s'. respawn p s = Inr s' \<and> engine_inv s' \<and> respawned e s'"
    by (blast intro: respawned_trans)
qed (simp add: assms)

lemma summarise_turn_ok:
  assumes "engine_inv e" and "gameplay_started e"
  shows "\<exists>e'. summarise_turn e = Inr e' \<and> idle_inv e' \<and> game_params e' = game_params e
    \<and> (gameplay_started e' \<longleftrightarrow> current_turn e \<noteq> game_length (game_params e))
    \<and> (gameplay_started e' \<longrightarrow> current_turn e' = current_turn e)"
proof -
  obtain e1 where e1: "for_each respawn (inorder (current_players_to_destroy e)) e = Inr e1"
      "engine_inv e1" "respawned e e1"
    using respawn_all_ok [OF assms] by blast
  note frame = respawned_frame [OF e1(3)]
  obtain t where t: "turn_at e1 (current_turn e1) = Inr t"
    using e1(2) frame assms(2) by (auto simp: turn_at_def engine_inv_defs turns_ok_length)
  let ?e3 = "e1\<lparr>tcp_handler := send_message_to_all (turn_info_to_bytes t) (tcp_handler e1),
    current_blocks_to_erase := [], current_players_to_destroy := Leaf\<rparr>"
  have run: "summarise_turn e =
      Inr (if current_turn ?e3 = game_length (game_params ?e3) then end_gameplay ?e3 else ?e3)"
    using e1(1) t by (simp add: summarise_turn_def Let_def send_to_all_def)
  have inv3: "engine_inv ?e3"
    using e1(2) frame assms(2) by (simp add: engine_inv_defs)
  have le: "current_turn e \<le> game_length (game_params e)"
    using assms by (simp add: engine_inv_def)
  show ?thesis
  proof (cases "current_turn e = game_length (game_params e)")
    case True
    have "engine_inv (end_gameplay ?e3)"
      using inv3 by (intro end_gameplay_ok) (simp_all add: engine_inv_def)
    moreover have "game_params (end_gameplay ?e3) = game_params e" "\<not> gameplay_started (end_gameplay ?e3)"
        "current_players_to_destroy (end_gameplay ?e3) = Leaf" "current_blocks_to_erase (end_gameplay ?e3) = []"
      using frame by (simp_all add: end_gameplay_def send_to_all_def Let_def)
    ultimately show ?thesis
      using run True frame by (simp add: idle_inv_def)
  next
    case False
    with run inv3 frame le assms(2) show ?thesis by (simp add: idle_inv_def order.strict_iff_order)
  qed
qed

subsection \<open>The clients' messages\<close>

lemma acting_player_Some:
  "acting_player i e = Some p \<longleftrightarrow>
     map_of (player_ids e) i = Some p \<and> set_count (<) (current_players_to_destroy e) p \<noteq> 1"
  by (auto simp: acting_player_def split: option.splits)

text \<open>While a game is played, a client that may act has a robot on the board.\<close>

lemma acting_player_placed:
  assumes "engine_inv e" and "gameplay_started e" and "acting_player i e = Some p"
  obtains pos where "map_of (players_positions e) p = Some pos" and "check_position e pos"
proof -
  from assms have "p \<in> keys (players_positions e)"
    by (auto simp: acting_player_Some engine_inv_defs dest!: map_of_in_values)
  then obtain pos where pos: "map_of (players_positions e) p = Some pos" by (auto simp: in_keys_iff)
  from assms(1,2) have "\<forall>q \<in> snd ` set (players_positions e). check_position e q"
    by (simp add: engine_inv_defs)
  with map_of_in_values [OF pos] pos that show ?thesis by blast
qed

text \<open>What the handlers of the three actions keep.\<close>

definition acted :: "game_engine \<Rightarrow> game_engine \<Rightarrow> bool" where
  "acted e e' \<longleftrightarrow> game_params e' = game_params e \<and> tcp_handler e' = tcp_handler e
     \<and> player_ids e' = player_ids e \<and> players e' = players e \<and> scores e' = scores e
     \<and> gameplay_started e' = gameplay_started e \<and> current_turn e' = current_turn e
     \<and> current_players_to_destroy e' = current_players_to_destroy e
     \<and> current_blocks_to_erase e' = current_blocks_to_erase e"

lemma add_event_ok:
  assumes "engine_inv e" and "gameplay_started e"
  shows "\<exists>ts. add_turn_event (current_turn e) ev e = Inr (e\<lparr>turns := ts\<rparr>)
    \<and> engine_inv (e\<lparr>turns := ts\<rparr>)"
proof -
  have "board_ok e" using assms by (simp add: engine_inv_def)
  then obtain ts where ts: "add_turn_event (current_turn e) ev e = Inr (e\<lparr>turns := ts\<rparr>)"
      "turns_ok ts (current_turn e)"
    by (rule board_ok_add_event [where t = "current_turn e" and ev = ev]) auto
  moreover have "engine_inv (e\<lparr>turns := ts\<rparr>)"
    using assms ts(2) by (simp add: engine_inv_defs)
  ultimately show ?thesis by blast
qed

lemma place_bomb_ok:
  assumes "engine_inv e" and "gameplay_started e"
  shows "\<exists>e'. place_bomb_handle_msg i e = Inr e' \<and> engine_inv e' \<and> acted e e'"
proof (cases "acting_player i e")
  case None
  with assms show ?thesis by (simp add: place_bomb_handle_msg_def acted_def)
next
  case (Some p)
  obtain pos where pos: "map_of (players_positions e) p = Some pos" "check_position e pos"
    by (rule acting_player_placed [OF assms Some])
  let ?bomb = "Bomb pos (bomb_timer (game_params e))"
  let ?e2 = "e\<lparr>next_bomb_id := next_bomb_id e + 1, bombs := map_insert (next_bomb_id e) ?bomb (bombs e)\<rparr>"
  have "\<forall>b \<in> snd ` set (map_insert (next_bomb_id e) ?bomb (bombs e)). check_position e (bomb_position b)"
    by (rule ball_map_insert) (use assms pos(2) in \<open>simp_all add: engine_inv_defs\<close>)
  with assms have "engine_inv ?e2" by (simp add: engine_inv_defs)
  with add_event_ok [of ?e2 "Bomb_placed_event (next_bomb_id e) pos"] assms(2) obtain ts where
      "add_turn_event (current_turn e) (Bomb_placed_event (next_bomb_id e) pos) ?e2 = Inr (?e2\<lparr>turns := ts\<rparr>)"
      "engine_inv (?e2\<lparr>turns := ts\<rparr>)"
    by auto
  with Some pos(1) show ?thesis
    by (simp add: place_bomb_handle_msg_def Let_def map_at_def acted_def)
qed

lemma place_block_ok:
  assumes "engine_inv e" and "gameplay_started e"
  shows "\<exists>e'. place_block_handle_msg i e = Inr e' \<and> engine_inv e' \<and> acted e e'"
proof (cases "acting_player i e")
  case None
  with assms show ?thesis by (simp add: place_block_handle_msg_def acted_def)
next
  case (Some p)
  obtain pos where pos: "map_of (players_positions e) p = Some pos" "check_position e pos"
    by (rule acting_player_placed [OF assms Some])
  let ?e1 = "e\<lparr>blocks_positions := pos_insert pos (blocks_positions e)\<rparr>"
  have "\<forall>q \<in> elems (pos_insert pos (blocks_positions e)). check_position e q"
    by (rule positions.ins_keeps) (use assms pos(2) in \<open>simp_all add: engine_inv_defs\<close>)
  with assms have "engine_inv ?e1" by (simp add: engine_inv_defs)
  with add_event_ok [of ?e1 "Block_placed_event pos"] assms(2) obtain ts where
      "add_turn_event (current_turn e) (Block_placed_event pos) ?e1 = Inr (?e1\<lparr>turns := ts\<rparr>)"
      "engine_inv (?e1\<lparr>turns := ts\<rparr>)"
    by auto
  with Some pos(1) show ?thesis
    by (simp add: place_block_handle_msg_def map_at_def acted_def)
qed

lemma move_ok:
  assumes "engine_inv e" and "gameplay_started e"
  shows "\<exists>e'. move_handle_msg indet d i e = Inr e' \<and> engine_inv e' \<and> acted e e'"
proof (cases "acting_player i e")
  case None
  with assms show ?thesis by (simp add: move_handle_msg_def acted_def)
next
  case (Some p)
  obtain pos where pos: "map_of (players_positions e) p = Some pos" "check_position e pos"
    by (rule acting_player_placed [OF assms Some])
  let ?new = "moved_position indet d pos"
  let ?e1 = "e\<lparr>players_positions := map_assign p ?new (players_positions e)\<rparr>"
  show ?thesis
  proof (cases "check_position_to_move e ?new")
    case False
    with Some pos(1) assms show ?thesis by (simp add: move_handle_msg_def map_at_def acted_def)
  next
    case True
    have "\<forall>q \<in> snd ` set (map_assign p ?new (players_positions e)). check_position e q"
      by (rule ball_map_assign) (use assms True in \<open>simp_all add: engine_inv_defs check_position_to_move_def\<close>)
    moreover have "p \<in> keys (players_positions e)"
      using pos(1) by (auto simp: in_keys_iff)
    ultimately have "engine_inv ?e1" using assms by (auto simp: engine_inv_defs)
    with add_event_ok [of ?e1 "Player_moved_event p ?new"] assms(2) obtain ts where
        "add_turn_event (current_turn e) (Player_moved_event p ?new) ?e1 = Inr (?e1\<lparr>turns := ts\<rparr>)"
        "engine_inv (?e1\<lparr>turns := ts\<rparr>)"
      by auto
    with Some pos(1) True show ?thesis
      by (simp add: move_handle_msg_def map_at_def acted_def Let_def)
  qed
qed

text \<open>
  In the lobby there are no robots: an action of a client that has joined throws an exception that
  nobody catches.
\<close>

lemma lobby_action_faults:
  assumes "engine_inv e" and "\<not> gameplay_started e" and "i \<in> keys (player_ids e)"
    and "msg \<in> {Place_bomb_msg, Place_block_msg} \<union> range Move_msg"
  shows "client_handle_msg indet msg i e = Inl Out_of_range"
proof -
  from assms(3) obtain p where "map_of (player_ids e) i = Some p" by (auto simp: in_keys_iff)
  with assms(1,2) have "acting_player i e = Some p" "players_positions e = []"
    by (auto simp: acting_player_def engine_inv_defs set_count_def)
  with assms(4) show ?thesis
    by (auto simp: place_bomb_handle_msg_def place_block_handle_msg_def move_handle_msg_def
        map_at_def Let_def)
qed

lemma lobby_action_ignored:
  assumes "i \<notin> keys (player_ids e)"
    and "msg \<in> {Place_bomb_msg, Place_block_msg} \<union> range Move_msg"
  shows "client_handle_msg indet msg i e = Inr e"
proof -
  from assms(1) have "acting_player i e = None"
    by (auto simp: acting_player_def map_of_None_iff [symmetric])
  with assms(2) show ?thesis
    by (auto simp: place_bomb_handle_msg_def place_block_handle_msg_def move_handle_msg_def)
qed

subsection \<open>Joining\<close>

lemma of_nat_u8_inj: "a < 256 \<Longrightarrow> b < 256 \<Longrightarrow> (of_nat a :: u8) = of_nat b \<longleftrightarrow> a = b"
  by (metis unat_of_nat_small(1))

lemma lobby_join_tables:
  assumes "engine_inv e" and "\<not> gameplay_started e"
  defines "n \<equiv> length (players e)"
  shows "next_player_id e \<notin> keys (players e)"
    and "length (map_insert (next_player_id e) pl (players e)) = Suc n"
    and "keys (map_insert (next_player_id e) pl (players e)) = of_nat ` {..<Suc n}"
    and "next_player_id e + 1 = of_nat (Suc n)"
proof -
  have lobby: "n < unat (players_count (game_params e))" "next_player_id e = of_nat n"
      "keys (players e) = of_nat ` {..<n}" "map_ok (players e)"
    using assms by (simp_all add: engine_inv_defs)
  then have n: "n < 256" using unat_bounds(1) [of "players_count (game_params e)"] by linarith
  show new: "next_player_id e \<notin> keys (players e)"
    unfolding lobby(2,3)
  proof
    assume "(of_nat n :: u8) \<in> of_nat ` {..<n}"
    then obtain k where "k < n" "(of_nat n :: u8) = of_nat k" by blast
    with of_nat_u8_inj [of n k] n show False by simp
  qed
  from new show "length (map_insert (next_player_id e) pl (players e)) = Suc n"
    using lobby(4) by (simp add: length_map_insert n_def)
  show "keys (map_insert (next_player_id e) pl (players e)) = of_nat ` {..<Suc n}"
    by (simp add: lobby(2,3) lessThan_Suc)
  show "next_player_id e + 1 = of_nat (Suc n)" by (simp add: lobby(2) add.commute)
qed

text \<open>
  A join in the lobby: the next identifier is given out, everybody is told, and the game starts when
  the last player has come.
\<close>

definition joined :: "cstring \<Rightarrow> cstring \<Rightarrow> nat \<Rightarrow> game_engine \<Rightarrow> game_engine" where
  "joined name address i e =
     send_to_all (accepted_player_msg (next_player_id e) (Player name address))
       (e\<lparr>next_player_id := next_player_id e + 1,
          player_ids := map_assign i (next_player_id e) (player_ids e),
          players := map_insert (next_player_id e) (Player name address) (players e),
          scores := map_insert (next_player_id e) 0 (scores e)\<rparr>)"

lemma join_handle_msg_lobby:
  assumes "\<not> gameplay_started e" and "map_of (addresses (tcp_handler e)) i = Some address"
  shows "join_handle_msg name i e =
     (if length (players (joined name address i e)) = unat (players_count (game_params e))
      then start_gameplay (joined name address i e) else Inr (joined name address i e))"
  using assms by (simp add: join_handle_msg_def joined_def get_address_def map_at_def Let_def send_to_all_def)

lemma joined_frame [simp, frame_simps]:
  "game_params (joined name address i e) = game_params e"
  "gameplay_started (joined name address i e) = gameplay_started e"
  "player_ids (joined name address i e) = map_assign i (next_player_id e) (player_ids e)"
  "players (joined name address i e) = map_insert (next_player_id e) (Player name address) (players e)"
  "scores (joined name address i e) = map_insert (next_player_id e) 0 (scores e)"
  "next_player_id (joined name address i e) = next_player_id e + 1"
  "players_positions (joined name address i e) = players_positions e"
  "blocks_positions (joined name address i e) = blocks_positions e"
  "turns (joined name address i e) = turns e" "bombs (joined name address i e) = bombs e"
  "current_turn (joined name address i e) = current_turn e"
  "current_players_to_destroy (joined name address i e) = current_players_to_destroy e"
  "current_blocks_to_erase (joined name address i e) = current_blocks_to_erase e"
  by (simp_all add: joined_def send_to_all_def)

lemma joined_tables:
  assumes "engine_inv e"
  shows "tables_ok (joined name address i e)"
proof -
  have "handler_ok (tcp_handler (joined name address i e)) \<longleftrightarrow> handler_ok (tcp_handler e)"
      "random (joined name address i e) = random e"
    by (simp_all add: joined_def send_to_all_def)
  moreover have "tables_ok e" using assms by (simp add: engine_inv_def)
  ultimately show ?thesis
    using snd_map_assign [of i "next_player_id e" "player_ids e"] by (auto simp: tables_ok_def)
qed

lemma joined_lobby:
  assumes "engine_inv e" and "\<not> gameplay_started e"
    and "length (players (joined name address i e)) \<noteq> unat (players_count (game_params e))"
  shows "engine_inv (joined name address i e)"
proof -
  have lobby: "lobby_ok e" using assms(1,2) by (simp add: engine_inv_def)
  then have "lobby_ok (joined name address i e)"
    using lobby_join_tables(2-4) [OF assms(1,2)] assms(3) by (simp add: lobby_ok_def)
  with joined_tables [OF assms(1)] assms(2) show ?thesis by (simp add: engine_inv_def)
qed

lemma join_lobby_ok:
  assumes inv: "engine_inv e" and lobby: "\<not> gameplay_started e"
    and addr: "i \<in> keys (addresses (tcp_handler e))"
  shows "\<exists>e'. join_handle_msg name i e = Inr e' \<and> engine_inv e' \<and> game_params e' = game_params e
    \<and> player_ids e' = map_assign i (next_player_id e) (player_ids e) \<and> current_turn e' = 0
    \<and> current_players_to_destroy e' = Leaf \<and> current_blocks_to_erase e' = current_blocks_to_erase e"
proof -
  from addr obtain address where "map_of (addresses (tcp_handler e)) i = Some address"
    by (auto simp: in_keys_iff)
  note join = join_handle_msg_lobby [OF lobby this, of name]
  let ?e1 = "joined name address i e"
  have l: "players_positions e = []" "turns e = []" "current_turn e = 0" "bombs e = []"
      "blocks_positions e = Leaf" "current_players_to_destroy e = Leaf" "current_blocks_to_erase e = []"
    using inv lobby by (simp_all add: engine_inv_def lobby_ok_def)
  show ?thesis
  proof (cases "length (players ?e1) = unat (players_count (game_params e))")
    case False
    with join joined_lobby [OF inv lobby False] l show ?thesis by simp
  next
    case True
    then obtain e' where "start_gameplay ?e1 = Inr e'" "engine_inv e'" "player_ids e' = player_ids ?e1"
        "game_params e' = game_params ?e1" "current_turn e' = 0"
        "current_players_to_destroy e' = current_players_to_destroy ?e1"
        "current_blocks_to_erase e' = current_blocks_to_erase ?e1"
      using start_gameplay_ok [OF joined_tables [OF inv], of name address i] l by auto
    with join True l show ?thesis by simp
  qed
qed

end
