(* ===== verification/Server.thy ===== *)
theory Server
  imports Engine_Inv
begin

text \<open>
  The server's loop: reading and decoding what a client sent (\<open>Game_engine::handle_msg\<close>), one iteration
  of \<open>manage_connections\<close>, the loop itself, and \<open>main\<close> of \<open>robots-server.cpp\<close>. Everything an iteration
  gets from the operating system is collected in the record \<open>loop_env\<close>.
\<close>

subsection \<open>Decoding\<close>

text \<open>
  One round of the loop in \<open>handle_msg\<close>: \<open>None\<close> when \<open>MsgException\<close> is thrown, by a reader or by the
  default case.
\<close>

definition parse_one :: "server_tcp_handler \<Rightarrow> client_message option \<times> server_tcp_handler" where
  "parse_one h =
     (case read_uint8 h of
        (None, h1) \<Rightarrow> (None, h1)
      | (Some b, h1) \<Rightarrow>
          (case client_code_of_byte b of
             Some Join \<Rightarrow> (let (name, h2) = read_string h1 in (map_option Join_msg name, h2))
           | Some Place_bomb_client \<Rightarrow> (Some Place_bomb_msg, h1)
           | Some Place_block_client \<Rightarrow> (Some Place_block_msg, h1)
           | Some Move_client \<Rightarrow>
               (let (d, h2) = read_uint8 h1 in (map_option (\<lambda>d. Move_msg (direction_of_byte d)) d, h2))
           | None \<Rightarrow> (None, h1)))"

lemma read_uint8_length:
  "buf_length (snd (read_uint8 h)) \<le> buf_length h"
  "read_uint8 h = (Some b, h1) \<Longrightarrow> buf_length h1 < buf_length h \<and> 0 < buf_length h"
  by (auto simp: read_uint8_def current_buf_update_def split: if_splits)

lemma read_string_length: "buf_length (snd (read_string h)) \<le> buf_length h"
proof (cases "read_uint8 h")
  case (Pair r h1)
  with read_uint8_length(1) [of h] have "buf_length h1 \<le> buf_length h" by simp
  moreover have "buf_length (snd (read_string h)) \<le> buf_length h1"
    using Pair by (cases r) (simp_all add: read_string_def current_buf_update_def)
  ultimately show ?thesis by simp
qed

lemma parse_one_length:
  assumes "parse_one h = (Some m, h1)"
  shows "buf_length h1 < buf_length h \<and> 0 < buf_length h"
proof -
  obtain b h' where b: "read_uint8 h = (Some b, h')"
    using assms by (auto simp: parse_one_def split: prod.splits option.splits)
  then have lt: "buf_length h' < buf_length h \<and> 0 < buf_length h" by (rule read_uint8_length(2))
  have "h1 = h' \<or> h1 = snd (read_string h') \<or> h1 = snd (read_uint8 h')"
    using assms b
    by (auto simp: parse_one_def Let_def split_beta split: option.splits client_message_code.splits)
  with lt read_string_length [of h'] read_uint8_length(1) [of h'] show ?thesis by auto
qed

text \<open>Each message found replaces the one before it; the last one is kept.\<close>

function parse_msgs :: "server_tcp_handler \<Rightarrow> client_message option \<times> server_tcp_handler" where
  "parse_msgs h =
     (case parse_one h of
        (None, h1) \<Rightarrow> (None, h1)
      | (Some msg, h1) \<Rightarrow> if is_buf_empty h1 then (Some msg, h1) else parse_msgs h1)"
  by pat_completeness auto
termination
  by (relation "measure (\<lambda>h. nat (buf_length h))") (auto dest!: parse_one_length [OF sym])

declare parse_msgs.simps [simp del]

definition handle_msg ::
    "position \<Rightarrow> read_result \<Rightarrow> nat \<Rightarrow> game_engine \<Rightarrow> (message_recv_status \<times> game_engine) res" where
  "handle_msg indet received i e =
     (let (status, h) = read_from received (tcp_handler e) in
      if status \<noteq> POTENTIALLY_SUCCESS then Inr (status, e\<lparr>tcp_handler := h\<rparr>)
      else case parse_msgs h of
             (None, h1) \<Rightarrow> Inr (ERROR_MSG, e\<lparr>tcp_handler := h1\<rparr>)
           | (Some msg, h1) \<Rightarrow>
               and_then (client_handle_msg indet msg i (e\<lparr>tcp_handler := h1\<rparr>)) (\<lambda>e1. Inr (SUCCESS, e1)))"

subsection \<open>The loop\<close>

text \<open>
  The result and the returned events of \<open>poll\<close>, whether the interrupt came before this result is looked
  at, or in the rest of the iteration, what \<open>accept\<close>
  returns, what \<open>read\<close> on each slot returns, and the indeterminate position a handler may see.
\<close>

record loop_env =
  env_poll :: int
  env_revents :: "nat \<Rightarrow> u16"
  env_interrupted :: bool
  env_interrupted_later :: bool
  env_accept :: "int \<times> cstring \<times> u16"
  env_read :: "nat \<Rightarrow> read_result"
  env_indet :: "nat \<Rightarrow> position"

text \<open>
  The condition \<open>int i = tcp_handler.accept_client() >= 0\<close> gives \<open>i\<close> the value of the comparison: the
  greeting goes to slot 1 whatever slot was filled.
\<close>

definition accept_new :: "loop_env \<Rightarrow> game_engine \<Rightarrow> game_engine" where
  "accept_new env e =
     (let (client_fd, ip, prt) = env_accept env;
          (accepted_pos, h) = accept_client client_fd ip prt (tcp_handler e);
          e1 = e\<lparr>tcp_handler := h\<rparr>;
          i = (if accepted_pos \<ge> 0 then 1 else 0)
      in if i \<noteq> 0 then send_hello_state i (send_hello i e1) else e1)"

definition serve_slot :: "loop_env \<Rightarrow> nat \<Rightarrow> game_engine \<Rightarrow> game_engine res" where
  "serve_slot env i e =
     (if is_message_from (tcp_handler e) i
      then and_then (handle_msg (env_indet env i) (env_read env i) i e) (\<lambda>(status, e1).
        Inr (e1\<lparr>tcp_handler := report_msg_status status i (tcp_handler e1)\<rparr>))
      else Inr e)"

definition serve_clients :: "loop_env \<Rightarrow> game_engine \<Rightarrow> game_engine res" where
  "serve_clients env e =
     for_each (serve_slot env) [1..<conn_max]
       (if is_new_connection (tcp_handler e) then accept_new env e else e)"

definition loop_iteration :: "loop_env \<Rightarrow> game_engine \<Rightarrow> game_engine res" where
  "loop_iteration env e =
     (let e0 = e\<lparr>tcp_handler := reset_revents (tcp_handler e)\<rparr> in
      and_then (if gameplay_started e0 then begin_turn e0 else Inr e0) (\<lambda>e1.
      let e2 = e1\<lparr>tcp_handler := poll_exec (env_revents env) (tcp_handler e1)\<rparr> in
      and_then
        (if env_poll env = -1 then exit_with_msg
         else if \<not> env_interrupted env \<and> env_poll env > 0 then serve_clients env e2
         else Inr e2) (\<lambda>e3.
      if gameplay_started e3 then summarise_turn e3 else Inr e3)))"

text \<open>
  \<open>catch_int\<close>, installed for SIGINT, sets the flag \<open>finish_server\<close>; the loop looks at it at its head. The
  list has what the environment does in the coming iterations: when it is used up and the flag is not
  set, the server is still running. A signal that interrupts \<open>poll\<close> makes it return -1.
\<close>

definition catch_int :: "bool \<Rightarrow> bool \<Rightarrow> bool" where
  "catch_int arrived finish_server \<longleftrightarrow> arrived \<or> finish_server"

fun serve_until_finished :: "bool \<Rightarrow> loop_env list \<Rightarrow> game_engine \<Rightarrow> (bool \<times> game_engine) res" where
  "serve_until_finished finish_server [] e = Inr (finish_server, e)"
| "serve_until_finished finish_server (env # envs) e =
     (if finish_server then Inr (finish_server, e)
      else and_then (loop_iteration env e)
        (serve_until_finished (catch_int (env_interrupted env \<or> env_interrupted_later env) finish_server) envs))"

definition manage_connections ::
    "(int \<Rightarrow> int) \<Rightarrow> loop_env list \<Rightarrow> game_engine \<Rightarrow> (bool \<times> game_engine) res" where
  "manage_connections close_errno envs e =
     and_then (serve_until_finished False envs e) (\<lambda>(finish_server, e1).
       if finish_server
       then and_then (close_conn close_errno (tcp_handler e1)) (\<lambda>h. Inr (True, e1\<lparr>tcp_handler := h\<rparr>))
       else Inr (False, e1))"

definition start_game ::
    "int \<Rightarrow> (int \<Rightarrow> int) \<Rightarrow> loop_env list \<Rightarrow> game_engine \<Rightarrow> (bool \<times> game_engine) res" where
  "start_game listen_errno close_errno envs e =
     and_then (start_listening listen_errno (tcp_handler e)) (\<lambda>h.
       manage_connections close_errno envs (e\<lparr>tcp_handler := h\<rparr>))"

text \<open>\<open>main\<close>: the command line, the descriptors, the game.\<close>

definition robots_server ::
    "('argv \<Rightarrow> server_options option) \<Rightarrow> u32 \<Rightarrow> server_parameters \<Rightarrow> u16 \<Rightarrow> 'argv \<Rightarrow> byte list \<Rightarrow> int \<Rightarrow> int \<Rightarrow>
     int \<Rightarrow> (int \<Rightarrow> int) \<Rightarrow> loop_env list \<Rightarrow> (bool \<times> game_engine) res" where
  "robots_server parse_options clock indet indet_count argv indet_buf socket_fd bind_errno listen_errno close_errno envs =
     and_then (parse_parameters parse_options clock indet indet_count argv) (\<lambda>params.
     and_then (new_tcp_handler indet_buf socket_fd bind_errno (port params)) (\<lambda>h.
       start_game listen_errno close_errno envs (new_game_engine params h)))"

text \<open>The iterations that are executed: those up to the first with an interrupt.\<close>

definition interrupted :: "loop_env \<Rightarrow> bool" where
  "interrupted env \<longleftrightarrow> env_interrupted env \<or> env_interrupted_later env"

fun until_interrupt :: "loop_env list \<Rightarrow> loop_env list" where
  "until_interrupt [] = []"
| "until_interrupt (env # envs) = env # (if interrupted env then [] else until_interrupt envs)"

lemma serve_until_finished_eq:
  "serve_until_finished False envs e =
     and_then (for_each loop_iteration (until_interrupt envs) e) (\<lambda>e1. Inr (list_ex interrupted envs, e1))"
proof (induction envs arbitrary: e)
  case (Cons env envs)
  have stop: "serve_until_finished True envs e1 = Inr (True, e1)" for e1 by (cases envs) simp_all
  show ?case
  proof (cases "loop_iteration env e")
    case (Inr e1)
    show ?thesis
    proof (cases "interrupted env")
      case True
      with Inr stop show ?thesis by (simp add: interrupted_def catch_int_def)
    next
      case False
      with Inr Cons.IH [of e1] show ?thesis by (simp add: interrupted_def catch_int_def)
    qed
  qed simp
qed simp

subsection \<open>What the decoder computes\<close>

text \<open>The decoder on the received bytes alone.\<close>

fun decode_one :: "byte list \<Rightarrow> (client_message \<times> byte list) option" where
  "decode_one [] = None"
| "decode_one (b # bs) =
     (case client_code_of_byte b of
        Some Join \<Rightarrow>
          (case bs of
             [] \<Rightarrow> None
           | n # cs \<Rightarrow> if length cs < unat n then None
               else Some (Join_msg (take (unat n) cs), drop (unat n) cs))
      | Some Place_bomb_client \<Rightarrow> Some (Place_bomb_msg, bs)
      | Some Place_block_client \<Rightarrow> Some (Place_block_msg, bs)
      | Some Move_client \<Rightarrow>
          (case bs of [] \<Rightarrow> None | d # cs \<Rightarrow> Some (Move_msg (direction_of_byte d), cs))
      | None \<Rightarrow> None)"

lemma decode_one_length: "decode_one bs = Some (m, rest) \<Longrightarrow> length rest < length bs"
  by (cases bs) (auto split: option.splits client_message_code.splits list.splits if_splits)

function decode_last :: "byte list \<Rightarrow> client_message option" where
  "decode_last bs =
     (case decode_one bs of
        None \<Rightarrow> None
      | Some (msg, rest) \<Rightarrow> if rest = [] then Some msg else decode_last rest)"
  by pat_completeness auto
termination
  by (relation "measure length") (auto dest: decode_one_length)

declare decode_last.simps [simp del]

lemma parse_one_decode:
  assumes "buffer_ok h"
  shows "buffer_ok (snd (parse_one h)) \<and>
    (case decode_one (unread h) of
       None \<Rightarrow> fst (parse_one h) = None
     | Some (m, rest) \<Rightarrow> fst (parse_one h) = Some m \<and> unread (snd (parse_one h)) = rest)"
proof (cases "unread h")
  case Nil
  with assms show ?thesis by (simp add: parse_one_def read_uint8_unread)
next
  case (Cons b bs)
  let ?h1 = "current_buf_update 1 h"
  have b: "read_uint8 h = (Some b, ?h1)" using assms Cons by (simp add: read_uint8_unread)
  have h1: "buffer_ok ?h1" "unread ?h1 = bs"
    using current_buf_update_ok [OF assms, of 1] Cons by simp_all
  note rest = current_buf_update_ok [OF h1(1)]
  show ?thesis
  proof (cases "client_code_of_byte b")
    case None
    with b h1 Cons show ?thesis by (simp add: parse_one_def)
  next
    case (Some code)
    show ?thesis
    proof (cases code)
      case Join
      show ?thesis
      proof (cases bs)
        case Nil
        with Some Join b h1 Cons show ?thesis by (simp add: parse_one_def read_string_unread)
      next
        case (Cons n cs)
        let ?h2 = "current_buf_update 1 ?h1"
        have h2: "buffer_ok ?h2" "unread ?h2 = cs" using rest [of 1] h1(2) Cons by simp_all
        have "buffer_ok (current_buf_update (unat n) ?h2) \<and>
            unread (current_buf_update (unat n) ?h2) = drop (unat n) cs" if "\<not> length cs < unat n"
          using current_buf_update_ok [OF h2(1), of "unat n"] h2(2) that by simp
        with Some Join b h1 h2 Cons \<open>unread h = b # bs\<close> show ?thesis
          by (simp add: parse_one_def read_string_unread Let_def)
      qed
    next
      case Move_client
      with Some b h1 Cons rest [of 1] show ?thesis
        by (cases bs) (simp_all add: parse_one_def read_uint8_unread Let_def)
    qed (use Some b h1 Cons in \<open>simp_all add: parse_one_def\<close>)
  qed
qed

lemma read_nonneg:
  "read_uint8 h = (Some b, h1) \<Longrightarrow> 0 \<le> buf_length h1"
  "read_string h = (Some str, h1) \<Longrightarrow> 0 \<le> buf_length h1"
  by (auto simp: read_uint8_def read_string_def current_buf_update_def
      split: if_splits prod.splits option.splits)

lemma parse_one_nonneg: "parse_one h = (Some m, h1) \<Longrightarrow> 0 \<le> buf_length h1"
  by (auto simp: parse_one_def Let_def split: prod.splits option.splits client_message_code.splits
      dest: read_nonneg)

lemma parse_msgs_decode:
  "buffer_ok h \<Longrightarrow> fst (parse_msgs h) = decode_last (unread h) \<and> buffer_ok (snd (parse_msgs h))"
proof (induction h rule: parse_msgs.induct)
  case (1 h)
  obtain r h1 where p: "parse_one h = (r, h1)" by fastforce
  note one = parse_one_decode [OF "1.prems"]
  show ?case
  proof (cases "decode_one (unread h)")
    case None
    with one p show ?thesis by (simp add: parse_msgs.simps [of h] decode_last.simps [of "unread h"])
  next
    case (Some mr)
    then obtain m rest where mr: "decode_one (unread h) = Some (m, rest)" by (cases mr) auto
    with one p have h1: "r = Some m" "unread h1 = rest" "buffer_ok h1" by simp_all
    have "is_buf_empty h1 \<longleftrightarrow> rest = []"
      using length_unread [OF h1(3)] parse_one_nonneg [of h m h1] p h1(1,2)
      by (auto simp: is_buf_empty_def)
    with "1.IH" [OF p [symmetric]] mr p h1 show ?thesis
      by (simp add: parse_msgs.simps [of h] decode_last.simps [of "unread h"])
  qed
qed

subsection \<open>One slot\<close>

text \<open>What a read hands to the game: the last message of the received bytes, if all are well-formed.\<close>

definition received_message :: "read_result \<Rightarrow> client_message option" where
  "received_message r =
     (case r of Read_failed \<Rightarrow> None
      | Read_bytes bytes \<Rightarrow> if take buf_size bytes = [] then None else decode_last (take buf_size bytes))"

text \<open>Reading touches the buffer only.\<close>

definition same_connections :: "server_tcp_handler \<Rightarrow> server_tcp_handler \<Rightarrow> bool" where
  "same_connections h h' \<longleftrightarrow> poll_descriptors h' = poll_descriptors h \<and> addresses h' = addresses h
     \<and> active_clients h' = active_clients h \<and> wire h' = wire h \<and> closed_fds h' = closed_fds h"

lemma same_connections_trans: "same_connections a b \<Longrightarrow> same_connections b c \<Longrightarrow> same_connections a c"
  by (simp add: same_connections_def)

lemma same_connections_read [simp]:
  "same_connections h (snd (read_from r h))" "same_connections h (snd (read_uint8 h))"
  "same_connections h (snd (read_string h))"
proof -
  show u: "same_connections h (snd (read_uint8 h))" for h
    by (simp add: same_connections_def read_uint8_def current_buf_update_def)
  show "same_connections h (snd (read_from r h))"
    by (auto simp: same_connections_def read_from_def Let_def split: read_result.splits)
  show "same_connections h (snd (read_string h))"
    using u [of h]
    by (auto simp: read_string_def same_connections_def current_buf_update_def
        split: prod.splits option.splits)
qed

lemma same_connections_parse_one [simp]: "same_connections h (snd (parse_one h))"
proof (cases "read_uint8 h")
  case (Pair r h1)
  have "same_connections h h1" using same_connections_read(2) [of h] Pair by simp
  then have "same_connections h (snd (read_string h1))" "same_connections h (snd (read_uint8 h1))"
    by (blast intro: same_connections_trans same_connections_read)+
  with Pair \<open>same_connections h h1\<close> show ?thesis
    by (auto simp: parse_one_def Let_def split_beta split: option.splits client_message_code.splits)
qed

lemma same_connections_parse_msgs: "same_connections h (snd (parse_msgs h))"
proof (induction h rule: parse_msgs.induct)
  case (1 h)
  obtain r h1 where p: "parse_one h = (r, h1)" by fastforce
  with same_connections_parse_one [of h] have "same_connections h h1" by simp
  with 1 [OF p [symmetric]] show ?case
    by (auto simp: parse_msgs.simps [of h] p split: option.splits intro: same_connections_trans)
qed

lemma handler_ok_same:
  "handler_ok h \<Longrightarrow> same_connections h h' \<Longrightarrow> buffer_ok h' \<Longrightarrow> handler_ok h'"
  by (simp add: handler_ok_def same_connections_def slot_fd_def)

lemma unread_read_from:
  assumes "buffer_ok h"
  shows "unread (snd (read_from (Read_bytes bytes) h)) = take buf_size bytes"
  using assms by (simp add: read_from_def unread_def Let_def min_def)

lemma handle_msg_cases:
  assumes "handler_ok (tcp_handler e)"
  obtains h status where "handler_ok h" "same_connections (tcp_handler e) h" "status \<noteq> SUCCESS"
    "handle_msg indet r i e =
      (case received_message r of
         None \<Rightarrow> Inr (status, e\<lparr>tcp_handler := h\<rparr>)
       | Some msg \<Rightarrow> and_then (client_handle_msg indet msg i (e\<lparr>tcp_handler := h\<rparr>)) (\<lambda>e1. Inr (SUCCESS, e1)))"
proof -
  obtain st h0 where r0: "read_from r (tcp_handler e) = (st, h0)" by fastforce
  have ok0: "handler_ok h0" "same_connections (tcp_handler e) h0"
    using handler_ok_read_from [OF assms, of r] same_connections_read(1) [of "tcp_handler e" r] r0
    by simp_all
  show ?thesis
  proof (cases "st = POTENTIALLY_SUCCESS")
    case False
    then have "st \<noteq> SUCCESS" "received_message r = None"
      using r0 by (auto simp: read_from_def received_message_def Let_def split: read_result.splits if_splits)
    with ok0 False r0 that [of h0 st] show ?thesis by (simp add: handle_msg_def)
  next
    case True
    then obtain bytes where bytes: "r = Read_bytes bytes" "take buf_size bytes \<noteq> []"
      using r0 by (auto simp: read_from_def Let_def split: read_result.splits if_splits)
    obtain m h1 where p: "parse_msgs h0 = (m, h1)" by fastforce
    have "buffer_ok h0" using ok0(1) by (simp add: handler_ok_def)
    from parse_msgs_decode [OF this] p have m: "m = decode_last (unread h0)" "buffer_ok h1" by simp_all
    have "unread h0 = take buf_size bytes"
      using unread_read_from [of "tcp_handler e" bytes] assms r0 bytes(1) by (simp add: handler_ok_def)
    with m bytes have "received_message r = m" by (simp add: received_message_def)
    moreover have "same_connections h0 h1" using same_connections_parse_msgs [of h0] p by simp
    then have "handler_ok h1" "same_connections (tcp_handler e) h1"
      using handler_ok_same [OF ok0(1) _ m(2)] ok0(2) by (auto intro: same_connections_trans)
    ultimately show ?thesis
      using that [of h1 ERROR_MSG] True r0 p by (auto simp: handle_msg_def split: option.splits)
  qed
qed

lemma engine_inv_handler:
  assumes "engine_inv e" and "handler_ok h"
  shows "engine_inv (e\<lparr>tcp_handler := h\<rparr>)"
proof -
  have "board_ok (e\<lparr>tcp_handler := h\<rparr>) = board_ok e" "lobby_ok (e\<lparr>tcp_handler := h\<rparr>) = lobby_ok e"
      "players_placed (e\<lparr>tcp_handler := h\<rparr>) = players_placed e"
    by (simp_all add: board_ok_def lobby_ok_def players_placed_def)
  moreover have "tables_ok (e\<lparr>tcp_handler := h\<rparr>)"
    using assms by (simp add: engine_inv_def tables_ok_def)
  ultimately show ?thesis using assms(1) by (simp add: engine_inv_def)
qed

fun is_join :: "client_message \<Rightarrow> bool" where
  "is_join (Join_msg name) = True"
| "is_join m = False"

lemma not_join: "\<not> is_join m \<Longrightarrow> m \<in> {Place_bomb_msg, Place_block_msg} \<union> range Move_msg"
  by (cases m) auto

text \<open>
  A message in the lobby, from a slot whose client has joined, is harmless only if it is another join.
\<close>

definition safe_message :: "client_message \<Rightarrow> nat \<Rightarrow> game_engine \<Rightarrow> bool" where
  "safe_message m i e \<longleftrightarrow> gameplay_started e \<or> i \<notin> keys (player_ids e) \<or> is_join m"

text \<open>What serving a slot leaves as it is.\<close>

definition served :: "nat \<Rightarrow> game_engine \<Rightarrow> game_engine \<Rightarrow> bool" where
  "served i e e' \<longleftrightarrow> engine_inv e' \<and> game_params e' = game_params e
     \<and> (\<forall>j. j \<noteq> i \<longrightarrow> map_of (player_ids e') j = map_of (player_ids e) j)
     \<and> (gameplay_started e \<longrightarrow> gameplay_started e' \<and> current_turn e' = current_turn e)"

lemma client_handle_msg_ok:
  assumes inv: "engine_inv e" and addr: "i \<in> keys (addresses (tcp_handler e))"
    and safe: "safe_message m i e"
  shows "\<exists>e'. client_handle_msg indet m i e = Inr e' \<and> served i e e'"
proof (cases "gameplay_started e")
  case True
  have acted: "served i e e'" if "engine_inv e'" "acted e e'" for e'
    using that True by (simp add: served_def acted_def)
  show ?thesis
  proof (cases m)
    case (Join_msg name)
    with True inv show ?thesis by (simp add: join_handle_msg_def served_def)
  qed (use inv True place_bomb_ok place_block_ok move_ok acted in \<open>fastforce+\<close>)
next
  case False
  show ?thesis
  proof (cases "is_join m")
    case True
    then obtain name where "m = Join_msg name" by (cases m) auto
    moreover have "map_ok (player_ids e)" using inv by (simp add: engine_inv_def tables_ok_def)
    ultimately show ?thesis
      using join_lobby_ok [OF inv False addr, of name] False by (auto simp: served_def)
  next
    case notjoin: False
    with False safe have "i \<notin> keys (player_ids e)" by (simp add: safe_message_def)
    with lobby_action_ignored [OF this not_join [OF notjoin]] inv show ?thesis
      by (simp add: served_def)
  qed
qed

lemma client_handle_msg_unsafe:
  assumes "engine_inv e" and "\<not> safe_message m i e"
  shows "client_handle_msg indet m i e = Inl Out_of_range"
  using assms lobby_action_faults [of e i m indet] not_join [of m] by (auto simp: safe_message_def)

lemma served_trans_handler:
  "served i e e' \<Longrightarrow> handler_ok h \<Longrightarrow> served i e (e'\<lparr>tcp_handler := h\<rparr>)"
  by (simp add: served_def engine_inv_handler)

lemma safe_message_handler [simp]:
  "safe_message m i (e\<lparr>tcp_handler := h\<rparr>) = safe_message m i e"
  by (simp add: safe_message_def)

lemma served_handler [simp]: "served i (e\<lparr>tcp_handler := h\<rparr>) = served i e"
  by (simp add: served_def fun_eq_iff)

definition safe_slot :: "loop_env \<Rightarrow> nat \<Rightarrow> game_engine \<Rightarrow> bool" where
  "safe_slot env i e \<longleftrightarrow>
     (case received_message (env_read env i) of None \<Rightarrow> True | Some m \<Rightarrow> safe_message m i e)"

lemma serve_slot_ok:
  assumes inv: "engine_inv e" and i: "0 < i" "i < conn_max"
    and safe: "is_message_from (tcp_handler e) i \<Longrightarrow> safe_slot env i e"
  shows "\<exists>e'. serve_slot env i e = Inr e' \<and> served i e e'"
proof (cases "is_message_from (tcp_handler e) i")
  case False
  with inv show ?thesis by (simp add: serve_slot_def served_def)
next
  case True
  have hok: "handler_ok (tcp_handler e)" using inv by (simp add: engine_inv_def tables_ok_def)
  obtain h status where h: "handler_ok h" "same_connections (tcp_handler e) h"
    and run: "handle_msg (env_indet env i) (env_read env i) i e =
      (case received_message (env_read env i) of
         None \<Rightarrow> Inr (status, e\<lparr>tcp_handler := h\<rparr>)
       | Some msg \<Rightarrow> and_then (client_handle_msg (env_indet env i) msg i (e\<lparr>tcp_handler := h\<rparr>))
           (\<lambda>e1. Inr (SUCCESS, e1)))"
    by (rule handle_msg_cases [OF hok])
  have invh: "engine_inv (e\<lparr>tcp_handler := h\<rparr>)" by (rule engine_inv_handler [OF inv h(1)])
  have addr: "i \<in> keys (addresses h)"
    using True i hok h(2) by (simp add: is_message_from_def handler_ok_def same_connections_def)
  show ?thesis
  proof (cases "received_message (env_read env i)")
    case None
    have "served i e (e\<lparr>tcp_handler := report_msg_status status i h\<rparr>)"
      using engine_inv_handler [OF inv handler_ok_report [OF h(1) i(2)]] by (simp add: served_def)
    with None True run show ?thesis by (simp add: serve_slot_def)
  next
    case (Some m)
    with safe True have "safe_message m i (e\<lparr>tcp_handler := h\<rparr>)" by (simp add: safe_slot_def)
    with client_handle_msg_ok [OF invh, of i m] addr obtain e' where
      "client_handle_msg (env_indet env i) m i (e\<lparr>tcp_handler := h\<rparr>) = Inr e'" "served i e e'"
      by auto
    moreover from this have "handler_ok (tcp_handler e')"
      by (simp add: served_def engine_inv_def tables_ok_def)
    ultimately show ?thesis
      using Some True run by (auto simp: serve_slot_def report_msg_status_def intro: served_trans_handler)
  qed
qed

lemma serve_slot_unsafe:
  assumes inv: "engine_inv e" and "is_message_from (tcp_handler e) i" and "\<not> safe_slot env i e"
  shows "serve_slot env i e = Inl Out_of_range"
proof -
  have hok: "handler_ok (tcp_handler e)" using inv by (simp add: engine_inv_def tables_ok_def)
  obtain m where m: "received_message (env_read env i) = Some m" "\<not> safe_message m i e"
    using assms(3) by (auto simp: safe_slot_def split: option.splits)
  obtain h where "handler_ok h" and "handle_msg (env_indet env i) (env_read env i) i e =
      and_then (client_handle_msg (env_indet env i) m i (e\<lparr>tcp_handler := h\<rparr>)) (\<lambda>e1. Inr (SUCCESS, e1))"
    using handle_msg_cases [OF hok, of "env_indet env i" "env_read env i" i] m(1) by auto
  with client_handle_msg_unsafe [OF engine_inv_handler [OF inv]] m(2) assms(2) show ?thesis
    by (simp add: serve_slot_def)
qed

text \<open>A slot that was safe stays safe while other slots are served.\<close>

lemma served_safe: "served i e e' \<Longrightarrow> j \<noteq> i \<Longrightarrow> safe_slot env j e \<Longrightarrow> safe_slot env j e'"
  by (auto simp: served_def safe_slot_def safe_message_def map_of_None_iff [symmetric] split: option.splits)

lemma serve_slots_ok:
  assumes "engine_inv e" and "distinct is" and "\<forall>i \<in> set is. 0 < i \<and> i < conn_max \<and> safe_slot env i e"
  shows "\<exists>e'. for_each (serve_slot env) is e = Inr e' \<and> engine_inv e' \<and> game_params e' = game_params e
    \<and> (gameplay_started e \<longrightarrow> gameplay_started e' \<and> current_turn e' = current_turn e)"
  using assms
proof (induction "is" arbitrary: e)
  case (Cons i "is")
  then obtain e1 where e1: "serve_slot env i e = Inr e1" "served i e e1"
    using serve_slot_ok [of e i env] by auto
  then have "\<forall>j \<in> set is. 0 < j \<and> j < conn_max \<and> safe_slot env j e1"
    using Cons.prems served_safe by fastforce
  then obtain e2 where "for_each (serve_slot env) is e1 = Inr e2" "engine_inv e2" "game_params e2 = game_params e1"
      "gameplay_started e1 \<longrightarrow> gameplay_started e2 \<and> current_turn e2 = current_turn e1"
    using Cons.IH [of e1] Cons.prems(2) e1(2) by (auto simp: served_def)
  with e1 show ?case by (auto simp: served_def)
qed simp

subsection \<open>One iteration\<close>

lemma send_frame:
  assumes "handler_ok (tcp_handler e)"
  shows "\<exists>h. send_hello_state i (send_hello i e) = e\<lparr>tcp_handler := h\<rparr> \<and> handler_ok h"
proof -
  let ?only_handler = "\<lambda>e e'. \<exists>h. e' = e\<lparr>tcp_handler := h\<rparr> \<and> handler_ok h"
  have send: "?only_handler e (send_to i msg e')" if "?only_handler e e'" for e' msg
    using that by (auto simp: send_to_def)
  have fold: "?only_handler e (fold f xs e')"
    if "?only_handler e e'" and "\<And>x e'. ?only_handler e e' \<Longrightarrow> ?only_handler e (f x e')" for f xs e'
    using that(1) by (induction xs arbitrary: e') (simp_all add: that(2))
  have "?only_handler e e" using assms by (intro exI [of _ "tcp_handler e"]) simp
  then have "?only_handler e (send_hello i e)" unfolding send_hello_def by (rule send)
  then show ?thesis
    unfolding send_hello_state_def send_all_turns_def send_all_accepted_player_def
    by (auto intro!: fold send simp: send_turn_def send_accepted_player_def send_game_started_def)
qed

lemma accept_new_frame:
  assumes "engine_inv e"
  shows "\<exists>h. accept_new env e = e\<lparr>tcp_handler := h\<rparr> \<and> handler_ok h"
proof -
  have hok: "handler_ok (tcp_handler e)" using assms by (simp add: engine_inv_def tables_ok_def)
  obtain d ip prt where env: "env_accept env = (d, ip, prt)" by (cases "env_accept env")
  obtain pos h where h: "accept_client d ip prt (tcp_handler e) = (pos, h)" by fastforce
  with handler_ok_accept [OF hok, of d ip prt] have "handler_ok h" by simp
  with send_frame [of "e\<lparr>tcp_handler := h\<rparr>" 1] env h show ?thesis
    by (auto simp: accept_new_def)
qed

definition safe_env :: "loop_env \<Rightarrow> game_engine \<Rightarrow> bool" where
  "safe_env env e \<longleftrightarrow> list_all (\<lambda>i. safe_slot env i e) [1..<conn_max]"

lemma accept_if_new:
  assumes "engine_inv e"
  obtains h where "(if is_new_connection (tcp_handler e) then accept_new env e else e) = e\<lparr>tcp_handler := h\<rparr>"
    and "handler_ok h"
proof (cases "is_new_connection (tcp_handler e)")
  case True
  with accept_new_frame [OF assms(1), of env] that show ?thesis by auto
next
  case False
  with assms(1) that [of "tcp_handler e"] show ?thesis
    by (simp add: engine_inv_def tables_ok_def)
qed

lemma serve_clients_ok:
  assumes "engine_inv e" and "safe_env env e"
  shows "\<exists>e'. serve_clients env e = Inr e' \<and> engine_inv e' \<and> game_params e' = game_params e
    \<and> (gameplay_started e \<longrightarrow> gameplay_started e' \<and> current_turn e' = current_turn e)"
proof -
  obtain h where h: "(if is_new_connection (tcp_handler e) then accept_new env e else e)
      = e\<lparr>tcp_handler := h\<rparr>" "handler_ok h"
    by (rule accept_if_new [OF assms(1)])
  have safe: "safe_slot env i (e\<lparr>tcp_handler := h\<rparr>) = safe_slot env i e" for i
    by (simp add: safe_slot_def cong: option.case_cong)
  show ?thesis
    unfolding serve_clients_def h
    using serve_slots_ok [OF engine_inv_handler [OF assms(1) h(2)], of "[1..<conn_max]" env] assms(2)
    by (auto simp: safe safe_env_def list_all_iff)
qed

lemma begin_if_started:
  assumes "idle_inv e"
  obtains e1 where
    "(if gameplay_started e then begin_turn e else Inr e) = Inr e1"
    "engine_inv e1" "game_params e1 = game_params e" "gameplay_started e1 = gameplay_started e"
    "player_ids e1 = player_ids e" "tcp_handler e1 = tcp_handler e"
    "gameplay_started e \<longrightarrow> current_turn e1 = current_turn e + 1"
proof (cases "gameplay_started e")
  case False
  with assms that [of e] show ?thesis by (simp add: idle_inv_def)
next
  case True
  with assms begin_turn_ok [of e] that show ?thesis by (auto simp: idle_inv_def)
qed

text \<open>An iteration in which the game was not yet started, or is over, ends idle as well.\<close>

lemma summarise_if_started:
  assumes "engine_inv e"
  shows "\<exists>e'. (if gameplay_started e then summarise_turn e else Inr e) = Inr e' \<and> idle_inv e'
    \<and> game_params e' = game_params e
    \<and> (gameplay_started e \<longrightarrow>
         (gameplay_started e' \<longleftrightarrow> current_turn e \<noteq> game_length (game_params e)) \<and>
         (gameplay_started e' \<longrightarrow> current_turn e' = current_turn e))"
proof (cases "gameplay_started e")
  case False
  with assms show ?thesis by (simp add: idle_inv_def engine_inv_def lobby_ok_def)
next
  case True
  from summarise_turn_ok [OF assms True] True show ?thesis by auto
qed

lemma idle_inv_handler:
  "idle_inv e \<Longrightarrow> handler_ok h \<Longrightarrow> idle_inv (e\<lparr>tcp_handler := h\<rparr>)"
  by (simp add: idle_inv_def engine_inv_handler)

text \<open>The state in which the slots are served.\<close>

lemma loop_iteration_begin:
  assumes "idle_inv e"
  obtains e2 where "engine_inv e2" "game_params e2 = game_params e" "gameplay_started e2 = gameplay_started e"
    "player_ids e2 = player_ids e" "gameplay_started e \<longrightarrow> current_turn e2 = current_turn e + 1"
    "loop_iteration env e =
      and_then
        (if env_poll env = -1 then exit_with_msg
         else if \<not> env_interrupted env \<and> env_poll env > 0 then serve_clients env e2
         else Inr e2)
        (\<lambda>e3. if gameplay_started e3 then summarise_turn e3 else Inr e3)"
proof -
  let ?e0 = "e\<lparr>tcp_handler := reset_revents (tcp_handler e)\<rparr>"
  have hok: "handler_ok (tcp_handler e)" using assms by (simp add: idle_inv_def engine_inv_def tables_ok_def)
  then have "idle_inv ?e0" using assms by (simp add: idle_inv_handler)
  then obtain e1 where e1: "(if gameplay_started ?e0 then begin_turn ?e0 else Inr ?e0) = Inr e1"
      "engine_inv e1" "game_params e1 = game_params e" "gameplay_started e1 = gameplay_started e"
      "player_ids e1 = player_ids e" "tcp_handler e1 = reset_revents (tcp_handler e)"
      "gameplay_started e \<longrightarrow> current_turn e1 = current_turn e + 1"
    by (rule begin_if_started) auto
  let ?e2 = "e1\<lparr>tcp_handler := poll_exec (env_revents env) (tcp_handler e1)\<rparr>"
  have "engine_inv ?e2" using e1(2,6) hok by (simp add: engine_inv_handler)
  with e1 that [of ?e2] show ?thesis by (simp add: loop_iteration_def Let_def)
qed

definition iteration_safe :: "loop_env \<Rightarrow> game_engine \<Rightarrow> bool" where
  "iteration_safe env e \<longleftrightarrow> env_poll env \<noteq> -1 \<and> safe_env env e"

lemma safe_env_cong:
  "player_ids e' = player_ids e \<Longrightarrow> gameplay_started e' = gameplay_started e \<Longrightarrow>
     safe_env env e' = safe_env env e"
  by (simp add: safe_env_def safe_slot_def safe_message_def cong: option.case_cong)

lemma loop_iteration_ok:
  assumes idle: "idle_inv e" and safe: "iteration_safe env e"
  shows "\<exists>e'. loop_iteration env e = Inr e' \<and> idle_inv e' \<and> game_params e' = game_params e
    \<and> (gameplay_started e \<longrightarrow>
         (gameplay_started e' \<longleftrightarrow> current_turn e + 1 \<noteq> game_length (game_params e)) \<and>
         (gameplay_started e' \<longrightarrow> current_turn e' = current_turn e + 1))"
proof -
  obtain e2 where e2: "engine_inv e2" "game_params e2 = game_params e"
      "gameplay_started e2 = gameplay_started e" "player_ids e2 = player_ids e"
      "gameplay_started e \<longrightarrow> current_turn e2 = current_turn e + 1"
    and run: "loop_iteration env e =
      and_then
        (if env_poll env = -1 then exit_with_msg
         else if \<not> env_interrupted env \<and> env_poll env > 0 then serve_clients env e2
         else Inr e2)
        (\<lambda>e3. if gameplay_started e3 then summarise_turn e3 else Inr e3)"
    by (rule loop_iteration_begin [OF idle])
  have "safe_env env e2"
    using safe safe_env_cong [OF e2(4,3)] by (simp add: iteration_safe_def)
  note served = serve_clients_ok [OF e2(1) this]
  obtain e3 where e3: "(if \<not> env_interrupted env \<and> env_poll env > 0 then serve_clients env e2 else Inr e2)
      = Inr e3" "engine_inv e3" "game_params e3 = game_params e2"
      "gameplay_started e2 \<longrightarrow> gameplay_started e3 \<and> current_turn e3 = current_turn e2"
  proof (cases "\<not> env_interrupted env \<and> env_poll env > 0")
    case True
    with served that show ?thesis by auto
  next
    case False
    with e2(1) that [of e2] show ?thesis by auto
  qed
  have "loop_iteration env e = (if gameplay_started e3 then summarise_turn e3 else Inr e3)"
    using safe by (simp only: run iteration_safe_def if_False e3(1) and_then.simps)
  with summarise_if_started [OF e3(2)] e2 e3 show ?thesis by auto
qed

lemma serve_slots_keeps:
  assumes "for_each (serve_slot env) is e = Inr e'" and "engine_inv e"
    and "\<forall>i \<in> set is. 0 < i \<and> i < conn_max"
  shows "engine_inv e'"
  using assms(1,2)
proof (rule for_each_invariant)
  fix i s s' assume i: "i \<in> set is" and s: "engine_inv s" "serve_slot env i s = Inr s'"
  then have "is_message_from (tcp_handler s) i \<Longrightarrow> safe_slot env i s"
    using serve_slot_unsafe [of s i env] by fastforce
  with serve_slot_ok [of s i env] i s assms(3) show "engine_inv s'" by (auto simp: served_def)
qed

lemma loop_iteration_keeps:
  assumes idle: "idle_inv e" and step: "loop_iteration env e = Inr e'"
  shows "idle_inv e'"
proof -
  obtain e2 where e2: "engine_inv e2" and run: "loop_iteration env e =
      and_then
        (if env_poll env = -1 then exit_with_msg
         else if \<not> env_interrupted env \<and> env_poll env > 0 then serve_clients env e2
         else Inr e2)
        (\<lambda>e3. if gameplay_started e3 then summarise_turn e3 else Inr e3)"
    by (rule loop_iteration_begin [OF idle])
  obtain h where h: "(if is_new_connection (tcp_handler e2) then accept_new env e2 else e2)
      = e2\<lparr>tcp_handler := h\<rparr>" "handler_ok h"
    by (rule accept_if_new [OF e2])
  have "engine_inv e3" if "serve_clients env e2 = Inr e3" for e3
    using serve_slots_keeps [of env "[1..<conn_max]" "e2\<lparr>tcp_handler := h\<rparr>" e3] that
      engine_inv_handler [OF e2 h(2)]
    by (simp add: serve_clients_def h(1))
  then obtain e3 where "engine_inv e3" "(if gameplay_started e3 then summarise_turn e3 else Inr e3) = Inr e'"
    using step run e2 by (auto split: if_splits)
  with summarise_if_started [of e3] show ?thesis by auto
qed

interpretation server: faulting_loop loop_iteration idle_inv iteration_safe
  by unfold_locales (use loop_iteration_keeps loop_iteration_ok in blast)+

end
