(* ===== verification/Agreement.thy ===== *)
theory Agreement
  imports Replay Server
begin

text \<open>
  The client's picture of the game against the server's state. The events of the current turn mirror the
  server when replaying them on the client's picture gives the server's robots, blocks and bombs. The
  start of a game and the placing of bombs and blocks keep this; the move of a robot does not, since the
  client keeps the position it knows.
\<close>

definition agrees :: "game_engine \<Rightarrow> game_info \<Rightarrow> bool" where
  "agrees e g \<longleftrightarrow> gi_player_positions g = players_positions e \<and> gi_blocks g = blocks_positions e
     \<and> gi_bombs g = bombs e \<and> gi_bomb_timer g = bomb_timer (game_params e)"

definition mirrored :: "game_info \<Rightarrow> game_engine \<Rightarrow> bool" where
  "mirrored g0 e \<longleftrightarrow> unat (current_turn e) < length (turns e)
     \<and> (\<exists>g. for_each apply_event (events (turns e ! unat (current_turn e))) g0 = Inr g \<and> agrees e g)"

lemma mirrored_add_event:
  assumes "mirrored g0 e" and "add_turn_event (current_turn e) ev e1 = Inr e'"
    and frame: "turns e1 = turns e" "current_turn e1 = current_turn e"
    and step: "\<And>g. agrees e g \<Longrightarrow> \<exists>g'. apply_event ev g = Inr g' \<and> agrees e1 g'"
  shows "mirrored g0 e'"
proof -
  let ?t = "unat (current_turn e)"
  obtain g where g: "?t < length (turns e)"
      "for_each apply_event (events (turns e ! ?t)) g0 = Inr g" "agrees e g"
    using assms(1) by (auto simp: mirrored_def)
  obtain g' where g': "apply_event ev g = Inr g'" "agrees e1 g'" using step [OF g(3)] by blast
  have e': "e' = e1\<lparr>turns := (turns e)[?t := add_event ev (turns e ! ?t)]\<rparr>"
    using assms(2) frame g(1) by (simp add: add_turn_event_def)
  have "for_each apply_event (events (turns e' ! ?t)) g0 = Inr g'"
    using g g'(1) by (simp add: e' for_each_append)
  with g(1) g'(2) show ?thesis by (simp add: mirrored_def e' frame agrees_def)
qed

lemma map_insert_new: "k \<notin> keys m \<Longrightarrow> map_insert k v m = map_assign k v m"
  by (simp add: map_insert_def map_of_None_iff)

lemma mirrored_update:
  "mirrored g0 (e\<lparr>players_positions := ps\<rparr>) \<Longrightarrow> mirrored g0 (e\<lparr>players_positions := ps, random := r\<rparr>)"
  by (simp add: mirrored_def agrees_def)

lemma add_turn_event_frame:
  "add_turn_event t ev e = Inr e' \<Longrightarrow> \<exists>ts. e' = e\<lparr>turns := ts\<rparr>"
  by (auto simp: add_turn_event_def split: if_splits)

lemma add_turn_event_positions:
  "add_turn_event t ev e = Inr e1 \<Longrightarrow>
     add_turn_event t ev (e\<lparr>players_positions := ps\<rparr>) = Inr (e1\<lparr>players_positions := ps\<rparr>)"
  by (auto simp: add_turn_event_def split: if_splits)

lemma add_turn_event_blocks:
  "add_turn_event t ev e = Inr e1 \<Longrightarrow>
     add_turn_event t ev (e\<lparr>blocks_positions := bs\<rparr>) = Inr (e1\<lparr>blocks_positions := bs\<rparr>)"
  by (auto simp: add_turn_event_def split: if_splits)

text \<open>A robot placed for the first time.\<close>

lemma seed_player_mirrored:
  assumes m: "mirrored g0 e" and new: "i \<notin> keys (players_positions e)" and run: "seed_player i e = Inr e'"
  shows "mirrored g0 e' \<and> keys (players_positions e') = insert i (keys (players_positions e))
    \<and> players e' = players e \<and> current_turn e' = current_turn e \<and> game_params e' = game_params e"
proof -
  obtain pos r e1 where e1: "add_turn_event (current_turn e) (Player_moved_event i pos) (e\<lparr>random := r\<rparr>) = Inr e1"
      and e': "e' = e1\<lparr>players_positions := map_assign i pos (players_positions e1)\<rparr>"
    using run by (auto simp: seed_player_def)
  obtain ts where ts: "e1 = e\<lparr>random := r, turns := ts\<rparr>" using add_turn_event_frame [OF e1] by auto
  let ?e = "e\<lparr>random := r, players_positions := map_assign i pos (players_positions e)\<rparr>"
  have "add_turn_event (current_turn e) (Player_moved_event i pos) ?e = Inr e'"
    using add_turn_event_positions [OF e1] by (simp add: e' ts)
  with m have "mirrored g0 e'"
    by (rule mirrored_add_event) (auto simp: agrees_def change_player_position_def map_insert_new new)
  then show ?thesis by (simp add: e' ts)
qed

lemma seed_players_mirrored:
  assumes "mirrored g0 e" and "distinct (map fst ps)" and "\<forall>p \<in> set ps. fst p \<notin> keys (players_positions e)"
    and "for_each (\<lambda>player. seed_player (fst player)) ps e = Inr e'"
  shows "mirrored g0 e' \<and> current_turn e' = current_turn e \<and> game_params e' = game_params e"
  using assms
proof (induction ps arbitrary: e)
  case (Cons p ps)
  then obtain e1 where e1: "seed_player (fst p) e = Inr e1"
      "for_each (\<lambda>player. seed_player (fst player)) ps e1 = Inr e'"
    by auto
  have new: "fst p \<notin> keys (players_positions e)" using Cons.prems(3) by simp
  have p: "mirrored g0 e1" "keys (players_positions e1) = insert (fst p) (keys (players_positions e))"
      "current_turn e1 = current_turn e" "game_params e1 = game_params e"
    using seed_player_mirrored [OF Cons.prems(1) new e1(1)] by simp_all
  have "fst q \<notin> keys (players_positions e1)" if "q \<in> set ps" for q
  proof -
    have "fst q \<noteq> fst p" using that Cons.prems(2) by (metis distinct.simps(2) image_eqI list.set_map list.simps(9))
    with that Cons.prems(3) show ?thesis by (simp add: p(2))
  qed
  with p Cons.IH [of e1] Cons.prems(2) e1(2) show ?case by simp
qed simp

lemma seed_block_mirrored:
  assumes m: "mirrored g0 e" and zero: "current_turn e = 0" and run: "seed_block e = Inr e'"
  shows "mirrored g0 e' \<and> current_turn e' = 0"
proof -
  obtain pos r e1 where e1: "add_turn_event 0 (Block_placed_event pos) (e\<lparr>random := r\<rparr>) = Inr e1"
      and e': "e' = e1\<lparr>blocks_positions := pos_insert pos (blocks_positions e1)\<rparr>"
    using run by (auto simp: seed_block_def)
  obtain ts where ts: "e1 = e\<lparr>random := r, turns := ts\<rparr>" using add_turn_event_frame [OF e1] by auto
  let ?e = "e\<lparr>random := r, blocks_positions := pos_insert pos (blocks_positions e)\<rparr>"
  have "add_turn_event (current_turn e) (Block_placed_event pos) ?e = Inr e'"
    using add_turn_event_blocks [OF e1] by (simp add: e' ts zero)
  with m have "mirrored g0 e'"
    by (rule mirrored_add_event) (auto simp: agrees_def add_block_def)
  then show ?thesis by (simp add: e' ts zero)
qed

text \<open>What a client in a fresh game sees in the turn the server starts with.\<close>

definition fresh_game :: "u16 \<Rightarrow> game_info \<Rightarrow> bool" where
  "fresh_game tm g \<longleftrightarrow> gi_player_positions g = [] \<and> gi_blocks g = Leaf \<and> gi_bombs g = []
     \<and> gi_bomb_timer g = tm"

lemma new_game_info_fresh: "new_game_info t name x y len ps tm sc = Inr g \<Longrightarrow> fresh_game tm g"
  by (auto simp: new_game_info_def fresh_game_def split: if_splits)

lemma start_gameplay_mirrored:
  assumes lobby: "players_positions e = []" "turns e = []" "current_turn e = 0" "bombs e = []" "blocks_positions e = Leaf"
    and sorted: "map_ok (players e)" and start: "start_gameplay e = Inr e'"
    and fresh: "fresh_game (bomb_timer (game_params e)) g0"
  shows "mirrored g0 e' \<and> current_turn e' = 0"
proof -
  let ?e1 = "e\<lparr>gameplay_started := True, turns := turns e @ [new_turn_info 0]\<rparr>"
  let ?e2 = "send_to_all (game_started_msg ?e1) ?e1"
  have "mirrored g0 ?e2"
    using lobby fresh by (simp add: mirrored_def agrees_def fresh_game_def send_to_all_def)
  moreover obtain e3 where e3: "seed_players ?e2 = Inr e3" "seed_blocks e3 = Inr e'"
    using start by (auto simp: start_gameplay_def Let_def)
  moreover have "players ?e2 = players e" "players_positions ?e2 = []" "current_turn ?e2 = 0"
    using lobby by (simp_all add: send_to_all_def)
  ultimately have "mirrored g0 e3 \<and> current_turn e3 = 0"
    using seed_players_mirrored [of g0 ?e2 "players e" e3] sorted by (simp add: seed_players_def map_ok_distinct)
  with e3(2) show ?thesis unfolding seed_blocks_def
  proof (rule for_each_invariant)
    fix i :: nat and s s' assume "mirrored g0 s \<and> current_turn s = 0" and "seed_block s = Inr s'"
    then show "mirrored g0 s' \<and> current_turn s' = 0" using seed_block_mirrored [of g0 s s'] by simp
  qed
qed

subsection \<open>The clients' actions\<close>

lemma place_block_mirrored:
  assumes "mirrored g0 e" and "place_block_handle_msg i e = Inr e'"
  shows "mirrored g0 e'"
proof (cases "acting_player i e")
  case (Some p)
  with assms(2) obtain pos where pos: "add_turn_event (current_turn e) (Block_placed_event pos)
      (e\<lparr>blocks_positions := pos_insert pos (blocks_positions e)\<rparr>) = Inr e'"
    by (auto simp: place_block_handle_msg_def)
  from assms(1) this show ?thesis
    by (rule mirrored_add_event) (auto simp: agrees_def add_block_def)
qed (use assms in \<open>simp add: place_block_handle_msg_def\<close>)

lemma place_bomb_mirrored:
  assumes "mirrored g0 e" and "place_bomb_handle_msg i e = Inr e'"
  shows "mirrored g0 e'"
proof (cases "acting_player i e")
  case (Some p)
  with assms(2) obtain pos where pos: "add_turn_event (current_turn e) (Bomb_placed_event (next_bomb_id e) pos)
      (e\<lparr>next_bomb_id := next_bomb_id e + 1, bombs := map_insert (next_bomb_id e)
          (Bomb pos (bomb_timer (game_params e))) (bombs e)\<rparr>) = Inr e'"
    by (auto simp: place_bomb_handle_msg_def Let_def)
  from assms(1) this show ?thesis
    by (rule mirrored_add_event) (auto simp: agrees_def add_bomb_def)
qed (use assms in \<open>simp add: place_bomb_handle_msg_def\<close>)

text \<open>A robot that moves away from where the client has it.\<close>

lemma move_not_mirrored:
  assumes "mirrored g0 e" and "acting_player i e = Some p" and "map_ok (players_positions e)"
    and "map_of (players_positions e) p = Some pos"
    and "check_position_to_move e (moved_position indet d pos)" and "moved_position indet d pos \<noteq> pos"
    and run: "move_handle_msg indet d i e = Inr e'"
  shows "\<not> mirrored g0 e'"
proof -
  let ?t = "unat (current_turn e)" and ?new = "moved_position indet d pos"
  obtain g where g: "?t < length (turns e)"
      "for_each apply_event (events (turns e ! ?t)) g0 = Inr g" "agrees e g"
    using assms(1) by (auto simp: mirrored_def)
  have at: "map_at (players_positions e) p = Inr pos" using assms(4) by simp
  then have e': "e' = e\<lparr>players_positions := map_assign p ?new (players_positions e),
      turns := (turns e)[?t := add_event (Player_moved_event p ?new) (turns e ! ?t)]\<rparr>"
    using run assms(2,5) g(1) by (simp add: move_handle_msg_def add_turn_event_def at Let_def)
  have "change_player_position p ?new g = g"
    using assms(4) g(3) by (simp add: change_player_position_def map_insert_def agrees_def)
  then have "for_each apply_event (events (turns e' ! ?t)) g0 = Inr g"
    using g by (simp add: e' for_each_append)
  moreover have "map_of (players_positions e') p \<noteq> map_of (gi_player_positions g) p"
    using g(3) assms(3,4,6) by (simp add: e' agrees_def)
  then have "\<not> agrees e' g" by (auto simp: agrees_def)
  ultimately show ?thesis by (simp add: mirrored_def e')
qed

end
