(* ===== verification/Rounds.thy ===== *)
theory Rounds
  imports Server
begin

text \<open>
  What a whole turn does. The loop over the bombs at the beginning of a turn, in closed form; the
  respawning at its end; and how many iterations a game takes.
\<close>

subsection \<open>The cells an explosion strikes\<close>

text \<open>They depend on the board only: its size, the radius, the blocks and the robots.\<close>

definition same_board :: "game_engine \<Rightarrow> game_engine \<Rightarrow> bool" where
  "same_board e e' \<longleftrightarrow> game_params e' = game_params e \<and> blocks_positions e' = blocks_positions e
     \<and> players_positions e' = players_positions e"

lemma struck_cells_cong:
  assumes "same_board e e'"
  shows "struck_cells e' c = struck_cells e c" "robots_in e' cells = robots_in e cells" "is_block e' = is_block e"
proof -
  have eqs: "check_position e' = check_position e" "is_block e' = is_block e"
    using assms by (simp_all add: same_board_def check_position_def is_block_def fun_eq_iff)
  then have "open_cell e' = open_cell e" by (simp add: open_cell_def fun_eq_iff)
  then have "clear_before e' = clear_before e" by (simp add: clear_before_def fun_eq_iff)
  with eqs have "reached e' = reached e" by (intro ext) (simp add: reached_def)
  then have "round_cells e' = round_cells e" by (intro ext) (simp add: round_cells_def)
  then have "blast_cells e' = blast_cells e" by (intro ext) (simp add: blast_cells_def)
  moreover have "robots_at e' = robots_at e"
    using assms by (intro ext) (simp add: same_board_def robots_at_def)
  ultimately show "struck_cells e' c = struck_cells e c" "is_block e' = is_block e"
      "robots_in e' cells = robots_in e cells"
    using eqs assms by (simp_all add: struck_cells_def same_board_def robots_in_def)
qed

definition robots_hit :: "game_engine \<Rightarrow> bomb \<Rightarrow> player_id list" where
  "robots_hit e b = robots_in e (struck_cells e (bomb_position b))"

definition blocks_hit :: "game_engine \<Rightarrow> bomb \<Rightarrow> position list" where
  "blocks_hit e b = filter (is_block e) (struck_cells e (bomb_position b))"

text \<open>A cell is struck at most once: no robot and no block is listed twice.\<close>

lemma distinct_reached:
  assumes "check_position e c" and "k < 65536" and "0 < k"
  shows "distinct (round_cells e c k)"
    and "q \<in> set (round_cells e c k) \<Longrightarrow> \<exists>d < 4. cell_at c d k q"
proof -
  have len: "length (directions c) = 4" by (simp add: directions_def)
  have at: "cell_at c d k q" if "d < 4" "q \<in> set (reached e k (directions c ! d))" for d q
    using that reached_cell_at [OF that(1) assms(3,2,1)] by (auto simp: reached_def split: if_splits)
  show "\<exists>d < 4. cell_at c d k q" if "q \<in> set (round_cells e c k)"
  proof -
    from that obtain f where "f \<in> set (directions c)" "q \<in> set (reached e k f)"
      by (auto simp: round_cells_def)
    with at len show ?thesis by (metis in_set_conv_nth)
  qed
  have apart: "set (reached e k (directions c ! d)) \<inter> set (reached e k (directions c ! d')) = {}"
    if "d < 4" "d' < 4" "d \<noteq> d'" for d d'
    using at [OF that(1)] at [OF that(2)] cell_at_unique [of c d k _ d' k] that assms(3) by blast
  have dist: "distinct (reached e k f)" for f by (simp add: reached_def)
  have "directions c = [directions c ! 0, directions c ! 1, directions c ! 2, directions c ! 3]"
    by (simp add: directions_def)
  then have "map (reached e k) (directions c) = map (reached e k)
      [directions c ! 0, directions c ! 1, directions c ! 2, directions c ! 3]"
    by (rule arg_cong)
  then have "round_cells e c k = reached e k (directions c ! 0) @ reached e k (directions c ! 1)
      @ reached e k (directions c ! 2) @ reached e k (directions c ! 3)"
    unfolding round_cells_def by simp
  then show "distinct (round_cells e c k)"
    using apart [of 0 1] apart [of 0 2] apart [of 0 3] apart [of 1 2] apart [of 1 3] apart [of 2 3]
    by (simp only: distinct_append set_append Int_Un_distrib dist) simp
qed

lemma distinct_blast_cells:
  assumes "check_position e c" and "n < 65536"
  shows "distinct (blast_cells e c n) \<and> (\<forall>q \<in> set (blast_cells e c n). \<exists>d < 4. \<exists>k. 0 < k \<and> k \<le> n \<and> cell_at c d k q)"
  using assms(2)
proof (induction n)
  case (Suc n)
  then have IH: "distinct (blast_cells e c n)"
      "\<forall>q \<in> set (blast_cells e c n). \<exists>d < 4. \<exists>k. 0 < k \<and> k \<le> n \<and> cell_at c d k q"
    by simp_all
  note round = distinct_reached [OF assms(1) Suc.prems]
  have "q \<notin> set (round_cells e c (Suc n))" if q: "q \<in> set (blast_cells e c n)" for q
  proof
    assume "q \<in> set (round_cells e c (Suc n))"
    with round(2) obtain d where "d < 4" "cell_at c d (Suc n) q" by auto
    moreover from IH(2) q obtain d' k where "d' < 4" "0 < k" "k \<le> n" "cell_at c d' k q" by blast
    ultimately show False using cell_at_unique [of c d "Suc n" q d' k] by simp
  qed
  then have "distinct (blast_cells e c (Suc n))"
    using IH(1) round(1) by (auto simp: blast_cells_Suc)
  moreover have "\<exists>d < 4. \<exists>k. 0 < k \<and> k \<le> Suc n \<and> cell_at c d k q" if "q \<in> set (blast_cells e c (Suc n))" for q
    using that IH(2) round(2) by (fastforce simp: blast_cells_Suc)
  ultimately show ?case by blast
qed (simp add: blast_cells_def)

lemma distinct_struck_cells:
  assumes "check_position e c"
  shows "distinct (struck_cells e c)"
proof -
  note cells = distinct_blast_cells [OF assms unat_bounds(2)]
  have "c \<notin> set (blast_cells e c (unat (explosion_radius (game_params e))))"
    using cells [of "explosion_radius (game_params e)"] cell_at_centre by fastforce
  with cells show ?thesis by (auto simp: struck_cells_def)
qed

lemma distinct_robots_in:
  assumes "map_ok (players_positions e)" and "distinct cells"
  shows "distinct (robots_in e cells)"
  using assms(2)
proof (induction cells)
  case (Cons q cells)
  have keys: "distinct (map fst (players_positions e))" using assms(1) by (rule map_ok_distinct)
  then have one: "distinct (robots_at e q)"
    unfolding robots_at_def by (rule distinct_map_filter)
  have "p \<notin> set (robots_in e cells)" if "p \<in> set (robots_at e q)" for p
  proof
    assume "p \<in> set (robots_in e cells)"
    then obtain q' where "q' \<in> set cells" "(p, q') \<in> set (players_positions e)"
      by (auto simp: set_robots_in)
    moreover have "(p, q) \<in> set (players_positions e)" using that by (auto simp: robots_at_def)
    ultimately show False using keys Cons.prems by (metis distinct.simps(2) eq_key_imp_eq_value)
  qed
  with one Cons show ?case by (auto simp: robots_in_def)
qed (simp add: robots_in_def)

text \<open>An event at the end of the current turn.\<close>

definition logged :: "event \<Rightarrow> game_engine \<Rightarrow> game_engine \<Rightarrow> bool" where
  "logged ev e e' \<longleftrightarrow>
     turns e' = (turns e)[unat (current_turn e) := add_event ev (turns e ! unat (current_turn e))]"

text \<open>What \<open>handle_explosion\<close> does, by the specification of the blast.\<close>

lemma explosion_effect:
  assumes inv: "engine_inv e" and started: "gameplay_started e" and c: "check_position e (bomb_position b)"
  obtains e' where "handle_explosion i b e = Inr e'"
    "logged (Bomb_exploded_event i (robots_hit e b) (blocks_hit e b)) e e'"
    "elems (current_players_to_destroy e') = elems (current_players_to_destroy e) \<union> set (robots_hit e b)"
    "current_blocks_to_erase e' = current_blocks_to_erase e @ blocks_hit e b"
    "distinct (robots_hit e b)" "distinct (blocks_hit e b)"
    "set (robots_hit e b) = {p. \<exists>q. (p, q) \<in> set (players_positions e)
       \<and> in_blast e (bomb_position b) (unat (explosion_radius (game_params e))) q}"
    "set (blocks_hit e b) = {q. is_block e q \<and> in_blast e (bomb_position b) (unat (explosion_radius (game_params e))) q}"
proof -
  have ok: "turns_ok (turns e) (current_turn e)" using inv started by (simp add: engine_inv_defs)
  have e: "explosion_radius (game_params e) \<noteq> -1" "unat (current_turn e) < length (turns e)" "map_ok (players_positions e)"
      "set_ok (current_players_to_destroy e)"
    using inv turns_ok_length [OF ok] by (simp_all add: engine_inv_defs config_ok_def)
  have "distinct (robots_hit e b)" "distinct (blocks_hit e b)"
    using distinct_struck_cells [OF c] distinct_robots_in [OF e(3)] by (simp_all add: robots_hit_def blocks_hit_def)
  moreover have "set (robots_hit e b) = {p. \<exists>q. (p, q) \<in> set (players_positions e)
      \<and> in_blast e (bomb_position b) (unat (explosion_radius (game_params e))) q}"
    "set (blocks_hit e b) = {q. is_block e q \<and> in_blast e (bomb_position b) (unat (explosion_radius (game_params e))) q}"
    by (auto simp: robots_hit_def blocks_hit_def set_robots_in in_struck_cells)
  moreover let ?e = "after_explosion i (bomb_position b) e"
  have "elems (current_players_to_destroy ?e) = elems (current_players_to_destroy e) \<union> set (robots_hit e b)"
    "current_blocks_to_erase ?e = current_blocks_to_erase e @ blocks_hit e b"
    "logged (Bomb_exploded_event i (robots_hit e b) (blocks_hit e b)) e ?e"
    by (simp_all add: after_explosion_def Let_def logged_def robots_hit_def blocks_hit_def elems_fold_insert [OF e(4)] Un_commute)
  ultimately show ?thesis using that [OF handle_explosion_eq [OF e(1,2)]] by blast
qed

subsection \<open>The bombs at the beginning of a turn\<close>

definition tick :: "bomb_id \<times> bomb \<Rightarrow> bomb_id \<times> bomb" where
  "tick b = (fst b, Bomb (bomb_position (snd b)) (timer (snd b) - 1))"

definition expiring :: "(bomb_id, bomb) std_map \<Rightarrow> (bomb_id, bomb) std_map" where
  "expiring bs = filter (\<lambda>b. timer (snd b) = 1) bs"

definition explosion_event :: "game_engine \<Rightarrow> bomb_id \<times> bomb \<Rightarrow> event" where
  "explosion_event e b = Bomb_exploded_event (fst b) (robots_hit e (snd b)) (blocks_hit e (snd b))"

text \<open>The engine once the loop has dealt with the bombs \<open>pre\<close> and has \<open>post\<close> before it.\<close>

definition ticked ::
    "game_engine \<Rightarrow> (bomb_id, bomb) std_map \<Rightarrow> (bomb_id, bomb) std_map \<Rightarrow> game_engine" where
  "ticked e pre post =
     e\<lparr>current_turn := current_turn e + 1,
       turns := turns e @ [Turn_info (current_turn e + 1) (map (explosion_event e) (expiring pre))],
       bombs := map tick pre @ post,
       current_players_to_destroy :=
         fold (set_insert (<)) (concat (map (\<lambda>b. robots_hit e (snd b)) (expiring pre)))
           (current_players_to_destroy e),
       current_blocks_to_erase :=
         current_blocks_to_erase e @ concat (map (\<lambda>b. blocks_hit e (snd b)) (expiring pre))\<rparr>"

lemma map_assign_middle:
  "map_ok (pre @ (k, v) # post) \<Longrightarrow> map_assign k v' (pre @ (k, v) # post) = pre @ (k, v') # post"
  by (induction pre) (auto simp: less_le_not_le)

lemma map_ok_tick: "map_ok (map tick pre @ post) \<longleftrightarrow> map_ok (pre @ post)"
  by (simp add: map_ok_def tick_def comp_def)

lemma same_board_ticked: "same_board e (ticked e pre post)"
  by (simp add: same_board_def ticked_def)

lemma tick_bomb_ticked:
  assumes "map_ok (pre @ b # post)" and "explosion_radius (game_params e) \<noteq> -1"
    and "length (turns e) = unat (current_turn e + 1)"
  shows "tick_bomb b (ticked e pre (b # post)) = Inr (ticked e (pre @ [b]) post)"
proof -
  let ?s = "ticked e pre (b # post)" and ?pos = "bomb_position (snd b)"
  let ?s1 = "?s\<lparr>bombs := map tick pre @ tick b # post\<rparr>"
  have "map_ok (map tick pre @ (fst b, snd b) # post)" using assms(1) by (simp add: map_ok_tick)
  then have assign: "map_assign (fst b) (snd (tick b)) (bombs ?s) = map tick pre @ tick b # post"
    using map_assign_middle [of "map tick pre" "fst b" "snd b" post "snd (tick b)"]
    by (simp add: ticked_def tick_def)
  have "tick_bomb b ?s =
      (let e1 = ?s\<lparr>bombs := map_assign (fst b) (snd (tick b)) (bombs ?s)\<rparr>
       in if timer (snd (tick b)) = 0 then handle_explosion (fst b) (snd (tick b)) e1 else Inr e1)"
    unfolding tick_bomb_def tick_def Let_def fst_conv snd_conv bomb.sel by (rule refl)
  then have step: "tick_bomb b ?s = (if timer (snd b) = 1 then handle_explosion (fst b) (snd (tick b)) ?s1 else Inr ?s1)"
    unfolding assign Let_def by (simp add: tick_def)
  show ?thesis
  proof (cases "timer (snd b) = 1")
    case False
    with step show ?thesis by (simp add: ticked_def expiring_def)
  next
    case True
    have "same_board e ?s1" by (simp add: same_board_def ticked_def)
    note board = struck_cells_cong [OF this]
    have "explosion_radius (game_params ?s1) \<noteq> -1" "unat (current_turn ?s1) < length (turns ?s1)"
      using assms(2,3) by (simp_all add: ticked_def)
    from handle_explosion_eq [OF this] have "tick_bomb b ?s = Inr (after_explosion (fst b) ?pos ?s1)"
      using True step by (simp add: tick_def)
    also have "after_explosion (fst b) ?pos ?s1 = ticked e (pre @ [b]) post"
      unfolding after_explosion_def board Let_def using True assms(3)
      by (simp add: ticked_def expiring_def explosion_event_def
          robots_hit_def blocks_hit_def add_event_def nth_append list_update_append tick_def)
    finally show ?thesis .
  qed
qed

lemma tick_bombs_ticked:
  assumes "map_ok (pre @ post)" and "explosion_radius (game_params e) \<noteq> -1"
    and "length (turns e) = unat (current_turn e + 1)"
  shows "for_each tick_bomb post (ticked e pre post) = Inr (ticked e (pre @ post) [])"
  using assms(1)
proof (induction post arbitrary: pre)
  case (Cons b post)
  with tick_bomb_ticked [OF Cons.prems assms(2,3)] Cons.IH [of "pre @ [b]"] show ?case by simp
qed simp

lemma begin_turn_eq:
  assumes inv: "idle_inv e" and started: "gameplay_started e"
  shows "begin_turn e = Inr
    ((ticked e (bombs e) [])\<lparr>
       bombs := map tick (filter (\<lambda>b. timer (snd b) \<noteq> 1) (bombs e)),
       blocks_positions := fold pos_erase (concat (map (\<lambda>b. blocks_hit e (snd b)) (expiring (bombs e))))
         (blocks_positions e)\<rparr>)"
proof -
  have e: "map_ok (bombs e)" "explosion_radius (game_params e) \<noteq> -1" "turns_ok (turns e) (current_turn e)"
      "current_turn e < game_length (game_params e)" "current_blocks_to_erase e = []"
    using inv started by (simp_all add: idle_inv_def engine_inv_defs config_ok_def)
  have "current_turn e \<noteq> -1"
    using e(4) word_n1_ge [of "game_length (game_params e)"] by (auto simp: not_less [symmetric])
  then have len: "length (turns e) = unat (current_turn e + 1)"
    using turns_ok_length [OF e(3)] by (simp add: unat_u16_max unat_word_ariths)
  have "e\<lparr>current_turn := current_turn e + 1, turns := turns e @ [new_turn_info (current_turn e + 1)]\<rparr>
      = ticked e [] (bombs e)"
    by (simp add: ticked_def expiring_def new_turn_info_def)
  moreover have "for_each tick_bomb (bombs e) (ticked e [] (bombs e)) = Inr (ticked e (bombs e) [])"
    using tick_bombs_ticked [of "[]" "bombs e" e] e(1,2) len by simp
  moreover have "bombs (ticked e [] (bombs e)) = bombs e" by (simp add: ticked_def expiring_def)
  moreover have "filter (\<lambda>(i, b). timer b \<noteq> 0) (map tick bs) = map tick (filter (\<lambda>b. timer (snd b) \<noteq> 1) bs)" for bs
    by (induction bs) (auto simp: tick_def)
  ultimately show ?thesis
    using e(5) by (simp add: begin_turn_def Let_def ticked_def)
qed

subsection \<open>The robots at the end of a turn\<close>

lemma seed_player_others:
  assumes "seed_player i e = Inr e'" and "map_ok (players_positions e)"
  shows "scores e' = scores e \<and> tcp_handler e' = tcp_handler e \<and> map_ok (players_positions e')
    \<and> (\<forall>q. q \<noteq> i \<longrightarrow> map_of (players_positions e') q = map_of (players_positions e) q)"
  using assms by (auto simp: seed_player_def add_turn_event_def split: if_splits)

lemma respawn_others:
  assumes "respawn p e = Inr e'" and "map_ok (players_positions e)" and "map_ok (scores e)"
  shows "tcp_handler e' = tcp_handler e \<and> map_ok (players_positions e') \<and> map_ok (scores e')
    \<and> map_of (scores e') = (map_of (scores e)) (p := map_option (\<lambda>s. s + 1) (map_of (scores e) p))
    \<and> (\<forall>q. q \<noteq> p \<longrightarrow> map_of (players_positions e') q = map_of (players_positions e) q)"
proof -
  obtain s where s: "map_of (scores e) p = Some s"
      "seed_player p (e\<lparr>scores := map_assign p (s + 1) (scores e)\<rparr>) = Inr e'"
    using assms(1) by (auto simp: respawn_def)
  with seed_player_others [OF s(2)] assms(2,3) show ?thesis by simp
qed

lemma respawn_list:
  assumes "for_each respawn ps e = Inr e'" and "map_ok (players_positions e)" and "map_ok (scores e)"
    and "distinct ps"
  shows "tcp_handler e' = tcp_handler e
    \<and> (\<forall>q. map_of (scores e') q =
          (if q \<in> set ps then map_option (\<lambda>s. s + 1) (map_of (scores e) q) else map_of (scores e) q))
    \<and> (\<forall>q. q \<notin> set ps \<longrightarrow> map_of (players_positions e') q = map_of (players_positions e) q)"
  using assms
proof (induction ps arbitrary: e)
  case (Cons p ps)
  then obtain e1 where e1: "respawn p e = Inr e1" "for_each respawn ps e1 = Inr e'" by auto
  note step = respawn_others [OF e1(1) Cons.prems(2,3)]
  then have "tcp_handler e' = tcp_handler e1
      \<and> (\<forall>q. map_of (scores e') q =
            (if q \<in> set ps then map_option (\<lambda>s. s + 1) (map_of (scores e1) q) else map_of (scores e1) q))
      \<and> (\<forall>q. q \<notin> set ps \<longrightarrow> map_of (players_positions e') q = map_of (players_positions e1) q)"
    using Cons.IH [OF e1(2)] Cons.prems(4) by simp
  with step Cons.prems(4) show ?case by simp
qed simp

text \<open>Each of them gets a place, and the turn logs the places in the order of the identifiers.\<close>

lemma respawn_places:
  assumes "for_each respawn ps e = Inr e'" and "map_ok (players_positions e)" and "map_ok (scores e)" and "distinct ps"
  shows "\<exists>places. map fst places = ps \<and> (\<forall>(p, pos) \<in> set places. map_of (players_positions e') p = Some pos)
    \<and> events (turns e' ! unat (current_turn e)) = events (turns e ! unat (current_turn e))
        @ map (\<lambda>(p, pos). Player_moved_event p pos) places"
  using assms
proof (induction ps arbitrary: e)
  case (Cons p ps)
  then obtain e1 where e1: "respawn p e = Inr e1" "for_each respawn ps e1 = Inr e'" by auto
  obtain pos where pos: "players_positions e1 = map_assign p pos (players_positions e)" "current_turn e1 = current_turn e"
      "events (turns e1 ! unat (current_turn e)) = events (turns e ! unat (current_turn e)) @ [Player_moved_event p pos]"
    using e1(1) by (auto simp: respawn_def seed_player_def add_turn_event_def split: if_splits)
  note step = respawn_others [OF e1(1) Cons.prems(2,3)]
  then obtain places where places: "map fst places = ps" "\<forall>(p, pos) \<in> set places. map_of (players_positions e') p = Some pos"
      "events (turns e' ! unat (current_turn e)) = events (turns e1 ! unat (current_turn e))
        @ map (\<lambda>(p, pos). Player_moved_event p pos) places"
    using Cons.IH [OF e1(2)] Cons.prems(4) pos(2) by auto
  have "map_of (players_positions e') p = Some pos"
    using respawn_list [OF e1(2)] step Cons.prems(2,4) pos(1) by simp
  with places pos(3) show ?case by (intro exI [of _ "(p, pos) # places"]) simp
qed simp

lemma inorder_distinct: "set_ok t \<Longrightarrow> distinct (inorder (t :: 'a::linorder rb))"
  by (simp add: set_ok_def strict_sorted_iff)

lemma summarise_turn_eq:
  assumes "engine_inv e" and "gameplay_started e" and "current_turn e \<noteq> game_length (game_params e)"
  shows "\<exists>e'. summarise_turn e = Inr e' \<and> gameplay_started e'
    \<and> tcp_handler e' = send_message_to_all (turn_info_to_bytes (last (turns e'))) (tcp_handler e)
    \<and> (\<forall>q. map_of (scores e') q =
          (if q \<in> elems (current_players_to_destroy e) then map_option (\<lambda>s. s + 1) (map_of (scores e) q)
           else map_of (scores e) q))
    \<and> (\<forall>q. q \<notin> elems (current_players_to_destroy e) \<longrightarrow>
          map_of (players_positions e') q = map_of (players_positions e) q)
    \<and> (\<exists>places. map fst places = inorder (current_players_to_destroy e)
          \<and> (\<forall>(p, pos) \<in> set places. check_position e pos \<and> map_of (players_positions e') p = Some pos)
          \<and> events (last (turns e')) = events (last (turns e)) @ map (\<lambda>(p, pos). Player_moved_event p pos) places)"
proof -
  let ?ps = "inorder (current_players_to_destroy e)"
  obtain e1 where e1: "for_each respawn ?ps e = Inr e1" "engine_inv e1" "respawned e e1"
    using respawn_all_ok [OF assms(1,2)] by blast
  note frame = respawned_frame [OF e1(3)]
  have tables: "map_ok (players_positions e)" "map_ok (scores e)" "set_ok (current_players_to_destroy e)"
    using assms(1) by (simp_all add: engine_inv_def tables_ok_def)
  note rest = respawn_list [OF e1(1) tables(1,2) inorder_distinct [OF tables(3)], folded elems_def]
  have len: "length (turns e1) = Suc (unat (current_turn e))" "length (turns e) = Suc (unat (current_turn e))"
    using e1(2) frame assms(1,2) by (simp_all add: engine_inv_defs turns_ok_length)
  then have "turns e1 \<noteq> []" "turns e \<noteq> []" by auto
  then have last: "turn_at e1 (current_turn e1) = Inr (last (turns e1))" "last (turns e1) = turns e1 ! unat (current_turn e)"
      "last (turns e) = turns e ! unat (current_turn e)"
    using frame(7) len by (simp_all add: turn_at_def last_conv_nth)
  have "check_position e pos" if "map_of (players_positions e1) p = Some pos" for p pos
    using e1(2) frame assms(2) map_of_SomeD [OF that] by (force simp: engine_inv_defs check_position_def)
  with respawn_places [OF e1(1) tables(1,2) inorder_distinct [OF tables(3)]] last(2,3)
  have "\<exists>places. map fst places = ?ps
      \<and> (\<forall>(p, pos) \<in> set places. check_position e pos \<and> map_of (players_positions e1) p = Some pos)
      \<and> events (last (turns e1)) = events (last (turns e)) @ map (\<lambda>(p, pos). Player_moved_event p pos) places"
    by fastforce
  with e1(1) frame rest assms(2,3) last(1) show ?thesis
    by (simp add: summarise_turn_def send_to_all_def Let_def)
qed

subsection \<open>The length of a game\<close>

text \<open>While a game is played no message of a client is unsafe, so an iteration needs \<open>poll\<close> only.\<close>

lemma safe_while_started: "gameplay_started e \<Longrightarrow> env_poll env \<noteq> -1 \<Longrightarrow> iteration_safe env e"
  by (simp add: iteration_safe_def safe_env_def safe_slot_def safe_message_def list_all_iff split: option.split)

lemma game_goes_on:
  assumes "idle_inv e" and "gameplay_started e" and "list_all (\<lambda>env. env_poll env \<noteq> -1) envs"
    and "unat (current_turn e) + length envs < unat (game_length (game_params e))"
  shows "\<exists>e'. for_each loop_iteration envs e = Inr e' \<and> idle_inv e' \<and> gameplay_started e'
    \<and> game_params e' = game_params e \<and> unat (current_turn e') = unat (current_turn e) + length envs"
  using assms
proof (induction envs arbitrary: e)
  case (Cons env envs)
  have "unat (current_turn e) < 65535"
    using Cons.prems(4) unat_bounds(2) [of "game_length (game_params e)"] by simp
  then have next_turn: "unat (current_turn e + 1) = Suc (unat (current_turn e))"
    by (simp add: unat_word_ariths)
  with Cons.prems(4) have "current_turn e + 1 \<noteq> game_length (game_params e)" by auto
  with loop_iteration_ok [OF Cons.prems(1) safe_while_started [OF Cons.prems(2)], of env] Cons.prems(2,3)
  obtain e1 where "loop_iteration env e = Inr e1" "idle_inv e1" "game_params e1 = game_params e"
      "gameplay_started e1" "current_turn e1 = current_turn e + 1"
    by auto
  with Cons.IH [of e1] Cons.prems(3,4) next_turn show ?case by simp
qed simp

lemma game_ends:
  assumes "idle_inv e" and "gameplay_started e" and "list_all (\<lambda>env. env_poll env \<noteq> -1) envs"
    and "unat (current_turn e) + length envs = unat (game_length (game_params e))"
  shows "\<exists>e'. for_each loop_iteration envs e = Inr e' \<and> idle_inv e' \<and> \<not> gameplay_started e'"
proof -
  have "unat (current_turn e) < unat (game_length (game_params e))"
    using assms(1,2) by (simp add: idle_inv_def word_less_nat_alt)
  then have "envs \<noteq> []" using assms(4) by auto
  then obtain before final where envs: "envs = before @ [final]" by (metis rev_exhaust)
  then obtain e1 where e1: "for_each loop_iteration before e = Inr e1" "idle_inv e1" "gameplay_started e1"
      "game_params e1 = game_params e" "unat (current_turn e1) = unat (current_turn e) + length before"
    using game_goes_on [OF assms(1,2), of before] assms(3,4) by auto
  have "unat (current_turn e1) < 65535"
    using e1(5) assms(4) envs unat_bounds(2) [of "game_length (game_params e)"] by simp
  then have "unat (current_turn e1 + 1) = unat (game_length (game_params e))"
    using e1(5) assms(4) envs by (simp add: unat_word_ariths)
  then have "current_turn e1 + 1 = game_length (game_params e1)" by (simp add: word_unat_eq_iff e1(4))
  moreover have "env_poll final \<noteq> -1" using assms(3) envs by simp
  ultimately obtain e' where "loop_iteration final e1 = Inr e'" "idle_inv e'" "\<not> gameplay_started e'"
    using loop_iteration_ok [OF e1(2) safe_while_started [OF e1(3)], of final] e1(3) by auto
  with e1(1) envs show ?thesis by (simp add: for_each_append)
qed

end
