(* ===== verification/Loop_Rule.thy ===== *)
theory Loop_Rule
  imports Rounds Reader
begin

text \<open>
  A rule for an iteration of the server's loop, and for properties that every iteration keeps. The properties of
  a state before and after the iteration, and of one within it, after some messages have been served, may
  depend on the connections; the interface asks for what each part of an iteration does.
\<close>

subsection \<open>What the parts of an iteration do to the connections\<close>

text \<open>Reading, polling and resetting leave the descriptors, the addresses and what was sent.\<close>

definition same_traffic :: "server_tcp_handler \<Rightarrow> server_tcp_handler \<Rightarrow> bool" where
  "same_traffic h h' \<longleftrightarrow> addresses h' = addresses h \<and> wire h' = wire h
     \<and> (\<forall>j < conn_max. slot_fd h' j = slot_fd h j)"

lemma same_traffic_refl [simp]: "same_traffic h h"
  by (simp add: same_traffic_def)

lemma same_traffic_trans: "same_traffic a b \<Longrightarrow> same_traffic b c \<Longrightarrow> same_traffic a c"
  by (simp add: same_traffic_def)

lemma same_traffic_connections: "same_connections h h' \<Longrightarrow> same_traffic h h'"
  by (simp add: same_connections_def same_traffic_def slot_fd_def)

lemma same_traffic_poll:
  assumes "handler_ok h"
  shows "same_traffic h (reset_revents h)" "same_traffic h (poll_exec evs h)"
  using assms
  by (simp_all add: same_traffic_def handler_ok_def slot_fd_def reset_revents_def poll_exec_def nth_enumerate_eq)

text \<open>The strings of a message that was decoded from a read fit the length byte.\<close>

fun message_fits :: "client_message \<Rightarrow> bool" where
  "message_fits (Join_msg name) \<longleftrightarrow> str_ok name"
| "message_fits m \<longleftrightarrow> True"

lemma decode_one_fits: "decode_one bs = Some (m, rest) \<Longrightarrow> message_fits m"
proof (induction bs rule: decode_one.induct)
  case (2 b bs)
  have "str_ok (take (unat n) cs)" for n :: u8 and cs
    using unat_bounds(1) [of n] by (simp add: str_ok_def)
  with 2 show ?case
    by (auto split: option.splits client_message_code.splits list.splits if_splits)
qed simp

lemma decode_last_fits: "decode_last bs = Some m \<Longrightarrow> message_fits m"
proof (induction bs rule: decode_last.induct)
  case (1 bs)
  then show ?case
    by (auto simp: decode_last.simps [of bs] dest: decode_one_fits split: option.splits if_splits)
qed

lemma received_fits: "received_message r = Some m \<Longrightarrow> message_fits m"
  by (auto simp: received_message_def split: read_result.splits if_splits dest: decode_last_fits)

definition new_connection :: "loop_env \<Rightarrow> bool" where
  "new_connection env \<longleftrightarrow> env_revents env 0 AND POLLIN \<noteq> 0"

lemma new_connection_polled:
  assumes "handler_ok h"
  shows "is_new_connection (poll_exec (env_revents env) h) \<longleftrightarrow> new_connection env"
  using assms
  by (simp add: is_new_connection_def new_connection_def poll_exec_def handler_ok_def nth_enumerate_eq conn_max_def)

text \<open>The events that \<open>poll\<close> filled in stay until the next iteration.\<close>

definition polled :: "loop_env \<Rightarrow> server_tcp_handler \<Rightarrow> bool" where
  "polled env h \<longleftrightarrow> length (poll_descriptors h) = conn_max
     \<and> (\<forall>j < conn_max. revents (poll_descriptors h ! j) = env_revents env j)"

definition has_event :: "loop_env \<Rightarrow> nat \<Rightarrow> bool" where
  "has_event env i \<longleftrightarrow> env_revents env i AND (POLLIN OR POLLERR) \<noteq> 0"

lemma polled_event: "polled env h \<Longrightarrow> is_message_from h i \<Longrightarrow> i < conn_max \<Longrightarrow> has_event env i"
  by (simp add: polled_def is_message_from_def has_event_def)

lemma polled_start: "handler_ok h \<Longrightarrow> polled env (poll_exec (env_revents env) h)"
  by (simp add: polled_def poll_exec_def handler_ok_def nth_enumerate_eq)

lemma polled_cong: "poll_descriptors h' = poll_descriptors h \<Longrightarrow> polled env h' = polled env h"
  by (simp add: polled_def)

lemma polled_set_fd: "polled env h \<Longrightarrow> polled env (set_slot_fd i d h)"
  by (auto simp: polled_def set_slot_fd_def) (metis nth_list_update nth_list_update_neq pollfd.select_convs(2) pollfd.surjective pollfd.update_convs(1))

lemma polled_report: "polled env h \<Longrightarrow> polled env (report_msg_status status i h)"
  using polled_set_fd [of env "close_fd (slot_fd h i) h" i "-1"] polled_cong [of "close_fd (slot_fd h i) h" h env]
  by (auto simp: report_msg_status_def close_fd_def polled_def)

lemma polled_accept: "polled env h \<Longrightarrow> polled env (snd (accept_client d ip prt h))"
  using polled_set_fd [of env h]
  by (auto simp: accept_client_def close_fd_def polled_def split: option.splits)

lemma client_handle_msg_polls:
  assumes inv: "engine_inv e" and run: "client_handle_msg indet m i e = Inr e'"
  shows "poll_descriptors (tcp_handler e') = poll_descriptors (tcp_handler e)"
proof (cases "gameplay_started e")
  case True
  have "acted e e' \<or> e' = e"
  proof (cases m)
    case (Join_msg name)
    with run True show ?thesis by (simp add: join_handle_msg_def)
  next
    case Place_bomb_msg
    with run place_bomb_ok [OF inv True, of i] show ?thesis by auto
  next
    case Place_block_msg
    with run place_block_ok [OF inv True, of i] show ?thesis by auto
  next
    case (Move_msg d)
    with run move_ok [OF inv True, of indet d i] show ?thesis by auto
  qed
  then show ?thesis by (auto simp: acted_def)
next
  case False
  show ?thesis
  proof (cases "is_join m")
    case True
    then obtain name where "m = Join_msg name" by (cases m) auto
    with run False obtain address where address: "map_of (addresses (tcp_handler e)) i = Some address"
        and join: "join_handle_msg name i e = Inr e'"
      by (auto simp: join_handle_msg_def get_address_def Let_def)
    let ?e1 = "joined name address i e"
    have l: "players_positions ?e1 = []" "turns ?e1 = []" "current_turn ?e1 = 0" "bombs ?e1 = []"
        "blocks_positions ?e1 = Leaf"
      using inv False by (simp_all add: engine_inv_def lobby_ok_def)
    have "e' = ?e1 \<or> tcp_handler e' = send_message_to_all (game_started_msg ?e1) (tcp_handler ?e1)"
      using join_handle_msg_lobby [OF False address, of name, unfolded join]
        start_gameplay_ok [OF joined_tables [OF inv] l]
      by (auto split: if_splits)
    then show ?thesis by (auto simp: send_message_to_all_wire joined_def send_to_all_def)
  next
    case notjoin: False
    note msg = not_join [OF notjoin]
    have "i \<notin> keys (player_ids e)"
      using lobby_action_faults [OF inv False _ msg, of i indet] run by auto
    from lobby_action_ignored [OF this msg] run show ?thesis by simp
  qed
qed

lemma polled_new:
  assumes inv: "engine_inv e" and "polled env (tcp_handler e)"
  shows "polled env (tcp_handler (accept_new env' e))"
proof -
  obtain d ip prt where env: "env_accept env' = (d, ip, prt)" by (cases "env_accept env'")
  obtain pos h where h: "accept_client d ip prt (tcp_handler e) = (pos, h)" by fastforce
  have sends: "poll_descriptors (tcp_handler (fold (\<lambda>x. send_to i (f x)) xs s)) = poll_descriptors (tcp_handler s)" for f xs s i
    by (induction xs arbitrary: s) (simp_all add: send_to_def)
  have turn: "send_turn i = (\<lambda>t. send_to i (turn_info_to_bytes t))" for i by (intro ext) (simp add: send_turn_def)
  have accepted: "(\<lambda>player. send_accepted_player i (fst player) (snd player)) =
      (\<lambda>player. send_to i (accepted_player_msg (fst player) (snd player)))" for i
    by (intro ext) (simp add: send_accepted_player_def)
  have "poll_descriptors (tcp_handler (send_hello_state i (send_hello i s))) = poll_descriptors (tcp_handler s)" for i s
    unfolding send_hello_state_def send_all_turns_def send_all_accepted_player_def send_game_started_def
      send_hello_def turn accepted
    by (simp add: sends) (simp add: send_to_def sends)
  then have "poll_descriptors (tcp_handler (accept_new env' e)) = poll_descriptors h"
    using h env by (simp add: accept_new_def)
  moreover have "polled env h" using polled_accept [OF assms(2), of d ip prt] h by simp
  ultimately show ?thesis using polled_cong [of "tcp_handler (accept_new env' e)" h env] by blast
qed

subsection \<open>The rule\<close>

text \<open>
  \<open>before\<close> and \<open>after\<close> speak of the states at the two ends of an iteration; \<open>busy n\<close> is the property after at
  most \<open>n\<close> messages of the iteration have been executed; \<open>env_ok\<close> says what the environment may do.
\<close>

locale iteration_rule =
  fixes before :: "game_engine \<Rightarrow> bool" and busy :: "nat \<Rightarrow> game_engine \<Rightarrow> bool"
    and after :: "game_engine \<Rightarrow> bool" and env_ok :: "loop_env \<Rightarrow> bool"
  assumes quiet_before: "before e \<Longrightarrow> same_traffic (tcp_handler e) h \<Longrightarrow> before (e\<lparr>tcp_handler := h\<rparr>)"
    and quiet: "busy n e \<Longrightarrow> same_traffic (tcp_handler e) h \<Longrightarrow> busy n (e\<lparr>tcp_handler := h\<rparr>)"
    and begins: "idle_inv e \<Longrightarrow> gameplay_started e \<Longrightarrow> before e \<Longrightarrow> begin_turn e = Inr e' \<Longrightarrow> busy 0 e'"
    and lobby: "idle_inv e \<Longrightarrow> \<not> gameplay_started e \<Longrightarrow> before e \<Longrightarrow> busy 0 e"
    and accepts: "engine_inv e \<Longrightarrow> env_ok env \<Longrightarrow> new_connection env \<Longrightarrow> busy 0 e \<Longrightarrow> busy 0 (accept_new env e)"
    and acts: "engine_inv e \<Longrightarrow> env_ok env \<Longrightarrow> busy n e \<Longrightarrow> Suc n < conn_max \<Longrightarrow> message_fits m \<Longrightarrow>
      client_handle_msg indet m i e = Inr e' \<Longrightarrow> busy (Suc n) e'"
    and drops: "engine_inv e \<Longrightarrow> env_ok env \<Longrightarrow> busy n e \<Longrightarrow> 0 < i \<Longrightarrow> i < conn_max \<Longrightarrow>
      has_event env i \<Longrightarrow> received_message (env_read env i) = None \<Longrightarrow> status \<noteq> SUCCESS \<Longrightarrow>
      busy n (e\<lparr>tcp_handler := report_msg_status status i (tcp_handler e)\<rparr>)"
    and ends: "engine_inv e \<Longrightarrow> gameplay_started e \<Longrightarrow> busy n e \<Longrightarrow> n < conn_max \<Longrightarrow>
      summarise_turn e = Inr e' \<Longrightarrow> after e'"
    and rests: "engine_inv e \<Longrightarrow> \<not> gameplay_started e \<Longrightarrow> busy n e \<Longrightarrow> n < conn_max \<Longrightarrow> after e"
begin

lemma slot_keeps:
  assumes inv: "engine_inv e" and ok: "env_ok env" and busy: "busy n e" and n: "Suc n < conn_max"
    and i: "0 < i" "i < conn_max" and polled: "polled env (tcp_handler e)" and run: "serve_slot env i e = Inr e'"
  shows "polled env (tcp_handler e') \<and> (\<exists>n' \<le> Suc n. busy n' e')"
proof (cases "is_message_from (tcp_handler e) i")
  case False
  with run have "e' = e" by (simp add: serve_slot_def)
  with busy polled show ?thesis by (auto intro!: exI [of _ n])
next
  case True
  have event: "has_event env i" by (rule polled_event [OF polled True i(2)])
  have hok: "handler_ok (tcp_handler e)" using inv by (simp add: engine_inv_def tables_ok_def)
  obtain h status where h: "handler_ok h" "same_connections (tcp_handler e) h" and status: "status \<noteq> SUCCESS"
    and handled: "handle_msg (env_indet env i) (env_read env i) i e =
      (case received_message (env_read env i) of
         None \<Rightarrow> Inr (status, e\<lparr>tcp_handler := h\<rparr>)
       | Some msg \<Rightarrow> and_then (client_handle_msg (env_indet env i) msg i (e\<lparr>tcp_handler := h\<rparr>))
           (\<lambda>e1. Inr (SUCCESS, e1)))"
    by (rule handle_msg_cases [OF hok])
  have eh: "engine_inv (e\<lparr>tcp_handler := h\<rparr>)" "busy n (e\<lparr>tcp_handler := h\<rparr>)"
    using engine_inv_handler [OF inv h(1)] quiet [OF busy same_traffic_connections [OF h(2)]] by blast+
  have ph: "polled env h" using polled h(2) polled_cong [of h "tcp_handler e" env] by (simp add: same_connections_def)
  show ?thesis
  proof (cases "received_message (env_read env i)")
    case None
    with run True handled have "e' = e\<lparr>tcp_handler := report_msg_status status i h\<rparr>"
      by (simp add: serve_slot_def)
    moreover have "busy n (e\<lparr>tcp_handler := report_msg_status status i h\<rparr>)"
      using drops [OF eh(1) ok eh(2) i event None status] by simp
    ultimately show ?thesis using polled_report [OF ph, of status i] by (auto intro!: exI [of _ n])
  next
    case (Some m)
    with run True handled have "client_handle_msg (env_indet env i) m i (e\<lparr>tcp_handler := h\<rparr>) = Inr e'"
      by (auto simp: serve_slot_def report_msg_status_def)
    from acts [OF eh(1) ok eh(2) n received_fits [OF Some] this] client_handle_msg_polls [OF eh(1) this]
      polled_cong [of "tcp_handler e'" h env] ph
    show ?thesis by auto
  qed
qed

lemma slots_keep:
  assumes "for_each (serve_slot env) [k..<conn_max] e = Inr e'" and "engine_inv e" and "env_ok env"
    and "busy n e" and "n < k" and "0 < k" and "k \<le> conn_max" and "polled env (tcp_handler e)"
  shows "engine_inv e' \<and> (\<exists>n < conn_max. busy n e')"
  using assms
proof (induction "conn_max - k" arbitrary: k e n)
  case 0
  then show ?case by auto
next
  case (Suc d)
  then have "k < conn_max" by simp
  then have "[k..<conn_max] = k # [Suc k..<conn_max]" by (rule upt_conv_Cons)
  with Suc.prems(1) obtain e1 where e1: "serve_slot env k e = Inr e1"
      "for_each (serve_slot env) [Suc k..<conn_max] e1 = Inr e'"
    by auto
  have "engine_inv e1"
    using serve_slots_keeps [of env "[k]" e e1] e1(1) Suc.prems(2,6) \<open>k < conn_max\<close> by simp
  moreover obtain n' where "polled env (tcp_handler e1)" "n' \<le> Suc n" "busy n' e1"
    using slot_keeps [OF Suc.prems(2,3,4) _ Suc.prems(6) \<open>k < conn_max\<close> Suc.prems(8) e1(1)] Suc.prems(5)
      \<open>k < conn_max\<close> by auto
  ultimately show ?case
    using Suc.hyps(1) [OF _ e1(2) _ Suc.prems(3), of n'] Suc.hyps(2) Suc.prems(5) \<open>k < conn_max\<close> by simp
qed

lemma iteration_gives:
  assumes idle: "idle_inv e" and ok: "env_ok env" and "before e" and run: "loop_iteration env e = Inr e'"
  shows "after e'"
proof -
  let ?e0 = "e\<lparr>tcp_handler := reset_revents (tcp_handler e)\<rparr>"
  have hok: "handler_ok (tcp_handler e)" using idle by (simp add: idle_inv_def engine_inv_def tables_ok_def)
  then have idle0: "idle_inv ?e0" using idle by (simp add: idle_inv_handler)
  then obtain e1 where e1: "(if gameplay_started ?e0 then begin_turn ?e0 else Inr ?e0) = Inr e1"
      "engine_inv e1" "tcp_handler e1 = reset_revents (tcp_handler e)"
    by (rule begin_if_started) auto
  have "before ?e0" using quiet_before [OF \<open>before e\<close> same_traffic_poll(1) [OF hok]] .
  with e1(1) begins [OF idle0] lobby [OF idle0] have b1: "busy 0 e1" by (auto split: if_splits)
  let ?e2 = "e1\<lparr>tcp_handler := poll_exec (env_revents env) (tcp_handler e1)\<rparr>"
  have hok1: "handler_ok (tcp_handler e1)" using e1(3) hok by simp
  have e2: "engine_inv ?e2" "busy 0 ?e2" "polled env (tcp_handler ?e2)"
    using engine_inv_handler [OF e1(2)] hok1 quiet [OF b1 same_traffic_poll(2) [OF hok1]] polled_start [OF hok1]
    by simp_all
  let ?e3 = "if is_new_connection (tcp_handler ?e2) then accept_new env ?e2 else ?e2"
  have "engine_inv ?e3"
  proof (rule accept_if_new [OF e2(1), of env])
    fix h assume "?e3 = ?e2\<lparr>tcp_handler := h\<rparr>" and "handler_ok h"
    with engine_inv_handler [OF e2(1)] show ?thesis by metis
  qed
  moreover have "busy 0 ?e3"
    using accepts [OF e2(1) ok _ e2(2)] e2(2) new_connection_polled [OF hok1, of env] by simp
  moreover have "polled env (tcp_handler ?e3)" using polled_new [OF e2(1,3)] e2(3) by simp
  moreover have "1 \<le> conn_max" by (simp add: conn_max_def)
  ultimately have served: "engine_inv e4 \<and> (\<exists>n < conn_max. busy n e4)" if "serve_clients env ?e2 = Inr e4" for e4
    using slots_keep [of env 1 ?e3 e4 0] that ok by (simp only: serve_clients_def)
  have polled: "engine_inv ?e2 \<and> (\<exists>n < conn_max. busy n ?e2)"
    using e2 by (intro conjI exI [of _ 0]) (simp_all add: conn_max_def)
  let ?mid = "if env_poll env = -1 then exit_with_msg
    else if \<not> env_interrupted env \<and> env_poll env > 0 then serve_clients env ?e2 else Inr ?e2"
  have "loop_iteration env e = and_then ?mid (\<lambda>e4. if gameplay_started e4 then summarise_turn e4 else Inr e4)"
    unfolding loop_iteration_def Let_def e1(1) and_then.simps by (rule refl)
  with run obtain e4 where e4: "?mid = Inr e4" "(if gameplay_started e4 then summarise_turn e4 else Inr e4) = Inr e'"
    by auto
  from e4(1) have "engine_inv e4 \<and> (\<exists>n < conn_max. busy n e4)"
    using served polled by (metis Inl_Inr_False Inr_inject exit_with_msg_def)
  then obtain n where "engine_inv e4" "n < conn_max" "busy n e4" by blast
  with e4(2) ends [of e4] rests [of e4] show ?thesis by (auto split: if_splits)
qed

end

text \<open>A property of the states between two iterations.\<close>

locale loop_rule = iteration_rule idle busy idle env_ok for idle busy env_ok
begin

lemma run_keeps:
  "idle_inv e \<Longrightarrow> idle e \<Longrightarrow> list_all env_ok envs \<Longrightarrow> for_each loop_iteration envs e = Inr e' \<Longrightarrow> idle e'"
  by (induction envs arbitrary: e) (auto dest: iteration_gives loop_iteration_keeps)

end

end
