(* ===== verification/Follow.thy ===== *)
theory Follow
  imports Agreement Loop_Rule
begin

text \<open>
  A whole game, as a client sees it that was there from its start. The log of the server, replayed turn
  by turn on the client's picture of a new game, gives the bombs and the robots on the board; and both
  sides' scores can be read off the log, the server's by the turns, the client's by the explosions in
  which a robot was hit. The blocks are not part of this: the client collects the blocks of an explosion
  in a set ordered by the faulty comparison of positions, which may drop some of them.
\<close>

subsection \<open>Replaying the log\<close>

definition replay :: "turn_info list \<Rightarrow> game_info \<Rightarrow> game_info res" where
  "replay ts = for_each apply_turn ts"

lemma for_each_Nil_last [simp]: "and_then m (for_each f []) = m"
  by (cases m) simp_all

lemma replay_snoc: "replay (ts @ [t]) g = and_then (replay ts g) (apply_turn t)"
  by (cases "for_each apply_turn ts g") (simp_all add: replay_def for_each_append)

text \<open>An event added to the last turn is applied last.\<close>

lemma replay_add_event:
  assumes "length ts = Suc n" and "replay ts g0 = Inr g"
  shows "replay (ts[n := add_event ev (ts ! n)]) g0 = apply_event ev g"
proof -
  obtain us t where ts: "ts = us @ [t]" "length us = n"
    using assms(1) by (metis length_Suc_conv_rev)
  obtain g1 where g1: "replay us g0 = Inr g1" "apply_turn t g1 = Inr g"
    using assms(2) ts(1) by (auto simp: replay_snoc)
  have "ts[n := add_event ev (ts ! n)] = us @ [add_event ev t]"
    using ts by (simp add: list_update_append nth_append)
  with g1 show ?thesis by (simp add: replay_snoc apply_turn_def for_each_append)
qed

text \<open>The robots an event says were destroyed, in a turn and in how many turns and explosions.\<close>

fun hits :: "event \<Rightarrow> player_id set" where
  "hits (Bomb_exploded_event i robots blocks) = set robots"
| "hits ev = {}"

definition turn_hits :: "turn_info \<Rightarrow> player_id set" where
  "turn_hits t = (\<Union>ev \<in> set (events t). hits ev)"

definition turns_hit :: "player_id \<Rightarrow> turn_info list \<Rightarrow> nat" where
  "turns_hit p ts = length (filter (\<lambda>t. p \<in> turn_hits t) ts)"

definition explosions_hit :: "player_id \<Rightarrow> turn_info list \<Rightarrow> nat" where
  "explosions_hit p ts = length (filter (\<lambda>ev. p \<in> hits ev) (concat (map events ts)))"

subsection \<open>The client's scores\<close>

lemma destroy_players:
  assumes "map_ok (gi_scores g)" and "map_ok (gi_player_positions g)" and "distinct ps"
    and "set ps \<subseteq> keys (gi_scores g)"
  shows "\<exists>g'. for_each destroy_player ps g = Inr g' \<and> map_ok (gi_scores g') \<and> map_ok (gi_player_positions g')
    \<and> keys (gi_player_positions g') = keys (gi_player_positions g) - set ps \<and> gi_bombs g' = gi_bombs g
    \<and> gi_bomb_timer g' = gi_bomb_timer g
    \<and> (\<forall>p. map_of (gi_scores g') p =
          map_option (\<lambda>s. s + (if p \<in> set ps then 1 else 0)) (map_of (gi_scores g) p))"
  using assms
proof (induction ps arbitrary: g)
  case Nil
  show ?case using Nil.prems by (simp add: option.map_ident)
next
  case (Cons p ps)
  obtain s where s: "map_of (gi_scores g) p = Some s" using Cons.prems(4) by (auto simp: in_keys_iff)
  let ?g = "g\<lparr>gi_player_positions := map_erase p (gi_player_positions g),
      gi_scores := map_assign p (s + 1) (gi_scores g)\<rparr>"
  have "map_at (gi_scores g) p = Inr s" using s by simp
  then have step: "destroy_player p g = Inr ?g" by (simp add: destroy_player_def)
  have "\<exists>g'. for_each destroy_player ps ?g = Inr g' \<and> map_ok (gi_scores g') \<and> map_ok (gi_player_positions g')
    \<and> keys (gi_player_positions g') = keys (gi_player_positions ?g) - set ps \<and> gi_bombs g' = gi_bombs ?g
    \<and> gi_bomb_timer g' = gi_bomb_timer ?g
    \<and> (\<forall>q. map_of (gi_scores g') q =
          map_option (\<lambda>s. s + (if q \<in> set ps then 1 else 0)) (map_of (gi_scores ?g) q))"
    by (rule Cons.IH) (use Cons.prems in auto)
  then obtain g' where g': "for_each destroy_player ps ?g = Inr g'" "map_ok (gi_scores g')"
      "map_ok (gi_player_positions g')"
      "keys (gi_player_positions g') = keys (gi_player_positions ?g) - set ps" "gi_bombs g' = gi_bombs ?g"
      "gi_bomb_timer g' = gi_bomb_timer ?g"
      "\<And>q. map_of (gi_scores g') q =
          map_option (\<lambda>s. s + (if q \<in> set ps then 1 else 0)) (map_of (gi_scores ?g) q)"
    by auto
  have "map_of (gi_scores g') q =
      map_option (\<lambda>s. s + (if q \<in> set (p # ps) then 1 else 0)) (map_of (gi_scores g) q)" for q
    using g'(7) [of q] s Cons.prems(1,3) by (cases "q = p") simp_all
  with g' step show ?case by (intro exI [of _ g']) auto
qed


text \<open>What an event does to the bombs and to the robots the client knows.\<close>

fun bombs_after :: "u16 \<Rightarrow> event \<Rightarrow> (bomb_id, bomb) std_map \<Rightarrow> (bomb_id, bomb) std_map" where
  "bombs_after tm (Bomb_placed_event i pos) bs = map_insert i (Bomb pos tm) bs"
| "bombs_after tm (Bomb_exploded_event i robots blocks) bs = map_erase i bs"
| "bombs_after tm ev bs = bs"

fun robots_after :: "event \<Rightarrow> player_id set \<Rightarrow> player_id set" where
  "robots_after (Player_moved_event i pos) ps = insert i ps"
| "robots_after ev ps = ps - hits ev"

definition score_plus :: "nat \<Rightarrow> score option \<Rightarrow> score option" where
  "score_plus n s = map_option (\<lambda>s. s + of_nat n) s"

lemma score_plus_simps [simp]:
  "score_plus 0 s = s" "score_plus n (score_plus m s) = score_plus (m + n) s"
  "score_plus n (Some v) = Some (v + of_nat n)" "score_plus n s = None \<longleftrightarrow> s = None"
  by (cases s; simp add: score_plus_def add.assoc)+

lemma fold_remove_block:
  "gi_scores (fold remove_block bs g) = gi_scores g" "gi_bombs (fold remove_block bs g) = gi_bombs g"
  "gi_player_positions (fold remove_block bs g) = gi_player_positions g"
  "gi_bomb_timer (fold remove_block bs g) = gi_bomb_timer g"
  by (induction bs arbitrary: g) (simp_all add: remove_block_def)

lemma apply_event_effect:
  assumes "map_ok (gi_scores g)" and "map_ok (gi_player_positions g)" and "hits ev \<subseteq> keys (gi_scores g)"
  shows "\<exists>g'. apply_event ev g = Inr g' \<and> map_ok (gi_scores g') \<and> map_ok (gi_player_positions g')
    \<and> gi_bomb_timer g' = gi_bomb_timer g \<and> gi_bombs g' = bombs_after (gi_bomb_timer g) ev (gi_bombs g)
    \<and> keys (gi_player_positions g') = robots_after ev (keys (gi_player_positions g))
    \<and> (\<forall>p. map_of (gi_scores g') p = score_plus (if p \<in> hits ev then 1 else 0) (map_of (gi_scores g) p))"
proof (cases ev)
  case (Bomb_exploded_event i robots blocks)
  let ?ps = "inorder (fold (set_insert (<)) robots Leaf)"
  have ps: "set ?ps = set robots" "distinct ?ps"
    using elems_fold_insert [of Leaf robots] by (auto simp: elems_def intro: inorder_distinct)
  obtain g' where g': "for_each destroy_player ?ps (remove_bomb i g) = Inr g'" "map_ok (gi_scores g')"
      "map_ok (gi_player_positions g')"
      "keys (gi_player_positions g') = keys (gi_player_positions g) - set robots"
      "gi_bombs g' = map_erase i (gi_bombs g)" "gi_bomb_timer g' = gi_bomb_timer g"
      "\<And>p. map_of (gi_scores g') p = score_plus (if p \<in> set robots then 1 else 0) (map_of (gi_scores g) p)"
    using destroy_players [of "remove_bomb i g" ?ps] assms ps
    by (auto simp: remove_bomb_def Bomb_exploded_event score_plus_def)
  show ?thesis
    unfolding Bomb_exploded_event
    by (rule exI [of _ "fold remove_block (inorder (fold pos_insert blocks Leaf)) g'"])
      (simp add: g' fold_remove_block)
qed (use assms in \<open>simp_all add: add_bomb_def change_player_position_def add_block_def\<close>)

subsection \<open>The client's picture during a game\<close>

text \<open>
  \<open>D\<close> are the robots that were destroyed in the current turn and not placed anew yet. The client has the
  bombs of the server with the timer of the configuration, and knows of all robots but those in \<open>D\<close>.
\<close>

definition as_placed :: "u16 \<Rightarrow> (bomb_id, bomb) std_map \<Rightarrow> (bomb_id, bomb) std_map" where
  "as_placed tm bs = map (\<lambda>b. (fst b, Bomb (bomb_position (snd b)) tm)) bs"

definition shadows :: "game_info \<Rightarrow> player_id set \<Rightarrow> game_engine \<Rightarrow> game_info \<Rightarrow> bool" where
  "shadows g0 D e g \<longleftrightarrow> replay (turns e) g0 = Inr g
     \<and> map_ok (gi_scores g) \<and> map_ok (gi_player_positions g)
     \<and> gi_bomb_timer g = bomb_timer (game_params e)
     \<and> gi_bombs g = as_placed (bomb_timer (game_params e)) (bombs e)
     \<and> keys (gi_player_positions g) = keys (players_positions e) - D
     \<and> keys (players e) \<subseteq> keys (gi_scores g)
     \<and> (\<forall>p. map_of (gi_scores g) p = score_plus (explosions_hit p (turns e)) (map_of (gi_scores g0) p))"

lemma keys_score_plus:
  "\<forall>p. map_of m' p = score_plus (n p) (map_of m p) \<Longrightarrow> keys m' = keys m"
  by (auto simp: in_keys_iff) (metis not_None_eq score_plus_simps(4))+

lemma hits_add_event:
  assumes "length ts = Suc n"
  shows "explosions_hit p (ts[n := add_event ev (ts ! n)]) = explosions_hit p ts + (if p \<in> hits ev then 1 else 0)"
    and "hits ev = {} \<Longrightarrow> turns_hit p (ts[n := add_event ev (ts ! n)]) = turns_hit p ts"
proof -
  obtain us t where ts: "ts = us @ [t]" "length us = n"
    using assms(1) by (metis length_Suc_conv_rev)
  have upd: "ts[n := add_event ev (ts ! n)] = us @ [add_event ev t]"
    using ts by (simp add: list_update_append nth_append)
  show "explosions_hit p (ts[n := add_event ev (ts ! n)]) = explosions_hit p ts + (if p \<in> hits ev then 1 else 0)"
    unfolding upd by (simp add: explosions_hit_def ts(1))
  show "turns_hit p (ts[n := add_event ev (ts ! n)]) = turns_hit p ts" if "hits ev = {}"
    unfolding upd using that by (simp add: turns_hit_def turn_hits_def ts(1))
qed

lemma shadows_add_event:
  assumes sh: "shadows g0 D e g" and len: "length (turns e) = Suc (unat (current_turn e))"
    and add: "add_turn_event (current_turn e) ev e1 = Inr e'"
    and frame: "turns e1 = turns e" "game_params e1 = game_params e" "players e1 = players e"
    and quiet: "hits ev = {}"
    and bombs: "bombs_after (bomb_timer (game_params e)) ev (gi_bombs g)
      = as_placed (bomb_timer (game_params e)) (bombs e1)"
    and robots: "robots_after ev (keys (players_positions e) - D) = keys (players_positions e1) - D'"
  shows "\<exists>g'. shadows g0 D' e' g'"
proof -
  let ?n = "unat (current_turn e)" and ?tm = "bomb_timer (game_params e)"
  have e': "e' = e1\<lparr>turns := (turns e)[?n := add_event ev (turns e ! ?n)]\<rparr>"
    using add len frame(1) by (simp add: add_turn_event_def)
  have g: "replay (turns e) g0 = Inr g" "map_ok (gi_scores g)" "map_ok (gi_player_positions g)"
      "gi_bomb_timer g = ?tm" "gi_bombs g = as_placed ?tm (bombs e)"
      "keys (gi_player_positions g) = keys (players_positions e) - D" "keys (players e) \<subseteq> keys (gi_scores g)"
      "\<And>p. map_of (gi_scores g) p = score_plus (explosions_hit p (turns e)) (map_of (gi_scores g0) p)"
    using sh by (simp_all add: shadows_def)
  obtain g' where g': "apply_event ev g = Inr g'" "map_ok (gi_scores g')" "map_ok (gi_player_positions g')"
      "gi_bomb_timer g' = ?tm" "gi_bombs g' = as_placed ?tm (bombs e1)"
      "keys (gi_player_positions g') = keys (players_positions e1) - D'"
      "\<And>p. map_of (gi_scores g') p = map_of (gi_scores g) p"
    using apply_event_effect [of g ev] g(2-6) quiet bombs robots by auto
  have "keys (gi_scores g') = keys (gi_scores g)" using g'(7) by (auto simp: in_keys_iff)
  moreover have "replay (turns e') g0 = Inr g'"
    using replay_add_event [OF len g(1), of ev] g'(1) by (simp add: e')
  moreover have "explosions_hit p (turns e') = explosions_hit p (turns e)" for p
    using hits_add_event(1) [OF len, of p ev] quiet by (simp add: e')
  ultimately have "shadows g0 D' e' g'"
    using g(7,8) g' frame by (simp add: shadows_def e')
  then show ?thesis ..
qed

lemma keys_as_placed [simp]: "keys (as_placed tm bs) = keys bs"
  by (force simp: keys_def as_placed_def)

lemma as_placed_insert:
  "map_insert i (Bomb pos tm) (as_placed tm bs) = as_placed tm (map_insert i (Bomb pos tm) bs)"
proof -
  have "map_assign i (Bomb pos tm) (as_placed tm bs) = as_placed tm (map_assign i (Bomb pos tm) bs)"
    by (induction bs) (auto simp: as_placed_def)
  then show ?thesis by (simp add: map_insert_def map_of_None_iff)
qed

text \<open>The clients' actions.\<close>

lemma place_bomb_shadows:
  assumes sh: "shadows g0 D e g" and len: "length (turns e) = Suc (unat (current_turn e))"
    and run: "place_bomb_handle_msg i e = Inr e'"
  shows "\<exists>g'. shadows g0 D e' g'"
proof (cases "acting_player i e")
  case (Some p)
  with run obtain pos where pos: "add_turn_event (current_turn e) (Bomb_placed_event (next_bomb_id e) pos)
      (e\<lparr>next_bomb_id := next_bomb_id e + 1, bombs := map_insert (next_bomb_id e)
          (Bomb pos (bomb_timer (game_params e))) (bombs e)\<rparr>) = Inr e'"
    by (auto simp: place_bomb_handle_msg_def Let_def)
  have "gi_bombs g = as_placed (bomb_timer (game_params e)) (bombs e)" using sh by (simp add: shadows_def)
  then show ?thesis
    by (intro shadows_add_event [OF sh len pos]) (simp_all add: as_placed_insert)
qed (use sh run in \<open>auto simp: place_bomb_handle_msg_def\<close>)

lemma place_block_shadows:
  assumes sh: "shadows g0 D e g" and len: "length (turns e) = Suc (unat (current_turn e))"
    and run: "place_block_handle_msg i e = Inr e'"
  shows "\<exists>g'. shadows g0 D e' g'"
proof (cases "acting_player i e")
  case (Some p)
  with run obtain pos where pos: "add_turn_event (current_turn e) (Block_placed_event pos)
      (e\<lparr>blocks_positions := pos_insert pos (blocks_positions e)\<rparr>) = Inr e'"
    by (auto simp: place_block_handle_msg_def)
  show ?thesis
    by (rule shadows_add_event [OF sh len pos]) (use sh in \<open>simp_all add: shadows_def\<close>)
qed (use sh run in \<open>auto simp: place_block_handle_msg_def\<close>)

lemma move_shadows:
  assumes sh: "shadows g0 (elems (current_players_to_destroy e)) e g"
    and len: "length (turns e) = Suc (unat (current_turn e))" and set: "set_ok (current_players_to_destroy e)"
    and run: "move_handle_msg indet d i e = Inr e'"
  shows "\<exists>g'. shadows g0 (elems (current_players_to_destroy e)) e' g'"
proof (cases "\<exists>p pos. acting_player i e = Some p \<and> map_of (players_positions e) p = Some pos
    \<and> check_position_to_move e (moved_position indet d pos)")
  case True
  then obtain p pos where p: "acting_player i e = Some p" "map_of (players_positions e) p = Some pos"
      "check_position_to_move e (moved_position indet d pos)"
    by blast
  let ?new = "moved_position indet d pos" and ?D = "elems (current_players_to_destroy e)"
  have at: "map_at (players_positions e) p = Inr pos" using p(2) by simp
  have add: "add_turn_event (current_turn e) (Player_moved_event p ?new)
      (e\<lparr>players_positions := map_assign p ?new (players_positions e)\<rparr>) = Inr e'"
    using run p(1,3) by (simp add: move_handle_msg_def at Let_def)
  have "p \<notin> ?D"
    using p(1) set_count_ok [OF set, of p] by (auto simp: acting_player_def split: option.splits if_splits)
  then show ?thesis
    by (intro shadows_add_event [OF sh len add]) (use sh in \<open>auto simp: shadows_def\<close>)
qed (use sh run in \<open>auto simp: move_handle_msg_def Let_def split: option.splits if_splits\<close>)

text \<open>A robot placed at random, for the first time or anew.\<close>

lemma seed_player_shadows:
  assumes sh: "shadows g0 D e g" and len: "length (turns e) = Suc (unat (current_turn e))"
    and run: "seed_player i e = Inr e'"
  shows "\<exists>g'. shadows g0 (D - {i}) e' g'"
proof -
  obtain pos r e1 where e1: "add_turn_event (current_turn e) (Player_moved_event i pos) (e\<lparr>random := r\<rparr>) = Inr e1"
      and e': "e' = e1\<lparr>players_positions := map_assign i pos (players_positions e1)\<rparr>"
    using run by (auto simp: seed_player_def)
  obtain ts where ts: "e1 = e\<lparr>random := r, turns := ts\<rparr>" using add_turn_event_frame [OF e1] by auto
  have "add_turn_event (current_turn e) (Player_moved_event i pos)
      (e\<lparr>random := r, players_positions := map_assign i pos (players_positions e)\<rparr>) = Inr e'"
    using add_turn_event_positions [OF e1] by (simp add: e' ts)
  then show ?thesis
    by (rule shadows_add_event [OF sh len]) (use sh in \<open>auto simp: shadows_def\<close>)
qed

lemma seed_block_shadows:
  assumes sh: "shadows g0 D e g" and len: "length (turns e) = Suc (unat (current_turn e))"
    and zero: "current_turn e = 0" and run: "seed_block e = Inr e'"
  shows "\<exists>g'. shadows g0 D e' g'"
proof -
  obtain pos r e1 where e1: "add_turn_event 0 (Block_placed_event pos) (e\<lparr>random := r\<rparr>) = Inr e1"
      and e': "e' = e1\<lparr>blocks_positions := pos_insert pos (blocks_positions e1)\<rparr>"
    using run by (auto simp: seed_block_def)
  obtain ts where ts: "e1 = e\<lparr>random := r, turns := ts\<rparr>" using add_turn_event_frame [OF e1] by auto
  have "add_turn_event (current_turn e) (Block_placed_event pos)
      (e\<lparr>random := r, blocks_positions := pos_insert pos (blocks_positions e)\<rparr>) = Inr e'"
    using add_turn_event_blocks [OF e1] by (simp add: e' ts zero)
  then show ?thesis
    by (rule shadows_add_event [OF sh len]) (use sh in \<open>auto simp: shadows_def\<close>)
qed

subsection \<open>Steps without explosions\<close>

text \<open>What all of these leave as it is, and that they hit no robot.\<close>

definition quiet_step :: "game_engine \<Rightarrow> game_engine \<Rightarrow> bool" where
  "quiet_step e e' \<longleftrightarrow> game_params e' = game_params e \<and> players e' = players e \<and> scores e' = scores e
     \<and> current_turn e' = current_turn e \<and> gameplay_started e' = gameplay_started e
     \<and> current_players_to_destroy e' = current_players_to_destroy e
     \<and> tcp_handler e' = tcp_handler e \<and> length (turns e') = length (turns e)
     \<and> butlast (turns e') = butlast (turns e) \<and> (\<forall>p. turns_hit p (turns e') = turns_hit p (turns e))"

lemma quiet_step_refl [simp]: "quiet_step e e"
  by (simp add: quiet_step_def)

lemma quiet_step_trans: "quiet_step e e1 \<Longrightarrow> quiet_step e1 e2 \<Longrightarrow> quiet_step e e2"
  by (simp add: quiet_step_def)

lemma butlast_add_event: "length ts = Suc n \<Longrightarrow> butlast (ts[n := x]) = butlast ts"
  by (auto simp: butlast_list_update)

lemma last_add_event: "length ts = Suc n \<Longrightarrow> last (ts[n := add_event ev (ts ! n)]) = add_event ev (last ts)"
  by (cases ts rule: rev_cases) (simp_all add: list_update_append nth_append)

lemma quiet_add_event:
  assumes "add_turn_event t ev e1 = Inr e'" and "length (turns e) = Suc (unat t)" and "hits ev = {}"
    and "game_params e1 = game_params e" "players e1 = players e" "scores e1 = scores e" "turns e1 = turns e"
      "current_turn e1 = current_turn e" "gameplay_started e1 = gameplay_started e"
      "current_players_to_destroy e1 = current_players_to_destroy e" "tcp_handler e1 = tcp_handler e"
  shows "quiet_step e e'"
  using assms hits_add_event(2) [OF assms(2,3)] butlast_add_event [OF assms(2)]
  by (auto simp: add_turn_event_def quiet_step_def)

lemma seed_player_quiet:
  assumes "length (turns e) = Suc (unat (current_turn e))" and "seed_player i e = Inr e'"
  shows "quiet_step e e'"
proof -
  obtain pos r e1 where e1: "add_turn_event (current_turn e) (Player_moved_event i pos) (e\<lparr>random := r\<rparr>) = Inr e1"
      and e': "e' = e1\<lparr>players_positions := map_assign i pos (players_positions e1)\<rparr>"
    using assms(2) by (auto simp: seed_player_def)
  have "quiet_step e e1" by (rule quiet_add_event [OF e1 assms(1)]) simp_all
  then show ?thesis by (simp add: e' quiet_step_def)
qed

lemma seed_block_quiet:
  assumes "length (turns e) = Suc (unat (current_turn e))" and "current_turn e = 0" and "seed_block e = Inr e'"
  shows "quiet_step e e'"
proof -
  obtain pos r e1 where e1: "add_turn_event 0 (Block_placed_event pos) (e\<lparr>random := r\<rparr>) = Inr e1"
      and e': "e' = e1\<lparr>blocks_positions := pos_insert pos (blocks_positions e1)\<rparr>"
    using assms(3) by (auto simp: seed_block_def)
  have "quiet_step e e1" by (rule quiet_add_event [OF e1]) (use assms in simp_all)
  then show ?thesis by (simp add: e' quiet_step_def)
qed

lemma action_quiet:
  assumes len: "length (turns e) = Suc (unat (current_turn e))" and started: "gameplay_started e"
    and run: "client_handle_msg indet m i e = Inr e'"
  shows "quiet_step e e'"
proof (cases m)
  case (Join_msg name)
  with run started show ?thesis by (simp add: join_handle_msg_def)
next
  case Place_bomb_msg
  with run have "place_bomb_handle_msg i e = Inr e'" by simp
  then show ?thesis
    by (auto simp: place_bomb_handle_msg_def Let_def intro: quiet_add_event [OF _ len] split: option.splits)
next
  case Place_block_msg
  with run have "place_block_handle_msg i e = Inr e'" by simp
  then show ?thesis
    by (auto simp: place_block_handle_msg_def intro: quiet_add_event [OF _ len] split: option.splits)
next
  case (Move_msg d)
  with run have "move_handle_msg indet d i e = Inr e'" by simp
  then show ?thesis
    by (auto simp: move_handle_msg_def Let_def intro: quiet_add_event [OF _ len] split: option.splits if_splits)
qed

text \<open>A client whose picture of the new game has the players, and no robots, blocks or bombs.\<close>

definition ready_for :: "game_engine \<Rightarrow> game_info \<Rightarrow> bool" where
  "ready_for e g0 \<longleftrightarrow> fresh_game (bomb_timer (game_params e)) g0 \<and> map_ok (gi_scores g0)
     \<and> keys (players e) \<subseteq> keys (gi_scores g0)"

lemma ready_for_cong:
  "game_params e' = game_params e \<Longrightarrow> players e' = players e \<Longrightarrow> ready_for e' = ready_for e"
  by (simp add: ready_for_def fun_eq_iff)

lemma start_gameplay_follows:
  assumes lobby: "players_positions e = []" "turns e = []" "current_turn e = 0" "bombs e = []"
    and start: "start_gameplay e = Inr e'"
  shows "(ready_for e g0 \<longrightarrow> (\<exists>g. shadows g0 {} e' g)) \<and> turns_hit p (turns e') = 0 \<and> players e' = players e
    \<and> scores e' = scores e \<and> game_params e' = game_params e \<and> gameplay_started e'
    \<and> current_players_to_destroy e' = current_players_to_destroy e"
proof -
  let ?e1 = "e\<lparr>gameplay_started := True, turns := turns e @ [new_turn_info 0]\<rparr>"
  let ?e2 = "send_to_all (game_started_msg ?e1) ?e1"
  let ?P = "\<lambda>s. quiet_step ?e2 s \<and> (ready_for e g0 \<longrightarrow> (\<exists>g. shadows g0 {} s g))"
  have e2: "turns ?e2 = [new_turn_info 0]" "current_turn ?e2 = 0"
    using lobby by (simp_all add: send_to_all_def)
  have len: "length (turns s) = Suc (unat (current_turn s))" "current_turn s = 0" if "?P s" for s
    using that e2 by (simp_all add: quiet_step_def)
  have "shadows g0 {} ?e2 (new_turn 0 g0)" if "ready_for e g0"
    using that lobby
    by (auto simp: ready_for_def fresh_game_def shadows_def e2 replay_def apply_turn_def new_turn_def
        as_placed_def explosions_hit_def send_to_all_def)
  then have "?P ?e2" by auto
  obtain e3 where e3: "seed_players ?e2 = Inr e3" "seed_blocks e3 = Inr e'"
    using start by (auto simp: start_gameplay_def Let_def)
  have "?P e3" using e3(1) [unfolded seed_players_def] \<open>?P ?e2\<close>
  proof (rule for_each_invariant)
    fix q s s' assume P: "?P s" and run: "seed_player (fst q) s = Inr s'"
    note l = len [OF P]
    from seed_player_quiet [OF l(1) run] P have "quiet_step ?e2 s'" by (blast intro: quiet_step_trans)
    with seed_player_shadows [of g0 "{}", OF _ l(1) run] P show "?P s'" by auto
  qed
  with e3(2) [unfolded seed_blocks_def] have "?P e'"
  proof (rule for_each_invariant)
    fix j :: nat and s s' assume P: "?P s" and run: "seed_block s = Inr s'"
    note l = len [OF P]
    from seed_block_quiet [OF l run] P have "quiet_step ?e2 s'" by (blast intro: quiet_step_trans)
    with seed_block_shadows [of g0 "{}", OF _ l run] P show "?P s'" by auto
  qed
  then show ?thesis
    using lobby(2) by (simp add: quiet_step_def turns_hit_def turn_hits_def send_to_all_def)
qed

subsection \<open>Explosions and the end of a turn\<close>

lemma explosions_effect:
  assumes "map_ok (gi_scores g)" and "map_ok (gi_player_positions g)"
    and "\<forall>b \<in> set bs. set (robots_hit e (snd b)) \<subseteq> keys (gi_scores g)"
  shows "\<exists>g'. for_each apply_event (map (explosion_event e) bs) g = Inr g'
    \<and> map_ok (gi_scores g') \<and> map_ok (gi_player_positions g') \<and> gi_bomb_timer g' = gi_bomb_timer g
    \<and> gi_bombs g' = filter (\<lambda>b. fst b \<notin> fst ` set bs) (gi_bombs g)
    \<and> keys (gi_player_positions g') = keys (gi_player_positions g) - (\<Union>b \<in> set bs. set (robots_hit e (snd b)))
    \<and> (\<forall>p. map_of (gi_scores g') p =
          score_plus (length (filter (\<lambda>ev. p \<in> hits ev) (map (explosion_event e) bs))) (map_of (gi_scores g) p))"
  using assms
proof (induction bs arbitrary: g)
  case (Cons b bs)
  have ev: "explosion_event e b = Bomb_exploded_event (fst b) (robots_hit e (snd b)) (blocks_hit e (snd b))"
    by (simp add: explosion_event_def)
  obtain g1 where g1: "apply_event (explosion_event e b) g = Inr g1" "map_ok (gi_scores g1)"
      "map_ok (gi_player_positions g1)" "gi_bomb_timer g1 = gi_bomb_timer g"
      "gi_bombs g1 = map_erase (fst b) (gi_bombs g)"
      "keys (gi_player_positions g1) = keys (gi_player_positions g) - set (robots_hit e (snd b))"
      "\<And>p. map_of (gi_scores g1) p =
        score_plus (if p \<in> set (robots_hit e (snd b)) then 1 else 0) (map_of (gi_scores g) p)"
    using apply_event_effect [of g "explosion_event e b"] Cons.prems unfolding ev by auto
  have "keys (gi_scores g1) = keys (gi_scores g)" using g1(7) by (intro keys_score_plus allI) simp
  then have "\<forall>b \<in> set bs. set (robots_hit e (snd b)) \<subseteq> keys (gi_scores g1)" using Cons.prems(3) by auto
  from Cons.IH [OF g1(2,3) this] obtain g2 where g2:
      "for_each apply_event (map (explosion_event e) bs) g1 = Inr g2" "map_ok (gi_scores g2)"
      "map_ok (gi_player_positions g2)" "gi_bomb_timer g2 = gi_bomb_timer g1"
      "gi_bombs g2 = filter (\<lambda>b. fst b \<notin> fst ` set bs) (gi_bombs g1)"
      "keys (gi_player_positions g2) = keys (gi_player_positions g1) - (\<Union>b \<in> set bs. set (robots_hit e (snd b)))"
      "\<And>p. map_of (gi_scores g2) p =
        score_plus (length (filter (\<lambda>ev. p \<in> hits ev) (map (explosion_event e) bs))) (map_of (gi_scores g1) p)"
    by auto
  have "gi_bombs g2 = filter (\<lambda>x. fst x \<notin> fst ` set (b # bs)) (gi_bombs g)"
    unfolding g2(5) g1(5) map_erase_def by (auto simp: intro!: filter_cong)
  moreover have "map_of (gi_scores g2) p =
      score_plus (length (filter (\<lambda>ev. p \<in> hits ev) (map (explosion_event e) (b # bs)))) (map_of (gi_scores g) p)" for p
    by (simp add: g2(7) g1(7) ev)
  ultimately show ?case
    using g1 g2(1-4,6) by (intro exI [of _ g2]) auto
qed simp

lemma as_placed_left:
  assumes "map_ok bs"
  shows "filter (\<lambda>b. fst b \<notin> fst ` set (expiring bs)) (as_placed tm bs)
    = as_placed tm (map tick (filter (\<lambda>b. timer (snd b) \<noteq> 1) bs))"
proof -
  have same: "b = b'" if "b \<in> set bs" "b' \<in> set bs" "fst b = fst b'" for b b'
    using that map_ok_distinct [OF assms] by (metis eq_key_imp_eq_value prod.collapse)
  have "fst b \<notin> fst ` set (expiring bs) \<longleftrightarrow> timer (snd b) \<noteq> 1" if "b \<in> set bs" for b
    using that same [OF that] by (force simp: expiring_def)
  then have "filter (\<lambda>b. fst b \<notin> fst ` set (expiring bs)) bs = filter (\<lambda>b. timer (snd b) \<noteq> 1) bs"
    by (intro filter_cong) auto
  then show ?thesis by (simp add: as_placed_def tick_def filter_map comp_def)
qed

lemma begin_turn_shadows:
  assumes inv: "idle_inv e" and started: "gameplay_started e" and sh: "shadows g0 {} e g"
    and run: "begin_turn e = Inr e'"
  shows "\<exists>g'. shadows g0 (elems (current_players_to_destroy e')) e' g'"
proof -
  let ?bs = "expiring (bombs e)" and ?hit = "\<Union>b \<in> set (expiring (bombs e)). set (robots_hit e (snd b))"
  let ?t = "Turn_info (current_turn e + 1) (map (explosion_event e) ?bs)" and ?tm = "bomb_timer (game_params e)"
  have e: "map_ok (bombs e)" "current_players_to_destroy e = Leaf" "keys (players_positions e) = keys (players e)"
    using inv started by (simp_all add: idle_inv_def engine_inv_defs)
  note e' = begin_turn_eq [OF inv started, unfolded run, simplified]
  have g: "replay (turns e) g0 = Inr g" "map_ok (gi_scores g)" "map_ok (gi_player_positions g)"
      "gi_bomb_timer g = ?tm" "gi_bombs g = as_placed ?tm (bombs e)"
      "keys (gi_player_positions g) = keys (players_positions e)" "keys (players e) \<subseteq> keys (gi_scores g)"
      "\<And>p. map_of (gi_scores g) p = score_plus (explosions_hit p (turns e)) (map_of (gi_scores g0) p)"
    using sh by (simp_all add: shadows_def)
  have "set (robots_hit e (snd b)) \<subseteq> keys (players_positions e)" for b
    by (force simp: robots_hit_def set_robots_in keys_def)
  with g(7) e(3) have known: "\<forall>b \<in> set ?bs. set (robots_hit e (snd b)) \<subseteq> keys (gi_scores g)" by blast
  obtain g' where g': "for_each apply_event (map (explosion_event e) ?bs) (new_turn (current_turn e + 1) g) = Inr g'"
      "map_ok (gi_scores g')" "map_ok (gi_player_positions g')" "gi_bomb_timer g' = ?tm"
      "gi_bombs g' = filter (\<lambda>b. fst b \<notin> fst ` set ?bs) (gi_bombs g)"
      "keys (gi_player_positions g') = keys (players_positions e) - ?hit"
      "\<And>p. map_of (gi_scores g') p =
        score_plus (length (filter (\<lambda>ev. p \<in> hits ev) (map (explosion_event e) ?bs))) (map_of (gi_scores g) p)"
    using explosions_effect [of "new_turn (current_turn e + 1) g" ?bs e] g(2-4,6) known
    by (auto simp: new_turn_def)
  have "keys (gi_scores g') = keys (gi_scores g)" using g'(7) by (intro keys_score_plus allI) simp
  moreover have "replay (turns e') g0 = Inr g'"
    using g(1) g'(1) by (simp add: e' ticked_def replay_snoc apply_turn_def)
  moreover have "map_of (gi_scores g') p = score_plus (explosions_hit p (turns e')) (map_of (gi_scores g0) p)" for p
    by (simp add: g'(7) g(8) e' ticked_def explosions_hit_def)
  moreover have "elems (current_players_to_destroy e') = ?hit"
    by (simp add: e' ticked_def e(2) elems_fold_insert)
  moreover have "gi_bombs g' = as_placed ?tm (bombs e')"
    unfolding g'(5) g(5) as_placed_left [OF e(1)] by (simp add: e' ticked_def)
  ultimately have "shadows g0 (elems (current_players_to_destroy e')) e' g'"
    using g'(2-4,6) g(7) by (simp add: shadows_def e' ticked_def)
  then show ?thesis ..
qed

lemma respawn_shadows:
  assumes "shadows g0 D e g" and "length (turns e) = Suc (unat (current_turn e))" and "respawn p e = Inr e'"
  shows "\<exists>g'. shadows g0 (D - {p}) e' g'"
proof -
  obtain s where "seed_player p (e\<lparr>scores := map_assign p (s + 1) (scores e)\<rparr>) = Inr e'"
    using assms(3) by (auto simp: respawn_def)
  moreover have "shadows g0 D (e\<lparr>scores := map_assign p (s + 1) (scores e)\<rparr>) g"
    using assms(1) by (simp add: shadows_def)
  ultimately show ?thesis using assms(2) by (intro seed_player_shadows) simp_all
qed

text \<open>The server's scores: one for each turn in which the robot was hit, the last one at respawning.\<close>

definition tally_ok :: "player_id set \<Rightarrow> game_engine \<Rightarrow> bool" where
  "tally_ok D e \<longleftrightarrow> (\<forall>p s. map_of (scores e) p = Some s \<longrightarrow>
     s + (if p \<in> D then 1 else 0) = of_nat (turns_hit p (turns e)))"

lemma tally_quiet: "quiet_step e e' \<Longrightarrow> tally_ok D e' = tally_ok D e"
  by (simp add: quiet_step_def tally_ok_def)

lemma respawn_tally:
  assumes tally: "tally_ok D e" and len: "length (turns e) = Suc (unat (current_turn e))"
    and sorted: "map_ok (scores e)" and p: "p \<in> D" and run: "respawn p e = Inr e'"
  shows "tally_ok (D - {p}) e' \<and> map_ok (scores e') \<and> length (turns e') = Suc (unat (current_turn e'))"
proof -
  obtain s where s: "map_of (scores e) p = Some s"
      "seed_player p (e\<lparr>scores := map_assign p (s + 1) (scores e)\<rparr>) = Inr e'"
    using run by (auto simp: respawn_def)
  let ?e = "e\<lparr>scores := map_assign p (s + 1) (scores e)\<rparr>"
  have quiet: "quiet_step ?e e'" by (rule seed_player_quiet [OF _ s(2)]) (simp add: len)
  have at_p: "s + 1 = of_nat (turns_hit p (turns e))"
    using tally [unfolded tally_ok_def, rule_format, OF s(1)] p by simp
  have "tally_ok (D - {p}) ?e"
    unfolding tally_ok_def
  proof (intro allI impI)
    fix q v assume q: "map_of (scores ?e) q = Some v"
    show "v + (if q \<in> D - {p} then 1 else 0) = of_nat (turns_hit q (turns ?e))"
    proof (cases "q = p")
      case True
      with q sorted have "v = s + 1" by simp
      with True at_p show ?thesis by simp
    next
      case False
      with q sorted have "map_of (scores e) q = Some v" by simp
      with tally [unfolded tally_ok_def, rule_format, OF this] False show ?thesis by simp
    qed
  qed
  then have "tally_ok (D - {p}) e'" using tally_quiet [OF quiet] by simp
  with quiet sorted len show ?thesis by (simp add: quiet_step_def)
qed

lemma respawn_all:
  assumes "for_each respawn ps e = Inr e'" and "distinct ps" and "set ps \<subseteq> D"
    and "length (turns e) = Suc (unat (current_turn e))" and "map_ok (scores e)"
    and "tally_ok D e"
  shows "tally_ok (D - set ps) e' \<and> ((\<exists>g. shadows g0 D e g) \<longrightarrow> (\<exists>g. shadows g0 (D - set ps) e' g))"
  using assms
proof (induction ps arbitrary: e D)
  case (Cons p ps)
  then obtain e1 where e1: "respawn p e = Inr e1" "for_each respawn ps e1 = Inr e'" by auto
  have p: "p \<in> D" "distinct ps" "set ps \<subseteq> D - {p}" using Cons.prems(2,3) by auto
  note t = respawn_tally [OF Cons.prems(6,4,5) p(1) e1(1)]
  with Cons.IH [OF e1(2) p(2,3)] have "tally_ok (D - {p} - set ps) e' \<and>
      ((\<exists>g. shadows g0 (D - {p}) e1 g) \<longrightarrow> (\<exists>g. shadows g0 (D - {p} - set ps) e' g))"
    by blast
  moreover have "D - {p} - set ps = D - set (p # ps)" by auto
  ultimately show ?case using respawn_shadows [OF _ Cons.prems(4) e1(1)] by metis
qed simp

subsection \<open>Between two iterations\<close>

definition followed :: "game_info \<Rightarrow> game_engine \<Rightarrow> bool" where
  "followed g0 e \<longleftrightarrow> (gameplay_started e \<and> ready_for e g0 \<longrightarrow>
     (\<exists>g. shadows g0 (elems (current_players_to_destroy e)) e g))"

definition tallied :: "game_engine \<Rightarrow> bool" where
  "tallied e \<longleftrightarrow> tally_ok (elems (current_players_to_destroy e)) e"

text \<open>A message in the lobby: a join, or one that changes nothing.\<close>

lemma lobby_message:
  assumes inv: "engine_inv e" and lobby: "\<not> gameplay_started e"
    and run: "client_handle_msg indet m i e = Inr e'"
  shows "e' = e \<or> (\<exists>name. m = Join_msg name \<and> join_handle_msg name i e = Inr e')"
proof (cases "is_join m")
  case True
  with run show ?thesis by (cases m) auto
next
  case notjoin: False
  have "safe_message m i e"
    using client_handle_msg_unsafe [OF inv, of m i indet] run by auto
  with lobby notjoin have "i \<notin> keys (player_ids e)" by (simp add: safe_message_def)
  from lobby_action_ignored [OF this not_join [OF notjoin]] run show ?thesis by simp
qed

lemma join_follows:
  assumes inv: "engine_inv e" and lobby: "\<not> gameplay_started e" and run: "join_handle_msg name i e = Inr e'"
  shows "(tallied e \<longrightarrow> tallied e') \<and> followed g0 e'"
proof -
  obtain address where "get_address i (tcp_handler e) = Inr address"
    using run lobby by (auto simp: join_handle_msg_def Let_def)
  let ?p = "Player name address"
  let ?e1 = "e\<lparr>next_player_id := next_player_id e + 1, player_ids := map_assign i (next_player_id e) (player_ids e),
      players := map_insert (next_player_id e) ?p (players e),
      scores := map_insert (next_player_id e) 0 (scores e)\<rparr>"
  let ?e2 = "send_to_all (accepted_player_msg (next_player_id e) ?p) ?e1"
  have run2: "(if length (players ?e2) = unat (players_count (game_params ?e2)) then start_gameplay ?e2 else Inr ?e2)
      = Inr e'"
    using run lobby \<open>get_address i (tcp_handler e) = Inr address\<close> by (simp add: join_handle_msg_def Let_def)
  have l: "players_positions ?e2 = []" "turns ?e2 = []" "current_turn ?e2 = 0" "bombs ?e2 = []"
      "current_players_to_destroy ?e2 = Leaf" "\<not> gameplay_started ?e2"
    using inv lobby by (simp_all add: engine_inv_defs send_to_all_def)
  have zero: "v = 0" if "tallied e" "map_of (scores ?e2) p = Some v" for p v
  proof -
    have "map_ok (scores e)" "turns e = []" "current_players_to_destroy e = Leaf"
      using inv lobby by (simp_all add: engine_inv_defs)
    with that show ?thesis
      by (auto simp: tallied_def tally_ok_def turns_hit_def send_to_all_def split: if_splits)
  qed
  show ?thesis
  proof (cases "length (players ?e2) = unat (players_count (game_params ?e2))")
    case False
    with run2 have "e' = ?e2" by simp
    moreover have "tallied ?e2" if "tallied e"
      using zero [OF that] l(2,5) by (simp add: tallied_def tally_ok_def turns_hit_def)
    ultimately show ?thesis using l(6) by (simp add: followed_def)
  next
    case True
    with run2 have start: "start_gameplay ?e2 = Inr e'" by simp
    note s = start_gameplay_follows [OF l(1-4) start]
    have D: "elems (current_players_to_destroy e') = {}" using s [of g0] l(5) by simp
    have "tally_ok {} e'" if "tallied e"
      unfolding tally_ok_def using s zero [OF that] by simp
    moreover have "\<exists>g. shadows g0 {} e' g" if "ready_for e' g0"
      using that s [of g0] ready_for_cong [of e' ?e2] by simp
    ultimately show ?thesis unfolding tallied_def followed_def D by blast
  qed
qed

lemma turns_length:
  "engine_inv e \<Longrightarrow> gameplay_started e \<Longrightarrow> length (turns e) = Suc (unat (current_turn e))"
  by (simp add: engine_inv_defs turns_ok_length)

lemma action_follows:
  assumes inv: "engine_inv e" and run: "client_handle_msg indet m i e = Inr e'"
  shows "(tallied e \<longrightarrow> tallied e') \<and> (followed g0 e \<longrightarrow> followed g0 e')"
proof (cases "gameplay_started e")
  case False
  from lobby_message [OF inv False run] join_follows [OF inv False] show ?thesis by blast
next
  case started: True
  note len = turns_length [OF inv started]
  have set: "set_ok (current_players_to_destroy e)" using inv by (simp add: engine_inv_defs)
  note quiet = action_quiet [OF len started run]
  have frame: "current_players_to_destroy e' = current_players_to_destroy e" "gameplay_started e'"
      "ready_for e' = ready_for e"
    using quiet started ready_for_cong [of e' e] by (simp_all add: quiet_step_def)
  have "\<exists>g'. shadows g0 (elems (current_players_to_destroy e)) e' g'"
    if sh: "shadows g0 (elems (current_players_to_destroy e)) e g" for g
  proof (cases m)
    case (Join_msg name)
    with run started sh show ?thesis by (auto simp: join_handle_msg_def)
  qed (use run place_bomb_shadows [OF sh len] place_block_shadows [OF sh len] move_shadows [OF sh len set] in auto)
  then show ?thesis
    using started tally_quiet [OF quiet] by (auto simp: tallied_def followed_def frame)
qed

lemma begin_turn_tallied:
  assumes inv: "idle_inv e" and started: "gameplay_started e" and "tallied e" and run: "begin_turn e = Inr e'"
  shows "tallied e'"
proof -
  let ?bs = "expiring (bombs e)"
  have "current_players_to_destroy e = Leaf"
    using inv started by (simp add: idle_inv_def)
  with begin_turn_eq [OF inv started, unfolded run] have
      D: "elems (current_players_to_destroy e') = (\<Union>b \<in> set ?bs. set (robots_hit e (snd b)))"
    and e': "turns e' = turns e @ [Turn_info (current_turn e + 1) (map (explosion_event e) ?bs)]"
      "scores e' = scores e"
    by (simp_all add: ticked_def elems_fold_insert)
  have "turn_hits (Turn_info (current_turn e + 1) (map (explosion_event e) ?bs))
      = (\<Union>b \<in> set ?bs. set (robots_hit e (snd b)))"
    by (simp add: turn_hits_def explosion_event_def)
  then have hit: "turns_hit p (turns e') =
      turns_hit p (turns e) + (if p \<in> elems (current_players_to_destroy e') then 1 else 0)" for p
    by (simp add: e' turns_hit_def D)
  have "s = of_nat (turns_hit p (turns e))" if "map_of (scores e') p = Some s" for p s
    using that \<open>tallied e\<close> \<open>current_players_to_destroy e = Leaf\<close>
    by (simp add: tallied_def tally_ok_def e' elems_def)
  then show ?thesis
    unfolding tallied_def tally_ok_def hit by auto
qed

text \<open>
  The end of a turn in two steps: the respawning, which adds to the last turn of the log only, and the
  broadcast with the resets; the game may end after it.
\<close>

definition turn_closed :: "game_engine \<Rightarrow> game_engine" where
  "turn_closed e = (send_to_all (turn_info_to_bytes (last (turns e))) e)
     \<lparr>current_blocks_to_erase := [], current_players_to_destroy := Leaf\<rparr>"

lemma turn_closed_simps [simp, frame_simps]:
  "turns (turn_closed e) = turns e" "players (turn_closed e) = players e" "bombs (turn_closed e) = bombs e"
  "game_params (turn_closed e) = game_params e" "current_turn (turn_closed e) = current_turn e"
  "gameplay_started (turn_closed e) = gameplay_started e" "scores (turn_closed e) = scores e"
  "players_positions (turn_closed e) = players_positions e"
  "current_players_to_destroy (turn_closed e) = Leaf"
  "tcp_handler (turn_closed e) = send_message_to_all (turn_info_to_bytes (last (turns e))) (tcp_handler e)"
  by (simp_all add: turn_closed_def send_to_all_def)

lemma respawn_turns:
  assumes "for_each respawn ps e = Inr e'" and "length (turns e) = Suc (unat (current_turn e))"
  shows "butlast (turns e') = butlast (turns e) \<and> length (turns e') = length (turns e)
    \<and> length (events (last (turns e'))) = length (events (last (turns e))) + length ps"
  using assms
proof (induction ps arbitrary: e)
  case (Cons p ps)
  then obtain e1 where e1: "respawn p e = Inr e1" "for_each respawn ps e1 = Inr e'" by auto
  then obtain s where s: "seed_player p (e\<lparr>scores := map_assign p (s + 1) (scores e)\<rparr>) = Inr e1"
    by (auto simp: respawn_def)
  have quiet: "quiet_step (e\<lparr>scores := map_assign p (s + 1) (scores e)\<rparr>) e1"
    by (rule seed_player_quiet [OF _ s]) (simp add: Cons.prems(2))
  have "length (events (last (turns e1))) = Suc (length (events (last (turns e))))"
    using s Cons.prems(2) last_add_event [OF Cons.prems(2)]
    by (auto simp: seed_player_def add_turn_event_def split: if_splits)
  with quiet Cons.IH [OF e1(2)] Cons.prems(2) show ?case by (simp add: quiet_step_def)
qed simp

lemma turn_closes:
  assumes inv: "engine_inv e" and started: "gameplay_started e" and run: "summarise_turn e = Inr e'"
  obtains e1 where "for_each respawn (inorder (current_players_to_destroy e)) e = Inr e1"
    and "engine_inv e1" and "respawned e e1" and "butlast (turns e1) = butlast (turns e)"
    and "length (turns e1) = length (turns e)"
    and "e' = (if current_turn e = game_length (game_params e) then end_gameplay (turn_closed e1) else turn_closed e1)"
proof -
  let ?ps = "inorder (current_players_to_destroy e)"
  obtain e1 where e1: "for_each respawn ?ps e = Inr e1" "engine_inv e1" "respawned e e1"
    using respawn_all_ok [OF inv started] by blast
  note frame = respawned_frame [OF e1(3)]
  note turns = respawn_turns [OF e1(1) turns_length [OF inv started]]
  have "length (turns e1) = Suc (unat (current_turn e1))"
    using turns_length [OF e1(2)] started frame by simp
  then have "turn_at e1 (current_turn e1) = Inr (last (turns e1))"
    by (cases "turns e1 = []") (simp_all add: turn_at_def last_conv_nth)
  then have "e' = (if current_turn e = game_length (game_params e) then end_gameplay (turn_closed e1) else turn_closed e1)"
    using run e1(1) frame(1,7) by (auto simp: summarise_turn_def turn_closed_def Let_def send_to_all_def)
  with e1 turns that show ?thesis by blast
qed

lemma closed_follows:
  assumes inv: "engine_inv e" and started: "gameplay_started e" and tallied: "tallied e"
    and e1: "for_each respawn (inorder (current_players_to_destroy e)) e = Inr e1" "respawned e e1"
  shows "tallied (turn_closed e1)" and "followed g0 e \<Longrightarrow> followed g0 (turn_closed e1)"
proof -
  let ?D = "elems (current_players_to_destroy e)" and ?ps = "inorder (current_players_to_destroy e)"
  have set: "set_ok (current_players_to_destroy e)" "map_ok (scores e)"
    using inv by (simp_all add: engine_inv_defs)
  note frame = respawned_frame [OF e1(2)]
  have after: "tally_ok {} e1" "(\<exists>g. shadows g0 ?D e g) \<longrightarrow> (\<exists>g. shadows g0 {} e1 g)"
    using respawn_all [OF e1(1) inorder_distinct [OF set(1)], of ?D g0] turns_length [OF inv started] set(2) tallied
    by (simp_all add: elems_def tallied_def)
  show "tallied (turn_closed e1)" using after(1) by (simp add: tallied_def tally_ok_def elems_def)
  show "followed g0 (turn_closed e1)" if "followed g0 e"
    using that after(2) started frame ready_for_cong [of "turn_closed e1" e]
    by (auto simp: followed_def shadows_def elems_def)
qed

lemma ended_follows: "tallied (end_gameplay e) \<and> followed g0 (end_gameplay e)"
  by (simp add: end_gameplay_def tallied_def tally_ok_def followed_def send_to_all_def Let_def)

lemma summarise_follows:
  assumes inv: "engine_inv e" and started: "gameplay_started e" and run: "summarise_turn e = Inr e'"
    and "tallied e \<and> followed g0 e"
  shows "tallied e' \<and> followed g0 e'"
  by (rule turn_closes [OF inv started run])
    (use closed_follows [OF inv started] ended_follows assms(4) in auto)

lemma begin_turn_followed:
  assumes inv: "idle_inv e" and started: "gameplay_started e" and "followed g0 e" and run: "begin_turn e = Inr e'"
  shows "followed g0 e'"
proof -
  have "game_params e' = game_params e" "players e' = players e"
    using begin_turn_eq [OF inv started, unfolded run] by (simp_all add: ticked_def)
  then have "ready_for e' = ready_for e" by (rule ready_for_cong)
  moreover have "elems (current_players_to_destroy e) = {}"
    using inv started by (simp add: idle_inv_def elems_def)
  ultimately show ?thesis
    using begin_turn_shadows [OF inv started _ run] \<open>followed g0 e\<close> started by (auto simp: followed_def)
qed

lemma follows_handler:
  "tallied (e\<lparr>tcp_handler := h\<rparr>) \<longleftrightarrow> tallied e" "followed g0 (e\<lparr>tcp_handler := h\<rparr>) \<longleftrightarrow> followed g0 e"
  by (simp_all add: tallied_def tally_ok_def followed_def ready_for_def shadows_def)

interpretation game: loop_rule "\<lambda>e. tallied e \<and> followed g0 e" "\<lambda>n e. tallied e \<and> followed g0 e" "\<lambda>env. True" for g0
proof unfold_locales
  fix e env assume "engine_inv e" and "tallied e \<and> followed g0 e"
  then show "tallied (accept_new env e) \<and> followed g0 (accept_new env e)"
    using accept_new_frame [of e env] follows_handler by metis
next
  fix e e' assume "engine_inv e" and "gameplay_started e" and "tallied e \<and> followed g0 e" and "summarise_turn e = Inr e'"
  then show "tallied e' \<and> followed g0 e'" by (metis summarise_follows)
qed (simp_all add: follows_handler begin_turn_tallied begin_turn_followed action_follows)

lemma game_followed:
  "idle_inv e \<Longrightarrow> tallied e \<Longrightarrow> followed g0 e \<Longrightarrow> for_each loop_iteration envs e = Inr e' \<Longrightarrow>
     tallied e' \<and> followed g0 e'"
  by (rule game.run_keeps) (simp_all add: list_all_iff)

lemma new_game_followed: "tallied (new_game_engine params h) \<and> followed g0 (new_game_engine params h)"
  by (simp add: tallied_def tally_ok_def followed_def new_game_engine_def)

subsection \<open>The client's side\<close>

text \<open>The messages of a game: its start and its turns.\<close>

lemma client_replays:
  "replay ts (game c) = Inr g \<Longrightarrow>
     \<exists>c'. for_each (apply_message t True) (map Turn_message ts) c = Inr c' \<and> game c' = g"
proof (induction ts arbitrary: c)
  case (Cons ti ts)
  then obtain g1 where g1: "apply_turn ti (game c) = Inr g1" "replay ts g1 = Inr g"
    by (auto simp: replay_def)
  let ?c = "c\<lparr>game := g1, to_gui := to_gui c @ [game_message g1]\<rparr>"
  have "apply_message t True (Turn_message ti) c = Inr ?c"
    using g1(1) by (simp add: send_gui_message_def)
  moreover obtain c' where "for_each (apply_message t True) (map Turn_message ts) ?c = Inr c'" "game c' = g"
    using Cons.IH [of ?c] g1(2) by auto
  ultimately show ?case by (intro exI [of _ c']) (simp del: apply_message.simps)
qed (simp add: replay_def)

text \<open>A client in the lobby that knows the configuration and the players.\<close>

definition knows_lobby :: "game_engine \<Rightarrow> client \<Rightarrow> bool" where
  "knows_lobby e c \<longleftrightarrow> li_players (lobby c) = players e \<and> known_scores c = []
     \<and> li_bomb_timer (lobby c) = bomb_timer (game_params e)"

lemma missing_scores:
  assumes "map_ok ps" and "map_ok sc" and "\<forall>s \<in> snd ` set sc. s = 0"
  shows "map_ok (add_missing_scores ps sc) \<and> keys (add_missing_scores ps sc) = keys ps \<union> keys sc
    \<and> (\<forall>s \<in> snd ` set (add_missing_scores ps sc). s = 0)"
  using assms
proof (induction ps arbitrary: sc)
  case (Cons p ps)
  let ?sc = "if map_count sc (fst p) = 0 then map_insert (fst p) 0 sc else sc"
  have sc_eq: "?sc = (if fst p \<in> keys sc then sc else map_insert (fst p) 0 sc)"
    by (simp add: map_count_def map_of_None_iff)
  have sc: "map_ok ?sc" "\<forall>s \<in> snd ` set ?sc. s = 0" "keys ?sc = insert (fst p) (keys sc)"
  proof -
    show "map_ok ?sc" unfolding sc_eq using Cons.prems(2) by simp
    show "\<forall>s \<in> snd ` set ?sc. s = 0"
      unfolding sc_eq using Cons.prems(3) ball_map_insert [OF Cons.prems(3) refl, of "fst p"] by presburger
    show "keys ?sc = insert (fst p) (keys sc)" unfolding sc_eq by (simp add: insert_absorb)
  qed
  have step: "add_missing_scores (p # ps) sc = add_missing_scores ps ?sc"
    by (simp add: add_missing_scores_def)
  have "map_ok ps" using Cons.prems(1) by (cases p) simp
  from Cons.IH [OF this sc(1,2)] have "map_ok (add_missing_scores ps ?sc)"
      "keys (add_missing_scores ps ?sc) = keys (p # ps) \<union> keys sc"
      "\<forall>s \<in> snd ` set (add_missing_scores ps ?sc). s = 0"
    unfolding sc(3) by (cases p; simp)+
  then show ?case unfolding step by blast
qed (simp add: add_missing_scores_def)

lemma start_message:
  assumes "knows_lobby e c" and sorted: "map_ok (players e)"
  shows "\<exists>c'. apply_message t True (Started_message (players e)) c = Inr c' \<and> ready_for e (game c')
    \<and> (\<forall>p \<in> keys (players e). map_of (gi_scores (game c')) p = Some 0)
    \<and> lobby c' = lobby c \<and> known_scores c' = known_scores c \<and> \<not> is_lobby_status c'"
proof -
  obtain g where g: "new_game_info t (li_server_name (lobby c)) (li_size_x (lobby c))
         (li_size_y (lobby c)) (li_game_length (lobby c)) (players e)
         (bomb_timer (game_params e)) [] = Inr g" "gi_scores g = add_missing_scores (players e) []"
    by (simp add: new_game_info_def)
  note m = missing_scores [OF sorted, of "[]", simplified]
  have "ready_for e g"
    using new_game_info_fresh [OF g(1)] m by (simp add: ready_for_def g(2))
  moreover have "map_of (gi_scores g) p = Some 0" if "p \<in> keys (players e)" for p
  proof -
    from that m have "p \<in> keys (gi_scores g)" by (simp add: g(2))
    then obtain v where "map_of (gi_scores g) p = Some v" by (auto simp: in_keys_iff)
    with m g(2) map_of_in_values [OF this] show ?thesis by auto
  qed
  moreover have "apply_message t True (Started_message (players e)) c = Inr (c\<lparr>game := g, is_lobby_status := False\<rparr>)"
    using assms(1) g(1) by (simp add: knows_lobby_def)
  ultimately show ?thesis by auto
qed

text \<open>What the client has after the messages of the game so far, in a state between two iterations.\<close>

lemma client_after_turns:
  assumes idle: "idle_inv e" and started: "gameplay_started e" and "tallied e"
    and followed: "\<And>g0. followed g0 e" and "knows_lobby e c"
  shows "\<exists>c'. for_each (apply_message t True) (Started_message (players e) # map Turn_message (turns e)) c = Inr c'
    \<and> gi_bombs (game c') = as_placed (bomb_timer (game_params e)) (bombs e)
    \<and> keys (gi_player_positions (game c')) = keys (players_positions e)
    \<and> (\<forall>p \<in> keys (players e). map_of (scores e) p = Some (of_nat (turns_hit p (turns e)))
         \<and> map_of (gi_scores (game c')) p = Some (of_nat (explosions_hit p (turns e))))"
proof -
  have e: "map_ok (players e)" "keys (scores e) = keys (players e)" "elems (current_players_to_destroy e) = {}"
    using idle by (simp_all add: idle_inv_def engine_inv_defs elems_def split: if_splits)
  obtain c1 where c1: "apply_message t True (Started_message (players e)) c = Inr c1" "ready_for e (game c1)"
      "\<forall>p \<in> keys (players e). map_of (gi_scores (game c1)) p = Some 0"
    using start_message [OF assms(5) e(1)] by blast
  obtain g where g: "shadows (game c1) {} e g"
    using followed [of "game c1"] started c1(2) by (auto simp: followed_def e(3))
  obtain c2 where c2: "for_each (apply_message t True) (map Turn_message (turns e)) c1 = Inr c2" "game c2 = g"
    using client_replays [of "turns e" c1 g t] g by (auto simp: shadows_def)
  have run: "for_each (apply_message t True) (Started_message (players e) # map Turn_message (turns e)) c = Inr c2"
    using c1(1) c2(1) by (simp del: apply_message.simps)
  have server: "map_of (scores e) p = Some (of_nat (turns_hit p (turns e)))" if "p \<in> keys (players e)" for p
  proof -
    from that e(2) obtain s where "map_of (scores e) p = Some s" by (metis in_keys_iff)
    with \<open>tallied e\<close> show ?thesis by (auto simp: tallied_def tally_ok_def e(3))
  qed
  have client: "gi_bombs (game c2) = as_placed (bomb_timer (game_params e)) (bombs e)"
      "keys (gi_player_positions (game c2)) = keys (players_positions e) - {}"
      "\<And>p. map_of (gi_scores (game c2)) p = score_plus (explosions_hit p (turns e)) (map_of (gi_scores (game c1)) p)"
    using g c2(2) unfolding shadows_def by blast+
  have "map_of (gi_scores (game c2)) p = Some (of_nat (explosions_hit p (turns e)))" if "p \<in> keys (players e)" for p
    using c1(3) that by (simp add: client(3))
  with run server client(1) client(2) [unfolded Diff_empty] show ?thesis by blast
qed

end
