(* ===== verification/Wire.thy ===== *)
theory Wire
  imports Follow
begin

text \<open>
  What the server writes. Every message on the wire is one of the protocol, within the limits the format
  has: the counters of 32 bits never overflow, since the bombs of a game, the events of a turn and the
  hits of an explosion are bounded by what 25 clients can do in 65536 turns.
\<close>

unbundle bit_operations_syntax

subsection \<open>The greeting of a connection\<close>

definition greeting :: "game_engine \<Rightarrow> server_message list" where
  "greeting e = Hello_message (game_params e) #
     (if gameplay_started e then Started_message (players e) # map Turn_message (turns e)
      else map (\<lambda>(i, p). Accepted_message i p) (players e))"

lemma send_to_simps [simp]:
  "slot_fd (tcp_handler (send_to i msg e)) j = slot_fd (tcp_handler e) j"
  "game_params (send_to i msg e) = game_params e" "players (send_to i msg e) = players e"
  "turns (send_to i msg e) = turns e" "gameplay_started (send_to i msg e) = gameplay_started e"
  "wire (tcp_handler (send_to i msg e)) = wire (tcp_handler e) @ [(slot_fd (tcp_handler e) i, msg)]"
  "addresses (tcp_handler (send_to i msg e)) = addresses (tcp_handler e)"
  by (simp_all add: send_to_def)

lemma fold_send_to:
  "wire (tcp_handler (fold (\<lambda>x. send_to i (f x)) xs e)) =
     wire (tcp_handler e) @ map (\<lambda>x. (slot_fd (tcp_handler e) i, f x)) xs"
  "slot_fd (tcp_handler (fold (\<lambda>x. send_to i (f x)) xs e)) j = slot_fd (tcp_handler e) j"
  "addresses (tcp_handler (fold (\<lambda>x. send_to i (f x)) xs e)) = addresses (tcp_handler e)"
  by (induction xs arbitrary: e) simp_all

lemma greeting_sent:
  "wire (tcp_handler (send_hello_state i (send_hello i e))) =
     wire (tcp_handler e) @ map (\<lambda>m. (slot_fd (tcp_handler e) i, message_bytes m)) (greeting e)"
  "slot_fd (tcp_handler (send_hello_state i (send_hello i e))) j = slot_fd (tcp_handler e) j"
  "addresses (tcp_handler (send_hello_state i (send_hello i e))) = addresses (tcp_handler e)"
proof -
  have msg: "game_started_msg (send_to i (hello_msg (game_params e)) e) = message_bytes (Started_message (players e))"
    by (simp add: game_started_msg_def)
  have turn: "send_turn i = (\<lambda>t. send_to i (turn_info_to_bytes t))"
    by (intro ext) (simp add: send_turn_def)
  have accepted: "(\<lambda>player. send_accepted_player i (fst player) (snd player)) =
      (\<lambda>player. send_to i (accepted_player_msg (fst player) (snd player)))"
    by (intro ext) (simp add: send_accepted_player_def)
  show "wire (tcp_handler (send_hello_state i (send_hello i e))) =
     wire (tcp_handler e) @ map (\<lambda>m. (slot_fd (tcp_handler e) i, message_bytes m)) (greeting e)"
    unfolding send_hello_state_def send_hello_def send_all_turns_def send_all_accepted_player_def
      send_game_started_def turn accepted
    by (simp add: fold_send_to greeting_def msg case_prod_beta' comp_def)
  show "slot_fd (tcp_handler (send_hello_state i (send_hello i e))) j = slot_fd (tcp_handler e) j"
    "addresses (tcp_handler (send_hello_state i (send_hello i e))) = addresses (tcp_handler e)"
    unfolding send_hello_state_def send_hello_def send_all_turns_def send_all_accepted_player_def
      send_game_started_def turn accepted
    by (simp_all add: fold_send_to)
qed

text \<open>What accepting a connection does to the connections; \<open>None\<close> is a full table.\<close>

lemma accept_new_effect:
  assumes "length (poll_descriptors (tcp_handler e)) = conn_max" and "env_accept env = (d, ip, prt)"
  shows "(\<forall>j. slot_fd (tcp_handler (accept_new env e)) j =
        (if free_slot (tcp_handler e) = Some j then d else slot_fd (tcp_handler e) j))
    \<and> (\<exists>k. addresses (tcp_handler (accept_new env e)) = map_assign k (peer_address ip prt) (addresses (tcp_handler e)))
    \<and> wire (tcp_handler (accept_new env e)) = wire (tcp_handler e) @
        (if free_slot (tcp_handler e) = None then []
         else map (\<lambda>m. (slot_fd (tcp_handler (accept_new env e)) 1, message_bytes m)) (greeting e))"
proof -
  obtain pos h where acc: "accept_client d ip prt (tcp_handler e) = (pos, h)" by fastforce
  let ?e1 = "e\<lparr>tcp_handler := h\<rparr>"
  have new: "accept_new env e = (if 0 \<le> pos then send_hello_state 1 (send_hello 1 ?e1) else ?e1)"
    using acc assms(2) by (simp add: accept_new_def)
  have same: "greeting ?e1 = greeting e" by (simp add: greeting_def)
  have h: "wire h = wire (tcp_handler e)"
      "addresses h = map_assign (size_t_of_int pos) (peer_address ip prt) (addresses (tcp_handler e))"
      "0 \<le> pos \<longleftrightarrow> free_slot (tcp_handler e) \<noteq> None"
    using acc by (auto simp: accept_client_def close_fd_def split: option.splits)
  have fds: "slot_fd h j = (if free_slot (tcp_handler e) = Some j then d else slot_fd (tcp_handler e) j)" for j
  proof (cases "free_slot (tcp_handler e)")
    case None
    with acc show ?thesis by (auto simp: accept_client_def close_fd_def slot_fd_def)
  next
    case (Some i)
    then have "i < conn_max" by (simp add: free_slot_Some)
    moreover have "slot_fd h j = slot_fd (set_slot_fd i d (tcp_handler e)) j"
      using acc Some by (auto simp: accept_client_def slot_fd_def)
    ultimately show ?thesis using assms(1) Some by simp
  qed
  show ?thesis
    unfolding new using greeting_sent [of 1 ?e1] h fds same by auto
qed

subsection \<open>Lengths\<close>

lemma length_digits: "n < 10 ^ k \<Longrightarrow> 0 < k \<Longrightarrow> length (digits_of n) \<le> k"
proof (induction n arbitrary: k rule: digits_of.induct)
  case (1 n)
  show ?case
  proof (cases "n < 10")
    case True
    then show ?thesis using "1.prems"(2) by (simp add: digits_of.simps [of n])
  next
    case False
    with "1.prems" obtain k' where k: "k = Suc k'" "0 < k'" by (cases k; cases "k - 1") auto
    with "1.prems"(1) have "n div 10 < 10 ^ k'" by (simp add: less_mult_imp_div_less mult.commute)
    with "1.IH" [OF False this k(2)] k(1) False show ?thesis by (simp add: digits_of.simps [of n])
  qed
qed

text \<open>The text of an address of IPv4 or IPv6 has at most 45 characters.\<close>

lemma peer_address_ok: "length ip \<le> 45 \<Longrightarrow> str_ok (peer_address ip prt)"
  using length_digits [of "unat prt" 5] unat_bounds(2) [of prt]
  by (simp add: str_ok_def peer_address_def cstring_lit_def)

lemma length_blast_cells: "length (blast_cells e c n) \<le> 4 * n"
proof (induction n)
  case (Suc n)
  have "length (round_cells e c (Suc n)) \<le> 4"
    by (simp add: round_cells_def directions_def reached_def)
  with Suc show ?case by (simp add: blast_cells_Suc)
qed (simp add: blast_cells_def)

lemma length_struck_cells: "length (struck_cells e c) \<le> 262141"
  using length_blast_cells [of e c "unat (explosion_radius (game_params e))"]
    unat_bounds(2) [of "explosion_radius (game_params e)"]
  by (simp add: struck_cells_def)

lemma explosion_event_ok:
  assumes "map_ok (players_positions e)" and "check_position e (bomb_position (snd b))"
  shows "event_ok (explosion_event e b)"
proof -
  have "length (robots_hit e (snd b)) \<le> 256"
    using length_distinct_u8 distinct_robots_in [OF assms(1) distinct_struck_cells [OF assms(2)]]
    by (simp add: robots_hit_def)
  moreover have "length (blocks_hit e (snd b)) \<le> 262141"
    unfolding blocks_hit_def by (rule order_trans [OF length_filter_le length_struck_cells])
  ultimately show ?thesis by (simp add: explosion_event_def)
qed

subsection \<open>How the log grows\<close>

text \<open>
  A step that adds at most \<open>b\<close> bombs, and logs at most \<open>k\<close> events, none of them an explosion, at the end of
  the last turn.
\<close>

definition last_events :: "game_engine \<Rightarrow> event list" where
  "last_events e = events (last (turns e))"

definition no_explosion :: "event \<Rightarrow> bool" where
  "no_explosion ev \<longleftrightarrow> event_get_code ev \<noteq> Bomb_exploded"

lemma no_explosion_simps [simp]:
  "no_explosion (Bomb_placed_event i p)" "\<not> no_explosion (Bomb_exploded_event i rs bs)"
  "no_explosion (Player_moved_event j p)" "no_explosion (Block_placed_event p)"
  by (simp_all add: no_explosion_def)

lemma no_explosion_ok: "list_all no_explosion evs \<Longrightarrow> list_all event_ok evs"
proof -
  have "event_ok ev" if "no_explosion ev" for ev using that by (cases ev) simp_all
  then show "list_all no_explosion evs \<Longrightarrow> list_all event_ok evs" by (simp add: list_all_iff)
qed

definition grown :: "nat \<Rightarrow> nat \<Rightarrow> game_engine \<Rightarrow> game_engine \<Rightarrow> bool" where
  "grown b k e e' \<longleftrightarrow> length (turns e') = length (turns e) \<and> butlast (turns e') = butlast (turns e)
     \<and> turn (last (turns e')) = turn (last (turns e)) \<and> current_turn e' = current_turn e
     \<and> length (bombs e') \<le> length (bombs e) + b \<and> set (bombs e) \<subseteq> set (bombs e')
     \<and> (\<exists>evs. last_events e' = last_events e @ evs \<and> length evs \<le> k \<and> list_all no_explosion evs)"

lemma grown_refl [simp]: "grown b k e e"
  by (simp add: grown_def)

lemma grown_trans:
  assumes "grown b k e e1" and "grown c l e1 e2"
  shows "grown (b + c) (k + l) e e2"
proof -
  obtain xs ys where "last_events e1 = last_events e @ xs" "length xs \<le> k" "list_all no_explosion xs"
      "last_events e2 = last_events e1 @ ys" "length ys \<le> l" "list_all no_explosion ys"
    using assms unfolding grown_def by blast
  then have "\<exists>evs. last_events e2 = last_events e @ evs \<and> length evs \<le> k + l \<and> list_all no_explosion evs"
    by (intro exI [of _ "xs @ ys"]) simp
  with assms show ?thesis unfolding grown_def by auto
qed

lemma grown_events:
  assumes "grown b k e e'"
  shows "length (last_events e') \<le> length (last_events e) + k"
    and "list_all event_ok (last_events e) \<Longrightarrow> list_all event_ok (last_events e')"
  using assms no_explosion_ok by (auto simp: grown_def)

lemma grown_add_event:
  assumes "add_turn_event t ev e1 = Inr e'" and "length (turns e) = Suc (unat t)" and "no_explosion ev"
    and "turns e1 = turns e" "current_turn e1 = current_turn e" "length (bombs e1) \<le> length (bombs e) + b"
      "set (bombs e) \<subseteq> set (bombs e1)"
  shows "grown b (Suc 0) e e'"
  using assms butlast_add_event [OF assms(2)] last_add_event [OF assms(2), of ev]
  by (auto simp: add_turn_event_def grown_def last_events_def)

lemma seed_player_grown:
  assumes "length (turns e) = Suc (unat (current_turn e))" and "seed_player i e = Inr e'"
  shows "grown 0 (Suc 0) e e'"
proof -
  obtain pos r e1 where e1: "add_turn_event (current_turn e) (Player_moved_event i pos) (e\<lparr>random := r\<rparr>) = Inr e1"
      and e': "e' = e1\<lparr>players_positions := map_assign i pos (players_positions e1)\<rparr>"
    using assms(2) by (auto simp: seed_player_def)
  have "grown 0 (Suc 0) e e1" by (rule grown_add_event [OF e1 assms(1)]) simp_all
  then show ?thesis by (simp add: e' grown_def last_events_def)
qed

lemma seed_block_grown:
  assumes "length (turns e) = Suc (unat (current_turn e))" and "current_turn e = 0" and "seed_block e = Inr e'"
  shows "grown 0 (Suc 0) e e'"
proof -
  obtain pos r e1 where e1: "add_turn_event 0 (Block_placed_event pos) (e\<lparr>random := r\<rparr>) = Inr e1"
      and e': "e' = e1\<lparr>blocks_positions := pos_insert pos (blocks_positions e1)\<rparr>"
    using assms(3) by (auto simp: seed_block_def)
  have "grown 0 (Suc 0) e e1" by (rule grown_add_event [OF e1]) (use assms in simp_all)
  then show ?thesis by (simp add: e' grown_def last_events_def)
qed

lemma length_map_insert_le: "length (map_insert k v m) \<le> Suc (length m)"
proof -
  have "length (map_assign k v m) \<le> Suc (length m)" by (induction k v m rule: map_assign.induct) auto
  then show ?thesis by (simp add: map_insert_def)
qed

lemma subset_map_insert: "set m \<subseteq> set (map_insert k v m)"
proof -
  have "set m \<subseteq> set (map_assign k v m)" if "k \<notin> keys m"
    using that by (induction k v m rule: map_assign.induct) auto
  then show ?thesis by (auto simp: map_insert_def map_of_None_iff)
qed

lemma action_grown:
  assumes len: "length (turns e) = Suc (unat (current_turn e))" and started: "gameplay_started e"
    and run: "client_handle_msg indet m i e = Inr e'"
  shows "grown (Suc 0) (Suc 0) e e'"
proof (cases m)
  case (Join_msg name)
  with run started show ?thesis by (simp add: join_handle_msg_def)
next
  case Place_bomb_msg
  with run have run: "place_bomb_handle_msg i e = Inr e'" by simp
  show ?thesis
  proof (cases "acting_player i e")
    case None
    with run show ?thesis by (simp add: place_bomb_handle_msg_def)
  next
    case (Some p)
    with run obtain pos where add: "add_turn_event (current_turn e) (Bomb_placed_event (next_bomb_id e) pos)
        (e\<lparr>next_bomb_id := next_bomb_id e + 1, bombs := map_insert (next_bomb_id e)
            (Bomb pos (bomb_timer (game_params e))) (bombs e)\<rparr>) = Inr e'"
      by (auto simp: place_bomb_handle_msg_def Let_def)
    show ?thesis by (rule grown_add_event [OF add len]) (simp_all add: length_map_insert_le subset_map_insert)
  qed
next
  case Place_block_msg
  with run have "place_block_handle_msg i e = Inr e'" by simp
  then show ?thesis
    by (auto simp: place_block_handle_msg_def intro: grown_add_event [OF _ len] split: option.splits)
next
  case (Move_msg d)
  with run have "move_handle_msg indet d i e = Inr e'" by simp
  then show ?thesis
    by (auto simp: move_handle_msg_def Let_def intro: grown_add_event [OF _ len] split: option.splits if_splits)
qed

lemma for_each_grown:
  assumes "for_each f xs e = Inr e'" and "length (turns e) = Suc (unat (current_turn e))"
    and "\<And>x s s'. length (turns s) = Suc (unat (current_turn s)) \<Longrightarrow> current_turn s = current_turn e \<Longrightarrow>
      f x s = Inr s' \<Longrightarrow> grown 0 (Suc 0) s s'"
  shows "grown 0 (length xs) e e'"
  using assms
proof (induction xs arbitrary: e)
  case (Cons x xs)
  then obtain e1 where e1: "f x e = Inr e1" "for_each f xs e1 = Inr e'" by auto
  have g: "grown 0 (Suc 0) e e1" by (rule Cons.prems(3) [OF Cons.prems(2) refl e1(1)])
  then have same: "current_turn e1 = current_turn e" "length (turns e1) = length (turns e)"
    by (simp_all add: grown_def)
  have "grown 0 (length xs) e1 e'"
    by (rule Cons.IH [OF e1(2)]) (use Cons.prems(2,3) same in simp_all)
  with grown_trans [OF g this] show ?case by simp
qed simp

lemma respawn_grown:
  assumes "length (turns e) = Suc (unat (current_turn e))" and "respawn p e = Inr e'"
  shows "grown 0 (Suc 0) e e'"
proof -
  obtain s where s: "seed_player p (e\<lparr>scores := map_assign p (s + 1) (scores e)\<rparr>) = Inr e'"
    using assms(2) by (auto simp: respawn_def)
  have "grown 0 (Suc 0) (e\<lparr>scores := map_assign p (s + 1) (scores e)\<rparr>) e'"
    by (rule seed_player_grown [OF _ s]) (simp add: assms(1))
  then show ?thesis by (simp add: grown_def last_events_def)
qed

lemma start_gameplay_grown:
  assumes lobby: "turns e = []" "current_turn e = 0" "bombs e = []" and start: "start_gameplay e = Inr e'"
  shows "\<exists>e2. turns e2 = [new_turn_info 0] \<and> bombs e2 = [] \<and> current_turn e2 = 0
    \<and> grown 0 (length (players e) + unat (initial_blocks (game_params e))) e2 e'"
proof -
  let ?e1 = "e\<lparr>gameplay_started := True, turns := turns e @ [new_turn_info 0]\<rparr>"
  let ?e2 = "send_to_all (game_started_msg ?e1) ?e1"
  have e2: "turns ?e2 = [new_turn_info 0]" "current_turn ?e2 = 0" "bombs ?e2 = []" "players ?e2 = players e"
      "game_params ?e2 = game_params e"
    using lobby by (simp_all add: send_to_all_def)
  obtain e3 where e3: "seed_players ?e2 = Inr e3" "seed_blocks e3 = Inr e'"
    using start by (auto simp: start_gameplay_def Let_def)
  have g1: "grown 0 (length (players e)) ?e2 e3"
    using for_each_grown [OF e3(1) [unfolded seed_players_def]] e2(1,2,4) seed_player_grown by simp
  have seeded_params: "game_params e3 = game_params e"
    using e3(1) [unfolded seed_players_def] e2(5)
    by (rule for_each_invariant [where P = "\<lambda>s. game_params s = game_params e"])
      (auto simp: seed_player_def add_turn_event_def split: if_splits)
  have g2: "grown 0 (unat (initial_blocks (game_params e))) e3 e'"
  proof -
    have "grown 0 (length [0..<unat (initial_blocks (game_params e3))]) e3 e'"
      by (rule for_each_grown [OF e3(2) [unfolded seed_blocks_def]])
        (use g1 e2(1,2) in \<open>simp_all add: grown_def [of 0 "length (players e)"] seed_block_grown\<close>)
    then show ?thesis by (simp add: seeded_params)
  qed
  from grown_trans [OF g1 g2] have "grown 0 (length (players e) + unat (initial_blocks (game_params e))) ?e2 e'"
    by simp
  with e2(1-3) show ?thesis by blast
qed

subsection \<open>Well-formed traffic\<close>

definition speaks :: "server_tcp_handler \<Rightarrow> bool" where
  "speaks h \<longleftrightarrow> (\<forall>(d, bytes) \<in> set (wire h). \<exists>m. message_ok m \<and> bytes = message_bytes m)"

text \<open>The strings the server has to send fit their length byte.\<close>

definition named :: "game_engine \<Rightarrow> bool" where
  "named e \<longleftrightarrow> str_ok (server_name (game_params e))
     \<and> list_all (value_ok str_ok) (addresses (tcp_handler e)) \<and> list_all (value_ok player_ok) (players e)"

definition turn_fits :: "turn_info \<Rightarrow> bool" where
  "turn_fits t \<longleftrightarrow> list_all event_ok (events t) \<and> length (events t) \<le> 2000000"

text \<open>25 messages an iteration, one bomb each; all bombs may explode in one turn.\<close>

definition bounded :: "nat \<Rightarrow> game_engine \<Rightarrow> bool" where
  "bounded n e \<longleftrightarrow> length (bombs e) \<le> 25 * unat (current_turn e) + n \<and> list_all turn_fits (butlast (turns e))
     \<and> list_all event_ok (last_events e) \<and> length (last_events e) \<le> 1700000 + n"

definition proper :: "game_engine \<Rightarrow> bool" where
  "proper e \<longleftrightarrow> named e \<and> speaks (tcp_handler e) \<and> (gameplay_started e \<longrightarrow>
     length (bombs e) \<le> 25 * unat (current_turn e) + 25 \<and> list_all turn_fits (turns e))"

definition proper_busy :: "nat \<Rightarrow> game_engine \<Rightarrow> bool" where
  "proper_busy n e \<longleftrightarrow> named e \<and> speaks (tcp_handler e) \<and> (gameplay_started e \<longrightarrow> bounded n e)"

definition named_env :: "loop_env \<Rightarrow> bool" where
  "named_env env \<longleftrightarrow> length (fst (snd (env_accept env))) \<le> 45"

lemma turn_fits_ok: "turn_fits t \<Longrightarrow> message_ok (Turn_message t)"
  by (simp add: turn_fits_def)

lemma speaks_append:
  assumes "speaks h" and "wire h' = wire h @ map (\<lambda>x. (f x, message_bytes (g x))) xs"
    and "\<And>x. x \<in> set xs \<Longrightarrow> message_ok (g x)"
  shows "speaks h'"
  using assms by (fastforce simp: speaks_def)

lemma speaks_broadcast:
  "speaks h \<Longrightarrow> message_ok m \<Longrightarrow> speaks (send_message_to_all (message_bytes m) h)"
  by (rule speaks_append) (simp_all add: send_message_to_all_wire)

lemma set_assign_ok:
  "list_all (value_ok P) m \<Longrightarrow> P v \<Longrightarrow> list_all (value_ok P) (map_assign k v m)"
  "list_all (value_ok P) m \<Longrightarrow> P v \<Longrightarrow> list_all (value_ok P) (map_insert k v m)"
  using set_map_assign [of k v m] set_map_insert [of k v m] by (auto simp: list_all_iff value_ok_def)

lemma few_players: "engine_inv e \<Longrightarrow> length (players e) < 256"
  using unat_bounds(1) [of "players_count (game_params e)"] by (auto simp: engine_inv_defs split: if_splits)

lemma few_scores: "engine_inv e \<Longrightarrow> length (scores e) < 256"
  using few_players [of e] length_keys [of "scores e"] length_keys [of "players e"]
  unfolding engine_inv_def tables_ok_def by force

lemma greeting_ok:
  assumes inv: "engine_inv e" and named: "named e"
    and turns: "gameplay_started e \<Longrightarrow> list_all turn_fits (turns e)" and m: "m \<in> set (greeting e)"
  shows "message_ok m"
proof -
  have ps: "map_ok (players e)" "length (players e) < 4294967296"
    using inv few_players [OF inv] by (simp_all add: engine_inv_defs)
  from m show ?thesis
    using named turns ps turn_fits_ok
    by (auto simp: greeting_def named_def list_all_iff value_ok_def split: if_splits)
qed

lemma accepted_ok:
  assumes "named e" and "str_ok name" and "map_of (addresses (tcp_handler e)) i = Some address"
  shows "message_ok (Accepted_message p (Player name address))"
  using assms by (auto simp: named_def list_all_iff value_ok_def player_ok_def dest!: map_of_SomeD)

lemma started_ok: "engine_inv e \<Longrightarrow> named e \<Longrightarrow> message_ok (Started_message (players e))"
  by (frule few_players) (simp add: named_def engine_inv_def tables_ok_def)

lemma ended_ok: "engine_inv e \<Longrightarrow> message_ok (Ended_message (scores e))"
  by (frule few_scores) (simp add: engine_inv_def tables_ok_def)

lemma joined_handler:
  "tcp_handler (joined name address i e) =
     send_message_to_all (message_bytes (Accepted_message (next_player_id e) (Player name address))) (tcp_handler e)"
  by (simp add: joined_def send_to_all_def)

lemma joined_named:
  assumes "named e" and "str_ok name" and "map_of (addresses (tcp_handler e)) i = Some address"
  shows "named (joined name address i e)"
  using assms(1) accepted_ok [OF assms] set_assign_ok(2) [of player_ok "players e"]
  by (simp add: named_def joined_handler send_message_to_all_wire)

lemma joined_speaks:
  assumes "named e" and "str_ok name" and "map_of (addresses (tcp_handler e)) i = Some address"
    and "speaks (tcp_handler e)"
  shows "speaks (tcp_handler (joined name address i e))"
  unfolding joined_handler by (rule speaks_broadcast [OF assms(4) accepted_ok [OF assms(1-3)]])

text \<open>The start of a game.\<close>

lemma start_proper:
  assumes tables: "tables_ok e" and lobby: "players_positions e = []" "turns e = []" "current_turn e = 0" "bombs e = []"
      "blocks_positions e = Leaf" "length (players e) = unat (players_count (game_params e))"
    and "named e" and "speaks (tcp_handler e)" and start: "start_gameplay e = Inr e'"
  shows "proper_busy 0 e'"
proof -
  have e': "engine_inv e'" "players e' = players e" "game_params e' = game_params e"
      "tcp_handler e' = send_message_to_all (message_bytes (Started_message (players e))) (tcp_handler e)"
    using start_gameplay_ok [OF tables lobby] start by (auto simp: game_started_msg_def)
  have named: "named e'" using \<open>named e\<close> e' by (simp add: named_def send_message_to_all_wire)
  from started_ok [OF e'(1) this] have "speaks (tcp_handler e')"
    unfolding e'(2,4) using assms(9) by (rule speaks_broadcast [rotated])
  moreover note named
  moreover obtain e2 where e2: "turns e2 = [new_turn_info 0]" "bombs e2 = []" "current_turn e2 = 0"
      "grown 0 (length (players e) + unat (initial_blocks (game_params e))) e2 e'"
    using start_gameplay_grown [OF lobby(2,3,4) start] by blast
  have small: "length (players e) < 256" "unat (initial_blocks (game_params e)) < 65536"
    using few_players [OF e'(1)] e'(2) unat_bounds(2) [of "initial_blocks (game_params e)"] by simp_all
  have "length (bombs e') = 0" "butlast (turns e') = []" "list_all event_ok (last_events e')"
      "length (last_events e') \<le> 1700000"
    using e2 small by (auto simp: grown_def last_events_def dest: no_explosion_ok)
  then have "bounded 0 e'" by (simp add: bounded_def)
  ultimately show ?thesis by (simp add: proper_busy_def)
qed

lemma proper_handler:
  assumes "addresses h = addresses (tcp_handler e)" and "wire h = wire (tcp_handler e)"
  shows "proper (e\<lparr>tcp_handler := h\<rparr>) \<longleftrightarrow> proper e" "proper_busy n (e\<lparr>tcp_handler := h\<rparr>) \<longleftrightarrow> proper_busy n e"
  using assms by (simp_all add: proper_def proper_busy_def named_def speaks_def bounded_def last_events_def)

lemma begin_proper:
  assumes inv: "idle_inv e" and started: "gameplay_started e" and "proper e" and run: "begin_turn e = Inr e'"
  shows "proper_busy 0 e'"
proof -
  let ?bs = "expiring (bombs e)"
  note eq = begin_turn_eq [OF inv started, unfolded run, simplified]
  have e: "map_ok (players_positions e)" "\<forall>b \<in> snd ` set (bombs e). check_position e (bomb_position b)"
      "current_turn e < game_length (game_params e)"
    using inv started by (simp_all add: idle_inv_def engine_inv_defs)
  have p: "named e" "speaks (tcp_handler e)" "length (bombs e) \<le> 25 * unat (current_turn e) + 25"
      "list_all turn_fits (turns e)"
    using assms(3) started by (simp_all add: proper_def)
  have "current_turn e \<noteq> -1"
    using e(3) word_n1_ge [of "game_length (game_params e)"] by (auto simp: not_less [symmetric])
  then have ct: "unat (current_turn e + 1) = Suc (unat (current_turn e))" and small: "unat (current_turn e) < 65535"
    by (simp_all add: unat_u16_max unat_word_ariths)
  have "length (bombs e') \<le> length (bombs e)" by (simp add: eq)
  moreover have "25 * unat (current_turn e') = 25 * unat (current_turn e) + 25" by (simp add: eq ticked_def ct)
  ultimately have "length (bombs e') \<le> 25 * unat (current_turn e')" using p(3) by linarith
  moreover have "length (last_events e') \<le> length (bombs e)"
    by (simp add: eq ticked_def last_events_def expiring_def)
  with p(3) small have "length (last_events e') \<le> 1700000" by simp
  moreover have "list_all event_ok (last_events e')"
    using explosion_event_ok [OF e(1)] e(2)
    by (auto simp: eq ticked_def last_events_def expiring_def list_all_iff)
  ultimately have "bounded 0 e'" using p(4) by (simp add: bounded_def eq ticked_def)
  moreover have "named e'" "speaks (tcp_handler e')" using p(1,2) by (simp_all add: eq ticked_def named_def)
  ultimately show ?thesis by (simp add: proper_busy_def)
qed

lemma accept_proper:
  assumes inv: "engine_inv e" and "named_env env" and busy: "proper_busy 0 e"
  shows "proper_busy 0 (accept_new env e)"
proof -
  obtain d ip prt where env: "env_accept env = (d, ip, prt)" by (cases "env_accept env")
  have len: "length (poll_descriptors (tcp_handler e)) = conn_max"
    using inv by (simp add: engine_inv_defs handler_ok_def)
  obtain h where h: "accept_new env e = e\<lparr>tcp_handler := h\<rparr>" using accept_new_frame [OF inv] by blast
  note eff = accept_new_effect [OF len env, unfolded h, simplified]
  have b: "named e" "speaks (tcp_handler e)" "gameplay_started e \<Longrightarrow> bounded 0 e"
    using busy by (simp_all add: proper_busy_def)
  have "message_ok m" if "m \<in> set (greeting e)" for m
  proof (rule greeting_ok [OF inv b(1) _ that])
    assume "gameplay_started e"
    with b(3) have bd: "bounded 0 e" by simp
    have "turns e = butlast (turns e) @ [last (turns e)]"
      using turns_length [OF inv \<open>gameplay_started e\<close>] by (intro append_butlast_last_id [symmetric]) auto
    moreover have "list_all turn_fits (butlast (turns e) @ [last (turns e)])"
      using bd by (simp add: bounded_def turn_fits_def last_events_def)
    ultimately show "list_all turn_fits (turns e)" by metis
  qed
  moreover from eff have "wire h = wire (tcp_handler e) @
      map (\<lambda>m. (slot_fd h 1, message_bytes m)) (if free_slot (tcp_handler e) = None then [] else greeting e)"
    by auto
  ultimately have "speaks h" by (intro speaks_append [OF b(2)]) (auto split: if_splits)
  moreover have "str_ok (peer_address ip prt)"
    using \<open>named_env env\<close> env by (intro peer_address_ok) (simp add: named_env_def)
  with eff b(1) have "named (e\<lparr>tcp_handler := h\<rparr>)"
    using set_assign_ok(1) [of str_ok "addresses (tcp_handler e)"] by (auto simp: named_def)
  ultimately show ?thesis
    using b(3) by (simp add: proper_busy_def h bounded_def last_events_def)
qed

lemma act_proper:
  assumes inv: "engine_inv e" and busy: "proper_busy n e" and fits: "message_fits m"
    and run: "client_handle_msg indet m i e = Inr e'"
  shows "proper_busy (Suc n) e'"
proof (cases "gameplay_started e")
  case True
  note len = turns_length [OF inv True]
  have q: "quiet_step e e'" and g: "grown (Suc 0) (Suc 0) e e'"
    using action_quiet [OF len True run] action_grown [OF len True run] by simp_all
  have "bounded n e" using busy True by (simp add: proper_busy_def)
  then have "bounded (Suc n) e'" using g by (auto simp: bounded_def grown_def dest: no_explosion_ok)
  with busy q show ?thesis by (simp add: proper_busy_def named_def quiet_step_def)
next
  case False
  have b: "named e" "speaks (tcp_handler e)" using busy by (simp_all add: proper_busy_def)
  from lobby_message [OF inv False run] show ?thesis
  proof (elim disjE exE conjE)
    assume "e' = e"
    with b False show ?thesis by (simp add: proper_busy_def)
  next
    fix name assume m: "m = Join_msg name" and join: "join_handle_msg name i e = Inr e'"
    then obtain address where address: "map_of (addresses (tcp_handler e)) i = Some address"
      using False by (auto simp: join_handle_msg_def get_address_def Let_def)
    let ?e1 = "joined name address i e"
    have j: "named ?e1" "speaks (tcp_handler ?e1)"
      using joined_named [OF b(1) _ address] joined_speaks [OF b(1) _ address b(2)] fits m by simp_all
    have l: "players_positions ?e1 = []" "turns ?e1 = []" "current_turn ?e1 = 0" "bombs ?e1 = []"
        "blocks_positions ?e1 = Leaf"
      using inv False by (simp_all add: engine_inv_def lobby_ok_def)
    note run1 = join_handle_msg_lobby [OF False address, of name, unfolded join]
    show ?thesis
    proof (cases "length (players ?e1) = unat (players_count (game_params e))")
      case True
      with run1 have "start_gameplay ?e1 = Inr e'" by simp
      from start_proper [OF joined_tables [OF inv] l _ j this] True have "proper_busy 0 e'" by simp
      then show ?thesis by (auto simp: proper_busy_def bounded_def)
    next
      case False
      with run1 have "e' = ?e1" by simp
      with j \<open>\<not> gameplay_started e\<close> show ?thesis by (simp add: proper_busy_def)
    qed
  qed
qed

lemma closing_fits:
  assumes inv: "engine_inv e" and started: "gameplay_started e" and "bounded n e" and n: "n < conn_max"
    and run: "for_each respawn (inorder (current_players_to_destroy e)) e = Inr e1"
  shows "turn_fits (last (turns e1))" and "length (bombs e1) \<le> 25 * unat (current_turn e1) + 25"
proof -
  let ?ps = "inorder (current_players_to_destroy e)"
  have g: "grown 0 (length ?ps) e e1"
    using for_each_grown [OF run turns_length [OF inv started]] respawn_grown by blast
  have "length ?ps \<le> 256"
    using inv by (intro length_distinct_u8 inorder_distinct) (simp add: engine_inv_defs)
  with g assms(3) n show "turn_fits (last (turns e1))" "length (bombs e1) \<le> 25 * unat (current_turn e1) + 25"
    using grown_events [OF g] by (auto simp: turn_fits_def grown_def bounded_def last_events_def conn_max_def)
qed

lemma summarise_proper:
  assumes inv: "engine_inv e" and started: "gameplay_started e" and busy: "proper_busy n e" and n: "n < conn_max"
    and run: "summarise_turn e = Inr e'"
  shows "proper e'"
proof -
  let ?ps = "inorder (current_players_to_destroy e)"
  obtain e1 where e1: "for_each respawn ?ps e = Inr e1" "engine_inv e1" "respawned e e1"
      "butlast (turns e1) = butlast (turns e)" "length (turns e1) = length (turns e)"
      "e' = (if current_turn e = game_length (game_params e) then end_gameplay (turn_closed e1) else turn_closed e1)"
    by (rule turn_closes [OF inv started run])
  note frame = respawned_frame [OF e1(3)]
  have b: "named e" "speaks (tcp_handler e)" "bounded n e" using busy started by (simp_all add: proper_busy_def)
  note fit = closing_fits [OF inv started b(3) n e1(1)]
  have "turns e1 = butlast (turns e1) @ [last (turns e1)]"
    using turns_length [OF inv started] e1(5) by (intro append_butlast_last_id [symmetric]) auto
  moreover have "list_all turn_fits (butlast (turns e1) @ [last (turns e1)])"
    using fit(1) b(3) by (simp add: bounded_def e1(4))
  ultimately have fits: "list_all turn_fits (turns e1)" by metis
  have "speaks (tcp_handler (turn_closed e1))"
    using speaks_broadcast [OF b(2) turn_fits_ok [OF fit(1)]] by (simp add: frame)
  moreover have "named (turn_closed e1)" using b(1) by (simp add: named_def frame send_message_to_all_wire)
  ultimately have closed: "proper (turn_closed e1)" using fits fit(2) by (simp add: proper_def)
  from ended_ok [OF e1(2)] have "speaks (send_message_to_all (message_bytes (Ended_message (scores e1))) (tcp_handler (turn_closed e1)))"
    using closed by (intro speaks_broadcast) (simp_all add: proper_def)
  then have "proper (end_gameplay (turn_closed e1))"
    using closed
    by (simp add: proper_def named_def end_gameplay_def send_to_all_def Let_def game_ended_msg_def send_message_to_all_wire)
  with closed e1(6) show ?thesis by simp
qed

interpretation protocol: loop_rule proper proper_busy named_env
proof unfold_locales
  fix e h assume "proper e" "same_traffic (tcp_handler e) h"
  then show "proper (e\<lparr>tcp_handler := h\<rparr>)" by (simp add: same_traffic_def proper_handler)
next
  fix n e h assume "proper_busy n e" "same_traffic (tcp_handler e) h"
  then show "proper_busy n (e\<lparr>tcp_handler := h\<rparr>)" by (simp add: same_traffic_def proper_handler)
next
  fix e n and env :: loop_env and i status
  assume "proper_busy n e" and "i < conn_max"
  then show "proper_busy n (e\<lparr>tcp_handler := report_msg_status status i (tcp_handler e)\<rparr>)"
    by (simp add: proper_handler report_msg_status_def close_fd_def)
next
  fix e n assume "\<not> gameplay_started e" "proper_busy n e"
  then show "proper e" by (simp add: proper_def proper_busy_def)
next
  fix e assume "\<not> gameplay_started e" "proper e"
  then show "proper_busy 0 e" by (simp add: proper_def proper_busy_def)
qed (use begin_proper accept_proper act_proper summarise_proper in blast)+

text \<open>A server that is about to start: a usable configuration and a handler with no traffic yet.\<close>

definition proper_start :: "server_parameters \<Rightarrow> server_tcp_handler \<Rightarrow> bool" where
  "proper_start params h \<longleftrightarrow> config_ok params \<and> str_ok (server_name params) \<and> handler_ok h \<and> wire h = []
     \<and> list_all (value_ok str_ok) (addresses h)"

lemma proper_run:
  assumes "proper_start params h" and "list_all named_env envs"
    and "for_each loop_iteration envs (new_game_engine params h) = Inr e"
  shows "proper e" "idle_inv e" "tallied e" "followed g0 e"
proof -
  let ?e = "new_game_engine params h"
  have idle: "idle_inv ?e"
    using assms(1) engine_inv_new [of params h] by (simp add: proper_start_def idle_inv_def new_game_engine_def)
  have "proper ?e"
    using assms(1) by (simp add: proper_start_def proper_def named_def speaks_def new_game_engine_def)
  from protocol.run_keeps [OF idle this assms(2,3)] show "proper e" .
  show "idle_inv e" by (rule server.run_keeps [OF idle assms(3)])
  show "tallied e" "followed g0 e"
    using game_followed [OF idle _ _ assms(3)] new_game_followed by blast+
qed

end
