(* ===== verification/In_Step.thy ===== *)
theory In_Step
  imports Wire
begin

text \<open>
  A client and the server over any stretch of the server's loop, through the starts and ends of games. A
  client that sits in a slot of its own, sends nothing malformed, and is not greeted twice, is sent messages
  that keep it in step with the server: it knows the players in the lobby, and in a game its picture is
  the log of the server replayed.
\<close>

unbundle bit_operations_syntax

subsection \<open>What reaches a client\<close>

text \<open>The bytes sent to a descriptor, one element for each \<open>send\<close>.\<close>

definition inbox :: "int \<Rightarrow> server_tcp_handler \<Rightarrow> byte list list" where
  "inbox d h = map snd (filter (\<lambda>(d', bytes). d' = d) (wire h))"

text \<open>The slot of a client: no other slot has its descriptor.\<close>

definition attached :: "nat \<Rightarrow> int \<Rightarrow> server_tcp_handler \<Rightarrow> bool" where
  "attached i d h \<longleftrightarrow> 0 < i \<and> i < conn_max \<and> d \<noteq> -1
     \<and> (\<forall>j. 0 < j \<and> j < conn_max \<longrightarrow> (slot_fd h j = d \<longleftrightarrow> j = i))"

lemma same_traffic_inbox: "same_traffic h h' \<Longrightarrow> inbox d h' = inbox d h \<and> attached i d h' = attached i d h"
  by (simp add: same_traffic_def inbox_def attached_def)

lemma attached_send_all [simp]: "attached i d (send_message_to_all msg h) = attached i d h"
  by (simp add: attached_def send_message_to_all_wire slot_fd_def)

lemma inbox_send_all:
  assumes "attached i d h"
  shows "inbox d (send_message_to_all msg h) = inbox d h @ [msg]"
proof -
  have "filter (\<lambda>j. slot_fd h j = d) (connected h) = filter (\<lambda>j. j = i) [1..<conn_max]"
  proof -
    have "slot_fd h j \<noteq> -1 \<and> slot_fd h j = d \<longleftrightarrow> j = i" if "j \<in> set [1..<conn_max]" for j
    proof -
      have "slot_fd h j = d \<longleftrightarrow> j = i" "d \<noteq> -1" using assms that by (simp_all add: attached_def)
      then show ?thesis by auto
    qed
    then show ?thesis unfolding connected_def filter_filter by (intro filter_cong) auto
  qed
  also have "\<dots> = [i]"
  proof -
    have "[1..<conn_max] = [1..<i] @ i # [Suc i..<conn_max]"
      using assms upt_add_eq_append [of 1 i "conn_max - i"] upt_conv_Cons [of i conn_max]
      by (simp add: attached_def)
    moreover have "filter (\<lambda>j. j = i) [1..<i] = []" "filter (\<lambda>j. j = i) [Suc i..<conn_max] = []"
      by (auto simp: filter_empty_conv)
    ultimately show ?thesis by simp
  qed
  finally have "map (\<lambda>j. msg) (filter (\<lambda>j. slot_fd h j = d) (connected h)) = [msg]" by simp
  then show ?thesis by (simp add: inbox_def send_message_to_all_wire filter_map comp_def)
qed

text \<open>
  \<open>c\<close> is the client that was \<open>c0\<close> when its inbox held \<open>seen\<close>, and has executed what it was sent since.
\<close>

definition caught_up :: "u16 \<Rightarrow> int \<Rightarrow> byte list list \<Rightarrow> client \<Rightarrow> server_tcp_handler \<Rightarrow> client \<Rightarrow> bool" where
  "caught_up t d seen c0 h c \<longleftrightarrow> (\<exists>ms. inbox d h = seen @ map message_bytes ms \<and> list_all message_ok ms
     \<and> for_each (apply_message t True) ms c0 = Inr c)"

lemma caught_up_start: "caught_up t d (inbox d h) c h c"
  unfolding caught_up_def by (intro exI [of _ "[]"]) simp

lemma caught_up_broadcast:
  assumes "caught_up t d seen c0 h c" and "attached i d h" and "message_ok m" and "apply_message t True m c = Inr c'"
  shows "caught_up t d seen c0 (send_message_to_all (message_bytes m) h) c'"
proof -
  obtain ms where ms: "inbox d h = seen @ map message_bytes ms" "list_all message_ok ms"
      "for_each (apply_message t True) ms c0 = Inr c"
    using assms(1) by (auto simp: caught_up_def)
  then show ?thesis
    unfolding caught_up_def using inbox_send_all [OF assms(2)] assms(3,4)
    by (intro exI [of _ "ms @ [m]"]) (simp add: for_each_append del: apply_message.simps)
qed

lemma caught_up_same: "inbox d h' = inbox d h \<Longrightarrow> caught_up t d seen c0 h' c = caught_up t d seen c0 h c"
  by (simp add: caught_up_def)

subsection \<open>In step\<close>

text \<open>\<open>ts\<close> is the part of the log that has been sent.\<close>

definition in_step :: "turn_info list \<Rightarrow> game_engine \<Rightarrow> client \<Rightarrow> bool" where
  "in_step ts e c \<longleftrightarrow> knows_lobby e c \<and> (is_lobby_status c \<longleftrightarrow> \<not> gameplay_started e)
     \<and> (gameplay_started e \<longrightarrow> (\<exists>g0. ready_for e g0 \<and> (\<forall>p \<in> keys (players e). map_of (gi_scores g0) p = Some 0)
          \<and> replay ts g0 = Inr (game c)))"

lemma in_step_cong:
  "game_params e' = game_params e \<Longrightarrow> players e' = players e \<Longrightarrow> gameplay_started e' = gameplay_started e \<Longrightarrow>
     in_step ts e' c = in_step ts e c"
  by (simp add: in_step_def knows_lobby_def ready_for_def)

text \<open>What this says of the client's picture between two iterations.\<close>

definition shows_board :: "game_engine \<Rightarrow> game_info \<Rightarrow> bool" where
  "shows_board e g \<longleftrightarrow> gi_bombs g = as_placed (bomb_timer (game_params e)) (bombs e)
     \<and> keys (gi_player_positions g) = keys (players_positions e)
     \<and> (\<forall>p \<in> keys (players e). map_of (gi_scores g) p = Some (of_nat (explosions_hit p (turns e))))"

lemma in_step_board:
  assumes "idle_inv e" and "gameplay_started e" and "\<And>g0. followed g0 e" and "in_step (turns e) e c"
  shows "shows_board e (game c)"
proof -
  obtain g0 where g0: "ready_for e g0" "\<forall>p \<in> keys (players e). map_of (gi_scores g0) p = Some 0"
      "replay (turns e) g0 = Inr (game c)"
    using assms(2,4) by (auto simp: in_step_def)
  have "elems (current_players_to_destroy e) = {}" using assms(1) by (simp add: idle_inv_def elems_def)
  then obtain g where g: "shadows g0 {} e g"
    using assms(3) [of g0] assms(2) g0(1) by (auto simp: followed_def)
  then have "g = game c" using g0(3) by (simp add: shadows_def)
  with g g0(2) show ?thesis by (auto simp: shadows_def shows_board_def)
qed

subsection \<open>The messages of the server keep a client in step\<close>

lemma accepted_in_step:
  assumes "in_step ts e c" and lobby: "\<not> gameplay_started e"
  shows "\<exists>c'. apply_message t True (Accepted_message (next_player_id e) (Player name address)) c = Inr c'
    \<and> in_step ts (joined name address i e) c'"
  using assms by (simp add: in_step_def knows_lobby_def send_gui_message_def add_player_def Let_def)

lemma started_in_step:
  assumes "in_step ts e c" and "map_ok (players e)" and "gameplay_started e'" "players e' = players e"
    "game_params e' = game_params e"
  shows "\<exists>c'. apply_message t True (Started_message (players e)) c = Inr c' \<and> in_step [] e' c'"
proof -
  have "knows_lobby e c" using assms(1) by (simp add: in_step_def)
  from start_message [OF this assms(2), of t] obtain c' where
      "apply_message t True (Started_message (players e)) c = Inr c'" "ready_for e (game c')"
      "\<forall>p \<in> keys (players e). map_of (gi_scores (game c')) p = Some 0"
      "lobby c' = lobby c" "known_scores c' = known_scores c" "\<not> is_lobby_status c'"
    by blast
  moreover from this have "in_step [] e' c'"
    using assms \<open>knows_lobby e c\<close> ready_for_cong [of e' e]
    by (auto simp: in_step_def knows_lobby_def replay_def)
  ultimately show ?thesis by blast
qed

lemma turn_in_step:
  assumes step: "in_step ts e c" and started: "gameplay_started e"
    and total: "\<And>g0. ready_for e g0 \<Longrightarrow> \<exists>g. replay (ts @ [ti]) g0 = Inr g"
  shows "\<exists>c'. apply_message t True (Turn_message ti) c = Inr c' \<and> in_step (ts @ [ti]) e c'"
proof -
  obtain g0 where g0: "ready_for e g0" "\<forall>p \<in> keys (players e). map_of (gi_scores g0) p = Some 0"
      "replay ts g0 = Inr (game c)"
    using step started by (auto simp: in_step_def)
  from total [OF g0(1)] g0(3) obtain g where g: "apply_turn ti (game c) = Inr g" by (auto simp: replay_snoc)
  let ?c = "c\<lparr>game := g, to_gui := to_gui c @ [game_message g]\<rparr>"
  have "apply_message t True (Turn_message ti) c = Inr ?c" using g by (simp add: send_gui_message_def)
  moreover have "replay (ts @ [ti]) g0 = Inr g" using g0(3) g by (simp add: replay_snoc)
  with step g0(1,2) have "in_step (ts @ [ti]) e ?c" by (auto simp: in_step_def knows_lobby_def)
  ultimately show ?thesis by blast
qed

lemma ended_in_step:
  assumes "in_step ts e c"
  shows "\<exists>c'. apply_message t True (Ended_message sc) c = Inr c' \<and> in_step [] (end_gameplay e) c'"
  using assms
  by (simp add: in_step_def knows_lobby_def send_gui_message_def clear_players_def Let_def end_gameplay_def send_to_all_def)

subsection \<open>An iteration\<close>

definition undisturbed :: "nat \<Rightarrow> int \<Rightarrow> loop_env \<Rightarrow> bool" where
  "undisturbed i d env \<longleftrightarrow> (has_event env i \<longrightarrow> received_message (env_read env i) \<noteq> None)
     \<and> (new_connection env \<longrightarrow> i \<noteq> 1 \<and> fst (env_accept env) \<noteq> d)"

text \<open>What the runs keep: the facts on the server alone, and the client in step with what was sent.\<close>

definition alongside ::
    "u16 \<Rightarrow> nat \<Rightarrow> int \<Rightarrow> byte list list \<Rightarrow> client \<Rightarrow> turn_info list \<Rightarrow> game_engine \<Rightarrow> bool" where
  "alongside t i d seen c0 ts e \<longleftrightarrow> tallied e \<and> (\<forall>g0. followed g0 e) \<and> attached i d (tcp_handler e)
     \<and> (\<exists>c. caught_up t d seen c0 (tcp_handler e) c \<and> in_step ts e c)"

lemma alongside_handler:
  assumes "inbox d h = inbox d (tcp_handler e)" and "attached i d h = attached i d (tcp_handler e)"
  shows "alongside t i d seen c0 ts (e\<lparr>tcp_handler := h\<rparr>) = alongside t i d seen c0 ts e"
proof -
  have "in_step ts (e\<lparr>tcp_handler := h\<rparr>) c = in_step ts e c" for c by (rule in_step_cong) simp_all
  then show ?thesis by (simp add: alongside_def follows_handler assms(2) caught_up_same [OF assms(1)])
qed

lemma alongside_begin:
  assumes inv: "idle_inv e" and started: "gameplay_started e" and a: "alongside t i d seen c0 (turns e) e"
    and run: "begin_turn e = Inr e'"
  shows "alongside t i d seen c0 (butlast (turns e')) e'"
proof -
  note eq = begin_turn_eq [OF inv started, unfolded run, simplified]
  have frame: "game_params e' = game_params e" "players e' = players e" "gameplay_started e' = gameplay_started e"
      "tcp_handler e' = tcp_handler e" "butlast (turns e') = turns e"
    by (simp_all add: eq ticked_def)
  show ?thesis
    using a begin_turn_tallied [OF inv started _ run] begin_turn_followed [OF inv started _ run]
      in_step_cong [OF frame(1-3)]
    by (auto simp: alongside_def frame)
qed

lemma alongside_accept:
  assumes inv: "engine_inv e" and a: "alongside t i d seen c0 ts e"
    and env: "i \<noteq> 1" "fst (env_accept env) \<noteq> d"
  shows "alongside t i d seen c0 ts (accept_new env e)"
proof -
  obtain d' ip prt where acc: "env_accept env = (d', ip, prt)" by (cases "env_accept env")
  have len: "length (poll_descriptors (tcp_handler e)) = conn_max"
    using inv by (simp add: engine_inv_defs handler_ok_def)
  obtain h where h: "accept_new env e = e\<lparr>tcp_handler := h\<rparr>" using accept_new_frame [OF inv] by blast
  note eff = accept_new_effect [OF len acc, unfolded h, simplified]
  have att: "attached i d (tcp_handler e)" using a by (simp add: alongside_def)
  have free: "slot_fd (tcp_handler e) j = -1" if "free_slot (tcp_handler e) = Some j" for j
    using that by (simp add: free_slot_Some)
  have attached: "attached i d h"
    using att eff free env(2) acc by (auto simp: attached_def)
  then have "slot_fd h 1 \<noteq> d" using env(1) by (auto simp: attached_def conn_max_def)
  then have "inbox d h = inbox d (tcp_handler e)"
    using eff by (auto simp: inbox_def filter_map comp_def)
  with attached att a show ?thesis unfolding h by (simp add: alongside_handler)
qed

lemma alongside_drop:
  assumes inv: "engine_inv e" and a: "alongside t i d seen c0 ts e" and j: "j < conn_max" "j \<noteq> i" "status \<noteq> SUCCESS"
  shows "alongside t i d seen c0 ts (e\<lparr>tcp_handler := report_msg_status status j (tcp_handler e)\<rparr>)"
proof -
  let ?h = "report_msg_status status j (tcp_handler e)"
  have len: "length (poll_descriptors (tcp_handler e)) = conn_max"
    using inv by (simp add: engine_inv_defs handler_ok_def)
  have att: "attached i d (tcp_handler e)" using a by (simp add: alongside_def)
  have "slot_fd ?h k = (if k = j then -1 else slot_fd (tcp_handler e) k)" for k
    using j(1,3) len by (simp add: report_msg_status_def slot_fd_def close_fd_def set_slot_fd_def nth_list_update)
  then have "attached i d ?h" using att j(2) by (auto simp: attached_def)
  moreover have "inbox d ?h = inbox d (tcp_handler e)" by (simp add: inbox_def report_msg_status_def close_fd_def)
  ultimately show ?thesis using a att by (simp add: alongside_handler)
qed

lemma alongside_join:
  assumes inv: "engine_inv e" and named: "named e" and lobby: "\<not> gameplay_started e" and name: "str_ok name"
    and a: "alongside t i d seen c0 (butlast (turns e)) e" and join: "join_handle_msg name j e = Inr e'"
    and f: "tallied e'" "\<And>g0. followed g0 e'"
  shows "alongside t i d seen c0 (butlast (turns e')) e'"
proof -
  have att: "attached i d (tcp_handler e)" using a by (simp add: alongside_def)
  obtain c where c: "caught_up t d seen c0 (tcp_handler e) c" "in_step (butlast (turns e)) e c"
    using a by (auto simp: alongside_def)
  obtain address where address: "map_of (addresses (tcp_handler e)) j = Some address"
    using lobby join by (auto simp: join_handle_msg_def get_address_def Let_def)
  let ?e1 = "joined name address j e"
  let ?m = "Accepted_message (next_player_id e) (Player name address)"
  obtain c1 where c1: "apply_message t True ?m c = Inr c1" "in_step (butlast (turns e)) ?e1 c1"
    using accepted_in_step [OF c(2) lobby] by blast
  note tcp = joined_handler [of name address j e]
  from accepted_ok [OF named name address, of "next_player_id e"] have "message_ok ?m" .
  from caught_up_broadcast [OF c(1) att this c1(1)]
  have c1': "caught_up t d seen c0 (tcp_handler ?e1) c1" unfolding tcp .
  have att1: "attached i d (tcp_handler ?e1)" unfolding tcp using att by simp
  have l: "players_positions ?e1 = []" "turns ?e1 = []" "current_turn ?e1 = 0" "bombs ?e1 = []"
      "blocks_positions ?e1 = Leaf"
    using inv lobby by (simp_all add: engine_inv_def lobby_ok_def)
  note run1 = join_handle_msg_lobby [OF lobby address, of name, unfolded join]
  show ?thesis
  proof (cases "length (players ?e1) = unat (players_count (game_params e))")
    case False
    with run1 have "e' = ?e1" by simp
    with f c1(2) c1' att1 l(2) show ?thesis by (auto simp: alongside_def)
  next
    case full: True
    with run1 have start: "start_gameplay ?e1 = Inr e'" by simp
    have e': "engine_inv e'" "gameplay_started e'" "players e' = players ?e1" "game_params e' = game_params ?e1"
        "tcp_handler e' = send_message_to_all (message_bytes (Started_message (players ?e1))) (tcp_handler ?e1)"
      using start_gameplay_ok [OF joined_tables [OF inv] l] start full by (auto simp: game_started_msg_def)
    have "map_ok (players ?e1)" using inv by (simp add: engine_inv_def tables_ok_def)
    from started_in_step [OF c1(2) this e'(2-4), of t] obtain c2 where
      c2: "apply_message t True (Started_message (players ?e1)) c1 = Inr c2" "in_step [] e' c2" by blast
    have "named e'"
      using joined_named [OF named name address] e'(3-5) by (simp add: named_def send_message_to_all_wire)
    from started_ok [OF e'(1) this] have "message_ok (Started_message (players ?e1))" unfolding e'(3) .
    from caught_up_broadcast [OF c1' att1 this c2(1)]
    have "caught_up t d seen c0 (tcp_handler e') c2" unfolding e'(5) .
    moreover have "length (turns e') = Suc 0" using turns_length [OF e'(1,2)] start_gameplay_ok [OF joined_tables [OF inv] l] start full by auto
    then have "butlast (turns e') = []" by (cases "turns e'") auto
    ultimately show ?thesis using f c2(2) att1 by (auto simp: alongside_def e'(5))
  qed
qed

lemma alongside_action:
  assumes inv: "engine_inv e" and named: "named e" and fits: "message_fits m"
    and a: "alongside t i d seen c0 (butlast (turns e)) e" and run: "client_handle_msg indet m j e = Inr e'"
  shows "alongside t i d seen c0 (butlast (turns e')) e'"
proof -
  have f: "tallied e'" "\<And>g0. followed g0 e'"
    using action_follows [OF inv run] a by (auto simp: alongside_def)
  show ?thesis
  proof (cases "gameplay_started e")
    case True
    have "quiet_step e e'" by (rule action_quiet [OF turns_length [OF inv True] True run])
    then show ?thesis using a f in_step_cong [of e' e] by (simp add: alongside_def quiet_step_def)
  next
    case lobby: False
    from lobby_message [OF inv lobby run] show ?thesis
    proof (elim disjE exE conjE)
      assume "e' = e"
      with a show ?thesis by simp
    next
      fix name assume m: "m = Join_msg name" and join: "join_handle_msg name j e = Inr e'"
      have "str_ok name" using fits m by simp
      from alongside_join [OF inv named lobby this a join f] show ?thesis .
    qed
  qed
qed

lemma alongside_ended:
  assumes a: "alongside t i d seen c0 ts e" and ok: "message_ok (Ended_message (scores e))"
  shows "alongside t i d seen c0 [] (end_gameplay e)"
proof -
  let ?m = "Ended_message (scores e)"
  have att: "attached i d (tcp_handler e)" using a by (simp add: alongside_def)
  obtain c where c: "caught_up t d seen c0 (tcp_handler e) c" "in_step ts e c" using a by (auto simp: alongside_def)
  obtain c1 where c1: "apply_message t True ?m c = Inr c1" "in_step [] (end_gameplay e) c1"
    using ended_in_step [OF c(2)] by blast
  have tcp: "tcp_handler (end_gameplay e) = send_message_to_all (message_bytes ?m) (tcp_handler e)"
    by (simp add: end_gameplay_def send_to_all_def Let_def game_ended_msg_def)
  have "caught_up t d seen c0 (tcp_handler (end_gameplay e)) c1"
    unfolding tcp by (rule caught_up_broadcast [OF c(1) att ok c1(1)])
  moreover have "tallied (end_gameplay e)" "followed g0 (end_gameplay e)" for g0
    using ended_follows [of e g0] by simp_all
  ultimately show ?thesis using c1(2) att by (auto simp: alongside_def tcp)
qed

lemma alongside_end:
  assumes inv: "engine_inv e" and started: "gameplay_started e" and bound: "bounded n e" "n < conn_max"
    and a: "alongside t i d seen c0 (butlast (turns e)) e" and run: "summarise_turn e = Inr e'"
  shows "alongside t i d seen c0 (turns e') e'"
proof -
  obtain e1 where e1: "for_each respawn (inorder (current_players_to_destroy e)) e = Inr e1" "engine_inv e1"
      "respawned e e1" "butlast (turns e1) = butlast (turns e)" "length (turns e1) = length (turns e)"
    and e': "e' = (if current_turn e = game_length (game_params e) then end_gameplay (turn_closed e1) else turn_closed e1)"
    by (rule turn_closes [OF inv started run])
  let ?t = "last (turns e1)" and ?e2 = "turn_closed e1"
  note frame = respawned_frame [OF e1(3)]
  have "tallied e" and fol: "followed g0 e" for g0 using a by (simp_all add: alongside_def)
  note closed = closed_follows [OF inv started \<open>tallied e\<close> e1(1,3)]
  have att: "attached i d (tcp_handler e)" using a by (simp add: alongside_def)
  obtain c where c: "caught_up t d seen c0 (tcp_handler e) c" "in_step (butlast (turns e)) e c"
    using a by (auto simp: alongside_def)
  have log: "turns e1 = butlast (turns e) @ [?t]"
    using turns_length [OF inv started] e1(4,5) by (metis Zero_not_Suc append_butlast_last_id list.size(3))
  have "\<exists>g. replay (butlast (turns e) @ [?t]) g0 = Inr g" if "ready_for e g0" for g0
  proof -
    have "ready_for ?e2 g0" using that ready_for_cong [of ?e2 e] frame by simp
    then have "\<exists>g. replay (turns ?e2) g0 = Inr g"
      using closed(2) [OF fol, of g0] started frame by (auto simp: followed_def shadows_def)
    then show ?thesis using log by simp
  qed
  from turn_in_step [OF c(2) started this, of t] log obtain c1 where
    c1: "apply_message t True (Turn_message ?t) c = Inr c1" "in_step (turns e1) e c1" by auto
  have tcp: "tcp_handler ?e2 = send_message_to_all (message_bytes (Turn_message ?t)) (tcp_handler e)"
    using frame by simp
  have "message_ok (Turn_message ?t)" by (rule turn_fits_ok [OF closing_fits(1) [OF inv started bound e1(1)]])
  from caught_up_broadcast [OF c(1) att this c1(1)]
  have c1': "caught_up t d seen c0 (tcp_handler ?e2) c1" unfolding tcp .
  have att2: "attached i d (tcp_handler ?e2)" unfolding tcp using att by simp
  have c2: "in_step (turns ?e2) ?e2 c1"
    using c1(2) in_step_cong [of ?e2 e "turns e1"] frame by simp
  have closing: "alongside t i d seen c0 (turns e1) ?e2"
    using closed c1' c2 att2 fol by (auto simp: alongside_def)
  moreover have "message_ok (Ended_message (scores ?e2))" using ended_ok [OF e1(2)] by simp
  ultimately have "alongside t i d seen c0 [] (end_gameplay ?e2)" by (rule alongside_ended)
  moreover have "turns (end_gameplay ?e2) = []" by (simp add: end_gameplay_def send_to_all_def Let_def)
  ultimately show ?thesis using closing e' by (auto split: if_splits)
qed

interpretation along: loop_rule
  "\<lambda>e. proper e \<and> alongside t i d seen c0 (turns e) e"
  "\<lambda>n e. proper_busy n e \<and> alongside t i d seen c0 (butlast (turns e)) e"
  "\<lambda>env. named_env env \<and> undisturbed i d env" for t i d seen c0
proof unfold_locales
  fix e h assume "proper e \<and> alongside t i d seen c0 (turns e) e" and s: "same_traffic (tcp_handler e) h"
  moreover have "proper (e\<lparr>tcp_handler := h\<rparr>)" using calculation protocol.quiet_before by blast
  ultimately show "proper (e\<lparr>tcp_handler := h\<rparr>) \<and> alongside t i d seen c0 (turns (e\<lparr>tcp_handler := h\<rparr>)) (e\<lparr>tcp_handler := h\<rparr>)"
    using same_traffic_inbox [OF s, of d i] by (simp add: alongside_handler)
next
  fix n e h
  assume b: "proper_busy n e \<and> alongside t i d seen c0 (butlast (turns e)) e" and s: "same_traffic (tcp_handler e) h"
  then have "proper_busy n (e\<lparr>tcp_handler := h\<rparr>)" using protocol.quiet by blast
  with b show "proper_busy n (e\<lparr>tcp_handler := h\<rparr>)
      \<and> alongside t i d seen c0 (butlast (turns (e\<lparr>tcp_handler := h\<rparr>))) (e\<lparr>tcp_handler := h\<rparr>)"
    using same_traffic_inbox [OF s, of d i] by (simp add: alongside_handler)
next
  fix e e' assume "idle_inv e" "gameplay_started e" "proper e \<and> alongside t i d seen c0 (turns e) e" "begin_turn e = Inr e'"
  then show "proper_busy 0 e' \<and> alongside t i d seen c0 (butlast (turns e')) e'"
    using begin_proper alongside_begin by blast
next
  fix e assume inv: "idle_inv e" and lobby: "\<not> gameplay_started e"
    and "proper e \<and> alongside t i d seen c0 (turns e) e"
  moreover have "turns e = []" using inv lobby by (simp add: idle_inv_def engine_inv_def lobby_ok_def)
  ultimately show "proper_busy 0 e \<and> alongside t i d seen c0 (butlast (turns e)) e"
    using protocol.lobby by auto
next
  fix e env
  assume inv: "engine_inv e" and env: "named_env env \<and> undisturbed i d env" "new_connection env"
    and b: "proper_busy 0 e \<and> alongside t i d seen c0 (butlast (turns e)) e"
  have "alongside t i d seen c0 (butlast (turns e)) (accept_new env e)"
    using alongside_accept [OF inv, of t i d seen c0] b env by (auto simp: undisturbed_def)
  moreover have "turns (accept_new env e) = turns e" using accept_new_frame [OF inv, of env] by auto
  ultimately show "proper_busy 0 (accept_new env e)
      \<and> alongside t i d seen c0 (butlast (turns (accept_new env e))) (accept_new env e)"
    using accept_proper [OF inv] env b by auto
next
  fix e n m indet j e' and env :: loop_env
  assume inv: "engine_inv e" and b: "proper_busy n e \<and> alongside t i d seen c0 (butlast (turns e)) e"
    and m: "message_fits m" and run: "client_handle_msg indet m j e = Inr e'"
  then show "proper_busy (Suc n) e' \<and> alongside t i d seen c0 (butlast (turns e')) e'"
    using act_proper [OF inv _ m run] alongside_action [OF inv _ m _ run] by (auto simp: proper_busy_def)
next
  fix e env n j status
  assume inv: "engine_inv e" and env: "named_env env \<and> undisturbed i d env"
    and b: "proper_busy n e \<and> alongside t i d seen c0 (butlast (turns e)) e"
    and j: "0 < j" "j < conn_max" "has_event env j" "received_message (env_read env j) = None" "status \<noteq> SUCCESS"
  let ?h = "report_msg_status status j (tcp_handler e)"
  have "j \<noteq> i" using env j(3,4) by (auto simp: undisturbed_def)
  with b have "alongside t i d seen c0 (butlast (turns e)) (e\<lparr>tcp_handler := ?h\<rparr>)"
    using alongside_drop [OF inv _ j(2) _ j(5)] by blast
  moreover have "proper_busy n (e\<lparr>tcp_handler := ?h\<rparr>)"
    using b by (simp add: proper_handler report_msg_status_def close_fd_def)
  ultimately show "proper_busy n (e\<lparr>tcp_handler := ?h\<rparr>)
      \<and> alongside t i d seen c0 (butlast (turns (e\<lparr>tcp_handler := ?h\<rparr>))) (e\<lparr>tcp_handler := ?h\<rparr>)"
    by simp
next
  fix e n e'
  assume inv: "engine_inv e" "gameplay_started e" and b: "proper_busy n e \<and> alongside t i d seen c0 (butlast (turns e)) e"
    and n: "n < conn_max" and run: "summarise_turn e = Inr e'"
  then show "proper e' \<and> alongside t i d seen c0 (turns e') e'"
    using summarise_proper [OF inv _ n run] alongside_end [OF inv _ n _ run] by (auto simp: proper_busy_def)
next
  fix e n assume inv: "engine_inv e" and lobby: "\<not> gameplay_started e"
    and b: "proper_busy n e \<and> alongside t i d seen c0 (butlast (turns e)) e"
  moreover have "turns e = []" using inv lobby by (simp add: engine_inv_def lobby_ok_def)
  ultimately show "proper e \<and> alongside t i d seen c0 (turns e) e"
    by (simp add: proper_def proper_busy_def)
qed

lemma run_alongside:
  assumes "proper e" "idle_inv e" "tallied e" "\<And>g0. followed g0 e" and "attached i d (tcp_handler e)"
    and "in_step (turns e) e c" and "list_all (\<lambda>env. named_env env \<and> undisturbed i d env) envs"
    and run: "for_each loop_iteration envs e = Inr e'"
  shows "idle_inv e'" and "followed g0 e'"
    and "\<exists>ms c'. inbox d (tcp_handler e') = inbox d (tcp_handler e) @ map message_bytes ms \<and> list_all message_ok ms
      \<and> for_each (apply_message t True) ms c = Inr c' \<and> in_step (turns e') e' c'"
proof -
  have "alongside t i d (inbox d (tcp_handler e)) c (turns e) e"
    unfolding alongside_def using assms(3-6) caught_up_start [of t d "tcp_handler e" c] by blast
  then have "alongside t i d (inbox d (tcp_handler e)) c (turns e') e'"
    using along.run_keeps [OF assms(2) _ assms(7) run] assms(1) by blast
  then show "followed g0 e'" and "\<exists>ms c'. inbox d (tcp_handler e') = inbox d (tcp_handler e) @ map message_bytes ms
      \<and> list_all message_ok ms \<and> for_each (apply_message t True) ms c = Inr c' \<and> in_step (turns e') e' c'"
    by (auto simp: alongside_def caught_up_def)
  show "idle_inv e'" by (rule server.run_keeps [OF assms(2) run])
qed

text \<open>On the client's stream, when its pieces hold one or several messages each.\<close>

lemma for_each_map: "for_each f (map g xs) s = for_each (\<lambda>x. f (g x)) xs s"
proof (induction xs arbitrary: s)
  case (Cons x xs)
  show ?case by (cases "f (g x) s") (simp_all add: Cons.IH)
qed simp

lemma regroup: "concat gs = map f xs \<Longrightarrow> \<exists>xss. gs = map (map f) xss \<and> concat xss = xs"
proof (induction gs arbitrary: xs)
  case (Cons g gs)
  then obtain us vs where us: "xs = us @ vs" "g = map f us" and "concat gs = map f vs"
    by (auto simp: map_eq_append_conv dest!: sym [of "g @ concat gs"])
  from Cons.IH [OF this(3)] obtain xss where "gs = map (map f) xss" "concat xss = vs" by blast
  with us show ?case by (intro exI [of _ "us # xss"]) simp
qed simp

lemma rounds_over_groups:
  assumes "list_all message_ok ms" and "concat groups = map message_bytes ms" and "[] \<notin> set groups"
    and "list_all (\<lambda>piece. length piece \<le> BUFFER_SIZE) (map concat groups)"
    and "cur_buf (rd c) = []" and "incoming (rd c) = map concat groups @ later"
  shows "for_each (\<lambda>msg. handle_server_message t sent) (concat groups) c
    = and_then (for_each (apply_message t sent) ms c) (\<lambda>c'. Inr (rd_update (incoming_update (\<lambda>_. later)) c'))"
proof -
  obtain mss where mss: "groups = map (map message_bytes) mss" "concat mss = ms" using regroup [OF assms(2)] by blast
  have "pieces mss = map concat groups" by (simp add: pieces_def mss(1) comp_def)
  moreover have "list_all (list_all message_ok) mss" "[] \<notin> set mss"
    using assms(1,3) mss by (auto simp: list_all_iff)
  ultimately have "for_each (\<lambda>m. handle_server_message t sent) ms c
      = and_then (for_each (apply_message t sent) ms c) (\<lambda>c'. Inr (rd_update (incoming_update (\<lambda>_. later)) c'))"
    using rounds_over_pieces [of mss c later t sent] assms(4-6) mss(2) by simp
  then show ?thesis unfolding assms(2) for_each_map .
qed

subsection \<open>The greeting\<close>

lemma in_step_rd [simp]: "in_step ts e (rd_update f c) = in_step ts e c"
  by (simp add: in_step_def knows_lobby_def)

text \<open>In the lobby the greeting is all a client needs.\<close>

lemma accepted_players:
  assumes "map_ok (li_players (lobby c) @ ps)"
  shows "\<exists>c'. for_each (apply_message t True) (map (\<lambda>(i, p). Accepted_message i p) ps) c = Inr c'
    \<and> lobby c' = (lobby c)\<lparr>li_players := li_players (lobby c) @ ps\<rparr> \<and> known_scores c' = known_scores c
    \<and> is_lobby_status c' = is_lobby_status c"
  using assms
proof (induction ps arbitrary: c)
  case (Cons ip ps)
  obtain i p where ip: "ip = (i, p)" by (cases ip)
  have "map_ok (li_players (lobby c) @ [ip])"
    using Cons.prems by (auto simp: map_ok_def sorted_wrt_append)
  from fold_insert_entry [OF this] have add: "map_insert i p (li_players (lobby c)) = li_players (lobby c) @ [ip]"
    by (simp add: insert_entry_def ip)
  let ?l = "add_player i p (lobby c)"
  let ?c = "c\<lparr>lobby := ?l, to_gui := to_gui c @ [lobby_message ?l]\<rparr>"
  have step: "apply_message t True (Accepted_message i p) c = Inr ?c"
    by (simp add: send_gui_message_def Let_def)
  have l: "?l = (lobby c)\<lparr>li_players := li_players (lobby c) @ [ip]\<rparr>" by (simp add: add_player_def add)
  obtain c' where "for_each (apply_message t True) (map (\<lambda>(i, p). Accepted_message i p) ps) ?c = Inr c'"
      "lobby c' = (lobby ?c)\<lparr>li_players := li_players (lobby ?c) @ ps\<rparr>" "known_scores c' = known_scores ?c"
      "is_lobby_status c' = is_lobby_status ?c"
    using Cons.IH [of ?c] Cons.prems l by auto
  with step l show ?case by (intro exI [of _ c']) (simp add: ip del: apply_message.simps)
qed simp

lemma greeting_in_step:
  assumes "map_ok (players e)" and lobby: "\<not> gameplay_started e" and "known_scores c = []"
  shows "\<exists>c'. for_each (apply_message t True) (greeting e) c = Inr c' \<and> in_step ts e c'"
proof -
  let ?l = "lobby_of (game_params e)"
  let ?c = "c\<lparr>lobby := ?l, to_gui := to_gui c @ [lobby_message ?l], is_lobby_status := True\<rparr>"
  have l: "li_players ?l = []" "li_bomb_timer ?l = bomb_timer (game_params e)"
    by (simp_all add: lobby_of_def new_lobby_info_def)
  have hello: "apply_message t True (Hello_message (game_params e)) c = Inr ?c"
    by (simp add: send_gui_message_def)
  obtain c' where c': "for_each (apply_message t True) (map (\<lambda>(i, p). Accepted_message i p) (players e)) ?c = Inr c'"
      "lobby c' = ?l\<lparr>li_players := players e\<rparr>" "known_scores c' = []" "is_lobby_status c'"
    using accepted_players [of ?c "players e" t] assms(1,3) l by auto
  have "in_step ts e c'" using c'(2-4) lobby l by (simp add: in_step_def knows_lobby_def)
  with hello c'(1) lobby show ?thesis
    by (intro exI [of _ c']) (simp add: greeting_def del: apply_message.simps)
qed

text \<open>In a game it makes the client forget the players: without scores no hit of a robot can be replayed.\<close>

lemma destroys_without_scores:
  assumes "gi_scores g = []"
  shows "for_each destroy_player ps g = (if ps = [] then Inr g else Inl Out_of_range)"
  using assms by (cases ps) (simp_all add: destroy_player_def map_at_def)

lemma events_without_scores:
  assumes "gi_scores g = []"
  shows "(\<exists>ev \<in> set evs. hits ev \<noteq> {}) \<Longrightarrow> for_each apply_event evs g = Inl Out_of_range"
    and "\<not> (\<exists>ev \<in> set evs. hits ev \<noteq> {}) \<Longrightarrow> \<exists>g'. for_each apply_event evs g = Inr g' \<and> gi_scores g' = []"
proof -
  have one: "if hits ev = {} then \<exists>g'. apply_event ev g = Inr g' \<and> gi_scores g' = [] else apply_event ev g = Inl Out_of_range"
    if "gi_scores g = []" for ev g
  proof (cases ev)
    case (Bomb_exploded_event i robots blocks)
    have "inorder (fold (set_insert (<)) robots Leaf) = [] \<longleftrightarrow> robots = []"
      using elems_fold_insert [of Leaf robots] by (auto simp: elems_def)
    then show ?thesis
      using that Bomb_exploded_event destroys_without_scores [of "remove_bomb i g"]
      by (simp add: remove_bomb_def fold_remove_block)
  qed (use that in \<open>simp_all add: add_bomb_def change_player_position_def add_block_def\<close>)
  have "(if \<exists>ev \<in> set evs. hits ev \<noteq> {} then for_each apply_event evs g = Inl Out_of_range
      else \<exists>g'. for_each apply_event evs g = Inr g' \<and> gi_scores g' = [])"
    using assms
  proof (induction evs arbitrary: g)
    case (Cons ev evs)
    show ?case
    proof (cases "hits ev = {}")
      case True
      with one [OF Cons.prems, of ev] obtain g1 where "apply_event ev g = Inr g1" "gi_scores g1 = []" by auto
      with Cons.IH [of g1] True show ?thesis by simp
    next
      case False
      with one [OF Cons.prems, of ev] show ?thesis by auto
    qed
  qed simp
  then show "(\<exists>ev \<in> set evs. hits ev \<noteq> {}) \<Longrightarrow> for_each apply_event evs g = Inl Out_of_range"
    and "\<not> (\<exists>ev \<in> set evs. hits ev \<noteq> {}) \<Longrightarrow> \<exists>g'. for_each apply_event evs g = Inr g' \<and> gi_scores g' = []"
    by (auto split: if_splits)
qed

lemma turns_without_scores:
  assumes "gi_scores (game c) = []" and "\<exists>ti \<in> set ts. turn_hits ti \<noteq> {}"
  shows "for_each (apply_message t True) (map Turn_message ts) c = Inl Out_of_range"
  using assms
proof (induction ts arbitrary: c)
  case (Cons ti ts)
  have fresh: "gi_scores (new_turn (turn ti) (game c)) = []" using Cons.prems(1) by (simp add: new_turn_def)
  note ev = events_without_scores [OF fresh, of "events ti"]
  show ?case
  proof (cases "turn_hits ti = {}")
    case False
    then have "\<exists>ev \<in> set (events ti). hits ev \<noteq> {}" by (simp add: turn_hits_def)
    from ev(1) [OF this] show ?thesis by (simp add: apply_turn_def)
  next
    case True
    then have "\<not> (\<exists>ev \<in> set (events ti). hits ev \<noteq> {})" by (simp add: turn_hits_def)
    from ev(2) [OF this] obtain g where g: "apply_turn ti (game c) = Inr g" "gi_scores g = []"
      by (auto simp: apply_turn_def)
    let ?c = "c\<lparr>game := g, to_gui := to_gui c @ [game_message g]\<rparr>"
    have "apply_message t True (Turn_message ti) c = Inr ?c" using g by (simp add: send_gui_message_def)
    with Cons.IH [of ?c] Cons.prems(2) True g(2) show ?thesis by (simp del: apply_message.simps)
  qed
qed simp

text \<open>Turns without a hit are replayed, and still there are no scores.\<close>

lemma turns_without_hits:
  assumes "gi_scores (game c) = []" and "\<forall>ti \<in> set ts. turn_hits ti = {}"
  shows "\<exists>c'. for_each (apply_message t True) (map Turn_message ts) c = Inr c' \<and> gi_scores (game c') = []"
  using assms
proof (induction ts arbitrary: c)
  case (Cons ti ts)
  have fresh: "gi_scores (new_turn (turn ti) (game c)) = []" using Cons.prems(1) by (simp add: new_turn_def)
  have "\<not> (\<exists>ev \<in> set (events ti). hits ev \<noteq> {})" using Cons.prems(2) by (simp add: turn_hits_def)
  from events_without_scores(2) [OF fresh this] obtain g where g: "apply_turn ti (game c) = Inr g" "gi_scores g = []"
    by (auto simp: apply_turn_def)
  let ?c = "c\<lparr>game := g, to_gui := to_gui c @ [game_message g]\<rparr>"
  have "apply_message t True (Turn_message ti) c = Inr ?c" using g by (simp add: send_gui_message_def)
  with Cons.IH [of ?c] Cons.prems(2) g(2) show ?case by (simp del: apply_message.simps)
qed simp

text \<open>A game begun without players has no scores.\<close>

lemma start_without_players:
  assumes "li_players (lobby c) = []" and "known_scores c = []"
  shows "\<exists>c'. apply_message t True (Started_message ps) c = Inr c' \<and> gi_scores (game c') = []"
  using assms by (simp add: new_game_info_def add_missing_scores_def)

lemma greeting_in_game_fails:
  assumes "gameplay_started e" and "known_scores c = []" and "\<exists>ti \<in> set (turns e). turn_hits ti \<noteq> {}"
  shows "for_each (apply_message t True) (greeting e) c = Inl Out_of_range"
proof -
  let ?l = "lobby_of (game_params e)"
  let ?c = "c\<lparr>lobby := ?l, to_gui := to_gui c @ [lobby_message ?l], is_lobby_status := True\<rparr>"
  have hello: "apply_message t True (Hello_message (game_params e)) c = Inr ?c"
    by (simp add: send_gui_message_def)
  obtain g where g: "new_game_info t (li_server_name ?l) (li_size_x ?l) (li_size_y ?l) (li_game_length ?l) []
      (li_bomb_timer ?l) [] = Inr g" "gi_scores g = []"
    by (simp add: new_game_info_def add_missing_scores_def)
  have "apply_message t True (Started_message (players e)) ?c = Inr (?c\<lparr>game := g, is_lobby_status := False\<rparr>)"
    using g(1) assms(2) by (simp add: lobby_of_def new_lobby_info_def)
  with hello turns_without_scores [of "?c\<lparr>game := g, is_lobby_status := False\<rparr>" "turns e" t] g(2) assms(1,3)
  show ?thesis by (simp add: greeting_def del: apply_message.simps)
qed

end
