(* ===== verification/Turns.thy ===== *)
theory Turns
  imports Wire
begin

text \<open>
  A turn of a game from end to end: what one iteration of the loop appends to the log, whatever the clients
  do, and when a bomb explodes.
\<close>

subsection \<open>One iteration of a game\<close>

definition explosions_of :: "game_engine \<Rightarrow> event list" where
  "explosions_of e = map (explosion_event e) (expiring (bombs e))"

definition bombs_left :: "game_engine \<Rightarrow> (bomb_id, bomb) std_map" where
  "bombs_left e = map tick (filter (\<lambda>b. timer (snd b) \<noteq> 1) (bombs e))"

text \<open>
  Within the iteration that began in \<open>e0\<close>, once the turn has logged \<open>evs\<close>: what follows are no explosions, and the
  bombs \<open>bs\<close> stay.
\<close>

definition in_turn_of :: "game_engine \<Rightarrow> event list \<Rightarrow> (bomb_id, bomb) std_map \<Rightarrow> game_engine \<Rightarrow> bool" where
  "in_turn_of e0 evs bs e \<longleftrightarrow> gameplay_started e \<and> current_turn e = current_turn e0 + 1 \<and> game_params e = game_params e0
     \<and> turns e \<noteq> [] \<and> butlast (turns e) = turns e0 \<and> turn (last (turns e)) = current_turn e0 + 1
     \<and> set bs \<subseteq> set (bombs e)
     \<and> (\<exists>more. last_events e = evs @ more \<and> list_all no_explosion more)"

lemma in_turn_grown:
  assumes "in_turn_of e0 evs bs e" and g: "grown b k e e'" and "game_params e' = game_params e" "gameplay_started e'"
  shows "in_turn_of e0 evs bs e'"
proof -
  obtain xs ys where "last_events e = evs @ xs" "list_all no_explosion xs"
      "last_events e' = last_events e @ ys" "list_all no_explosion ys"
    using assms(1) g unfolding in_turn_of_def grown_def by blast
  then have "\<exists>more. last_events e' = evs @ more \<and> list_all no_explosion more"
    by (intro exI [of _ "xs @ ys"]) simp
  moreover have "turns e' \<noteq> []" using assms(1) g by (auto simp: in_turn_of_def grown_def)
  moreover have "set bs \<subseteq> set (bombs e')" using assms(1) g by (auto simp: in_turn_of_def grown_def)
  ultimately show ?thesis using assms g by (simp add: in_turn_of_def grown_def)
qed

lemma in_turn_handler [simp]: "in_turn_of e0 evs bs (e\<lparr>tcp_handler := h\<rparr>) = in_turn_of e0 evs bs e"
  by (simp add: in_turn_of_def last_events_def)

text \<open>The closed form of the beginning of a turn, with the events of \<open>poll\<close> reset.\<close>

lemma turn_begun:
  assumes inv: "idle_inv e0" and started: "gameplay_started e0" and h: "handler_ok h"
    and run: "begin_turn (e0\<lparr>tcp_handler := h\<rparr>) = Inr e"
  shows "turns e = turns e0 @ [Turn_info (current_turn e0 + 1) (explosions_of e0)]" "bombs e = bombs_left e0"
    "elems (current_players_to_destroy e) = set (concat (map (\<lambda>b. robots_hit e0 (snd b)) (expiring (bombs e0))))"
    "players_positions e = players_positions e0" "player_ids e = player_ids e0" "next_bomb_id e = next_bomb_id e0"
    "current_turn e = current_turn e0 + 1" "game_params e = game_params e0" "gameplay_started e"
proof -
  let ?e = "e0\<lparr>tcp_handler := h\<rparr>"
  have "same_board e0 ?e" by (simp add: same_board_def)
  note board = struck_cells_cong [OF this]
  have hit: "robots_hit ?e = robots_hit e0" by (simp add: fun_eq_iff robots_hit_def board)
  have ev: "explosion_event ?e = explosion_event e0"
    by (simp add: fun_eq_iff explosion_event_def hit blocks_hit_def board)
  have "gameplay_started ?e" using started by simp
  note eq = begin_turn_eq [OF idle_inv_handler [OF inv h] this, unfolded run, simplified]
  have leaf: "current_players_to_destroy e0 = Leaf" using inv by (simp add: idle_inv_def)
  show "elems (current_players_to_destroy e) = set (concat (map (\<lambda>b. robots_hit e0 (snd b)) (expiring (bombs e0))))"
    by (simp add: eq ticked_def leaf hit elems_fold_insert del: set_concat)
  show "turns e = turns e0 @ [Turn_info (current_turn e0 + 1) (explosions_of e0)]" "bombs e = bombs_left e0"
    "players_positions e = players_positions e0" "player_ids e = player_ids e0" "next_bomb_id e = next_bomb_id e0"
    "current_turn e = current_turn e0 + 1" "game_params e = game_params e0" "gameplay_started e"
    using started by (simp_all add: eq ticked_def explosions_of_def bombs_left_def ev)
qed

lemma in_turn_begin:
  assumes "idle_inv e0" and "gameplay_started e0" and "handler_ok h" and "begin_turn (e0\<lparr>tcp_handler := h\<rparr>) = Inr e"
  shows "in_turn_of e0 (explosions_of e0) (bombs_left e0) e"
  by (simp add: in_turn_of_def last_events_def turn_begun [OF assms])

definition turn_added :: "game_engine \<Rightarrow> event list \<Rightarrow> (bomb_id, bomb) std_map \<Rightarrow> game_engine \<Rightarrow> bool" where
  "turn_added e0 evs bs e' \<longleftrightarrow> (\<exists>more. turns e' = turns e0 @ [Turn_info (current_turn e0 + 1) (evs @ more)]
     \<and> list_all no_explosion more) \<and> set bs \<subseteq> set (bombs e')"

lemma in_turn_end:
  assumes inv: "engine_inv e" and in_turn: "in_turn_of e0 evs bs e" and run: "summarise_turn e = Inr e'"
    and going: "gameplay_started e'"
  shows "turn_added e0 evs bs e'"
proof -
  have started: "gameplay_started e" using in_turn by (simp add: in_turn_of_def)
  obtain e1 where e1: "for_each respawn (inorder (current_players_to_destroy e)) e = Inr e1" "respawned e e1"
    and e': "e' = (if current_turn e = game_length (game_params e) then end_gameplay (turn_closed e1) else turn_closed e1)"
    by (rule turn_closes [OF inv started run])
  note frame = respawned_frame [OF e1(2)]
  have "grown 0 (length (inorder (current_players_to_destroy e))) e e1"
    using for_each_grown [OF e1(1) turns_length [OF inv started]] respawn_grown by blast
  from in_turn_grown [OF in_turn this] have t: "in_turn_of e0 evs bs e1" using frame started by simp
  then obtain more where more: "last_events e1 = evs @ more" "list_all no_explosion more"
    by (auto simp: in_turn_of_def)
  have "turns e1 = turns e0 @ [last (turns e1)]"
    using t append_butlast_last_id [of "turns e1"] by (simp add: in_turn_of_def)
  moreover have "last (turns e1) = Turn_info (current_turn e0 + 1) (evs @ more)"
    using t more(1) by (cases "last (turns e1)") (simp add: in_turn_of_def last_events_def)
  ultimately have "turns e1 = turns e0 @ [Turn_info (current_turn e0 + 1) (evs @ more)]" by simp
  moreover have "e' = turn_closed e1"
    using e' going by (auto simp: end_gameplay_def send_to_all_def Let_def split: if_splits)
  ultimately show ?thesis using t more(2) by (auto simp: turn_added_def in_turn_of_def)
qed

interpretation in_game: iteration_rule
  "\<lambda>e. idle_inv e0 \<and> gameplay_started e0 \<and> (\<exists>h. e = e0\<lparr>tcp_handler := h\<rparr>)" "\<lambda>n e. in_turn_of e0 (explosions_of e0) (bombs_left e0) e"
  "\<lambda>e'. gameplay_started e' \<longrightarrow> turn_added e0 (explosions_of e0) (bombs_left e0) e'" "\<lambda>env. True" for e0
proof unfold_locales
  fix e e' assume "idle_inv e" and "idle_inv e0 \<and> gameplay_started e0 \<and> (\<exists>h. e = e0\<lparr>tcp_handler := h\<rparr>)"
    and run: "begin_turn e = Inr e'"
  then obtain h where h: "idle_inv e0" "gameplay_started e0" "e = e0\<lparr>tcp_handler := h\<rparr>" by blast
  with \<open>idle_inv e\<close> have "handler_ok h" by (simp add: idle_inv_def engine_inv_defs)
  from in_turn_begin [OF h(1,2) this run [unfolded h(3)]] show "in_turn_of e0 (explosions_of e0) (bombs_left e0) e'" .
next
  fix e env assume inv: "engine_inv e" and "in_turn_of e0 (explosions_of e0) (bombs_left e0) e"
  then show "in_turn_of e0 (explosions_of e0) (bombs_left e0) (accept_new env e)" using accept_new_frame [OF inv, of env] by auto
next
  fix e m indet i e' assume inv: "engine_inv e" and t: "in_turn_of e0 (explosions_of e0) (bombs_left e0) e" and run: "client_handle_msg indet m i e = Inr e'"
  then have started: "gameplay_started e" by (simp add: in_turn_of_def)
  note len = turns_length [OF inv started]
  from action_quiet [OF len started run] started have "game_params e' = game_params e" "gameplay_started e'"
    by (simp_all add: quiet_step_def)
  then show "in_turn_of e0 (explosions_of e0) (bombs_left e0) e'" by (rule in_turn_grown [OF t action_grown [OF len started run]])
next
  fix e e' assume "engine_inv e" and "in_turn_of e0 (explosions_of e0) (bombs_left e0) e" and "summarise_turn e = Inr e'"
  then show "gameplay_started e' \<longrightarrow> turn_added e0 (explosions_of e0) (bombs_left e0) e'" using in_turn_end by blast
next
  fix e h assume "idle_inv e0 \<and> gameplay_started e0 \<and> (\<exists>h. e = e0\<lparr>tcp_handler := h\<rparr>)"
  then show "idle_inv e0 \<and> gameplay_started e0 \<and> (\<exists>k. e\<lparr>tcp_handler := h\<rparr> = e0\<lparr>tcp_handler := k\<rparr>)" by auto
next
  fix e assume "\<not> gameplay_started e" and "idle_inv e0 \<and> gameplay_started e0 \<and> (\<exists>h. e = e0\<lparr>tcp_handler := h\<rparr>)"
  then show "in_turn_of e0 (explosions_of e0) (bombs_left e0) e" by auto
next
  fix e assume "\<not> gameplay_started e" and "in_turn_of e0 (explosions_of e0) (bombs_left e0) e"
  then show "gameplay_started e \<longrightarrow> turn_added e0 (explosions_of e0) (bombs_left e0) e" by simp
qed simp_all

lemma iteration_adds_turn:
  assumes "idle_inv e" and "gameplay_started e" and "loop_iteration env e = Inr e'" and "gameplay_started e'"
  shows "turn_added e (explosions_of e) (bombs_left e) e'"
proof -
  have "e = e\<lparr>tcp_handler := tcp_handler e\<rparr>" by simp
  with in_game.iteration_gives [OF assms(1) TrueI _ assms(3)] assms(1,2,4) show ?thesis by blast
qed

subsection \<open>When a bomb explodes\<close>

lemma iteration_polled: "loop_iteration env e = Inr e' \<Longrightarrow> env_poll env \<noteq> -1"
  by (auto simp: loop_iteration_def Let_def split: if_splits)

lemma iteration_goes_on:
  assumes idle: "idle_inv e" and started: "gameplay_started e" and run: "loop_iteration env e = Inr e'"
    and left: "Suc (unat (current_turn e)) < unat (game_length (game_params e))"
  shows "idle_inv e'" "gameplay_started e'" "game_params e' = game_params e"
    "unat (current_turn e') = Suc (unat (current_turn e))" "turn_added e (explosions_of e) (bombs_left e) e'"
proof -
  have "unat (current_turn e) < 65535"
    using left unat_bounds(2) [of "game_length (game_params e)"] by simp
  then have next_turn: "unat (current_turn e + 1) = Suc (unat (current_turn e))"
    by (simp add: unat_word_ariths)
  with left have "current_turn e + 1 \<noteq> game_length (game_params e)" by auto
  with loop_iteration_ok [OF idle safe_while_started [OF started iteration_polled [OF run]]] run started next_turn
  show "idle_inv e'" "gameplay_started e'" "game_params e' = game_params e"
    "unat (current_turn e') = Suc (unat (current_turn e))"
    by auto
  from iteration_adds_turn [OF idle started run this(2)] show "turn_added e (explosions_of e) (bombs_left e) e'" .
qed

definition explodes_in :: "bomb_id \<Rightarrow> turn_info \<Rightarrow> bool" where
  "explodes_in i t \<longleftrightarrow> list_ex (\<lambda>ev. case ev of Bomb_exploded_event j rs bs \<Rightarrow> j = i | _ \<Rightarrow> False) (events t)"

lemma explodes_in_turn:
  assumes "turn_added e (explosions_of e) (bombs_left e) e'" and "map_ok (bombs e)" and bomb: "(i, b) \<in> set (bombs e)"
  obtains t where "turns e' = turns e @ [t]" and "explodes_in i t \<longleftrightarrow> timer b = 1"
proof -
  obtain evs where evs: "turns e' = turns e @ [Turn_info (current_turn e + 1) (explosions_of e @ evs)]"
      "list_all no_explosion evs"
    using assms(1) by (auto simp: turn_added_def)
  have same: "b' = b" if "(i, b') \<in> set (bombs e)" for b'
    using that bomb map_ok_distinct [OF assms(2)] by (metis eq_key_imp_eq_value)
  have none: "\<not> list_ex (\<lambda>ev. case ev of Bomb_exploded_event j rs bs \<Rightarrow> j = i | _ \<Rightarrow> False) evs"
    using evs(2) by (induction evs) (auto split: event.splits)
  have "list_ex (\<lambda>ev. case ev of Bomb_exploded_event j rs bs \<Rightarrow> j = i | _ \<Rightarrow> False) (explosions_of e)
      \<longleftrightarrow> (\<exists>b'. (i, b') \<in> set (bombs e) \<and> timer b' = 1)"
    by (force simp: explosions_of_def explosion_event_def expiring_def list_ex_iff)
  also have "\<dots> \<longleftrightarrow> timer b = 1" using same bomb by blast
  finally show ?thesis using that [OF evs(1)] none by (simp add: explodes_in_def)
qed

lemma bomb_explodes:
  assumes "idle_inv e" and "gameplay_started e" and "(i, b) \<in> set (bombs e)" and "timer b \<noteq> 0"
    and "length envs = unat (timer b)"
    and "unat (current_turn e) + length envs < unat (game_length (game_params e))"
    and "for_each loop_iteration envs e = Inr e'"
  shows "\<exists>ts t. turns e' = turns e @ ts @ [t] \<and> Suc (length ts) = unat (timer b) \<and> explodes_in i t
    \<and> list_all (\<lambda>t. \<not> explodes_in i t) ts"
  using assms
proof (induction envs arbitrary: e b)
  case Nil
  then show ?case by (simp add: unat_eq_0)
next
  case (Cons env envs)
  obtain e1 where e1: "loop_iteration env e = Inr e1" "for_each loop_iteration envs e1 = Inr e'"
    using Cons.prems(7) by auto
  have "Suc (unat (current_turn e)) < unat (game_length (game_params e))" using Cons.prems(6) by simp
  note step = iteration_goes_on [OF Cons.prems(1,2) e1(1) this]
  have sorted: "map_ok (bombs e)" using Cons.prems(1) by (simp add: idle_inv_def engine_inv_defs)
  obtain t where t: "turns e1 = turns e @ [t]" "explodes_in i t \<longleftrightarrow> timer b = 1"
    by (rule explodes_in_turn [OF step(5) sorted Cons.prems(3)])
  show ?case
  proof (cases "timer b = 1")
    case True
    then have "envs = []" using Cons.prems(5) by simp
    with e1(2) t True show ?thesis by (intro exI [of _ "[]"] exI [of _ t]) simp
  next
    case False
    let ?b = "Bomb (bomb_position b) (timer b - 1)"
    have "(i, ?b) \<in> set (bombs_left e)"
      using Cons.prems(3) False by (force simp: bombs_left_def tick_def)
    with step(5) have in1: "(i, ?b) \<in> set (bombs e1)" by (auto simp: turn_added_def)
    have "0 < unat (timer b)" using Cons.prems(4) by (simp add: unat_gt_0)
    then have tm: "unat (timer b - 1) = unat (timer b) - 1" "timer b - 1 \<noteq> 0"
      using False by (simp_all add: unat_minus_one unat_gt_0)
    have len: "length envs = unat (timer ?b)" using Cons.prems(5) tm(1) by simp
    have "unat (current_turn e1) + length envs < unat (game_length (game_params e1))"
      using Cons.prems(6) step(3,4) by simp
    with Cons.IH [OF step(1,2) in1 _ len _ e1(2)] tm
    obtain ts t' where "turns e' = turns e1 @ ts @ [t']" "Suc (length ts) = unat (timer ?b)" "explodes_in i t'"
        "list_all (\<lambda>t. \<not> explodes_in i t) ts"
      by auto
    with t tm False \<open>0 < unat (timer b)\<close> show ?thesis by (intro exI [of _ "t # ts"] exI [of _ t']) simp
  qed
qed

end
