(* ===== verification/One_Message.thy ===== *)
theory One_Message
  imports Loop_Rule
begin

text \<open>
  An iteration of the server's loop in which one client sends one message; in the lobby: joining, and the start of a
  game.
\<close>

definition message_on :: "nat \<Rightarrow> byte list \<Rightarrow> loop_env" where
  "message_on k bytes = \<lparr>env_poll = 1, env_revents = (\<lambda>j. if j = k then POLLIN else 0), env_interrupted = False, env_interrupted_later = False,
     env_accept = (-1, [], 0), env_read = (\<lambda>j. Read_bytes bytes), env_indet = (\<lambda>j. Position 0 0)\<rparr>"

lemma idle_slots: "list_all (\<lambda>j. \<not> is_message_from (tcp_handler e) j) js \<Longrightarrow> for_each (serve_slot env) js e = Inr e"
  by (induction js) (simp_all add: serve_slot_def)

lemma only_message:
  assumes "handler_ok h0" and k: "0 < k" "k < conn_max" "slot_fd h0 k \<noteq> -1"
    and same: "poll_descriptors h = poll_descriptors (poll_exec (env_revents (message_on k bytes)) (reset_revents h0))"
    and j: "j < conn_max"
  shows "is_message_from h j \<longleftrightarrow> j = k" and "\<not> is_new_connection h"
proof -
  have len: "length (poll_descriptors h0) = conn_max" using assms(1) by (simp add: handler_ok_def)
  have at: "poll_descriptors h ! i = (poll_descriptors h0 ! i)\<lparr>revents := if i = k then POLLIN else 0\<rparr>"
    if "i < conn_max" for i
    using that same len by (simp add: poll_exec_def reset_revents_def message_on_def nth_enumerate_eq)
  show "is_message_from h j \<longleftrightarrow> j = k"
    using at [OF j] k(3) by (simp add: is_message_from_def slot_fd_def POLLIN_def POLLERR_def)
  show "\<not> is_new_connection h"
    using at [of 0] k(1) by (simp add: is_new_connection_def conn_max_def)
qed

text \<open>What the client's message gets to do: the handler runs on the game once the turn has begun, with the bytes in the buffer.\<close>

lemma message_served:
  assumes idle: "idle_inv e" and k: "0 < k" "k < conn_max" "slot_fd (tcp_handler e) k \<noteq> -1"
    and msg: "received_message (Read_bytes bytes) = Some m"
  obtains e1 h where
    "(if gameplay_started e then begin_turn (e\<lparr>tcp_handler := reset_revents (tcp_handler e)\<rparr>)
      else Inr (e\<lparr>tcp_handler := reset_revents (tcp_handler e)\<rparr>)) = Inr e1"
    "engine_inv e1" "handler_ok h" "same_traffic (tcp_handler e) h"
    "\<forall>e'. client_handle_msg (Position 0 0) m k (e1\<lparr>tcp_handler := h\<rparr>) = Inr e' \<longrightarrow>
      loop_iteration (message_on k bytes) e = (if gameplay_started e' then summarise_turn e' else Inr e')"
proof -
  let ?env = "message_on k bytes" and ?e0 = "e\<lparr>tcp_handler := reset_revents (tcp_handler e)\<rparr>"
  let ?h = "poll_exec (env_revents ?env) (reset_revents (tcp_handler e))" and ?js = "[1..<conn_max]"
  have hok: "handler_ok (tcp_handler e)"
    using idle by (simp add: idle_inv_def engine_inv_def tables_ok_def)
  then have "idle_inv ?e0" using idle by (simp add: idle_inv_handler)
  then obtain e1 where e1: "(if gameplay_started ?e0 then begin_turn ?e0 else Inr ?e0) = Inr e1" "engine_inv e1"
      "tcp_handler e1 = reset_revents (tcp_handler e)"
    by (rule begin_if_started) auto
  let ?e2 = "e1\<lparr>tcp_handler := ?h\<rparr>"
  note slots = only_message [OF hok k]
  obtain h status where h: "handler_ok h" "same_connections ?h h"
    and handled: "handle_msg (env_indet ?env k) (env_read ?env k) k ?e2 =
      (case received_message (env_read ?env k) of
         None \<Rightarrow> Inr (status, ?e2\<lparr>tcp_handler := h\<rparr>)
       | Some m \<Rightarrow> and_then (client_handle_msg (env_indet ?env k) m k (?e2\<lparr>tcp_handler := h\<rparr>))
           (\<lambda>e1. Inr (SUCCESS, e1)))"
    by (rule handle_msg_cases [of ?e2 "env_indet ?env k" "env_read ?env k" k]) (use hok in auto)
  have inv3: "engine_inv (e1\<lparr>tcp_handler := h\<rparr>)" by (rule engine_inv_handler [OF e1(2) h(1)])
  have iteration: "loop_iteration ?env e = (if gameplay_started e' then summarise_turn e' else Inr e')"
    if run: "client_handle_msg (Position 0 0) m k (e1\<lparr>tcp_handler := h\<rparr>) = Inr e'" for e'
  proof -
    have "poll_descriptors (tcp_handler e') = poll_descriptors ?h"
      using client_handle_msg_polls [OF inv3 run] h(2) by (simp add: same_connections_def)
    then have "for_each (serve_slot ?env) [Suc k..<conn_max] e' = Inr e'"
      using slots(1) [of "tcp_handler e'"] by (intro idle_slots) (simp add: list_all_iff)
    moreover have "for_each (serve_slot ?env) [1..<k] ?e2 = Inr ?e2"
      using slots(1) [of ?h] k by (intro idle_slots) (simp add: list_all_iff)
    moreover have "serve_slot ?env k ?e2 = Inr e'"
      using handled msg run slots(1) [OF refl k(2)]
      by (simp add: serve_slot_def message_on_def report_msg_status_def)
    moreover have "[1..<conn_max] = [1..<k] @ k # [Suc k..<conn_max]"
      using k upt_add_eq_append [of 1 k "conn_max - k"] upt_conv_Cons [of k conn_max] by simp
    ultimately have "serve_clients ?env ?e2 = Inr e'"
      using slots(2) [of ?h bytes 0] by (simp add: serve_clients_def for_each_append conn_max_def)
    moreover have "env_poll ?env = 1" "\<not> env_interrupted ?env" by (simp_all add: message_on_def)
    ultimately show ?thesis
      unfolding loop_iteration_def Let_def e1(1) and_then.simps e1(3) by simp
  qed
  moreover have "same_traffic (tcp_handler e) h"
    using same_traffic_trans [OF same_traffic_poll(1) [OF hok]
      same_traffic_trans [OF same_traffic_poll(2) same_traffic_connections [OF h(2)]]] hok by simp
  ultimately show ?thesis using that [OF _ e1(2) h(1)] e1(1) by simp
qed

text \<open>The same for a join, which finds the address of its slot.\<close>

lemma join_served:
  assumes idle: "idle_inv e" and lobby: "\<not> gameplay_started e"
    and k: "0 < k" "k < conn_max" "slot_fd (tcp_handler e) k \<noteq> -1"
    and msg: "received_message (Read_bytes bytes) = Some (Join_msg name)"
  obtains h address where "handler_ok h" "same_traffic (tcp_handler e) h" "map_of (addresses (tcp_handler e)) k = Some address"
    "Suc (length (players e)) \<noteq> unat (players_count (game_params e)) \<longrightarrow>
      loop_iteration (message_on k bytes) e = Inr (joined name address k (e\<lparr>tcp_handler := h\<rparr>))"
    "\<forall>e'. Suc (length (players e)) = unat (players_count (game_params e))
      \<and> start_gameplay (joined name address k (e\<lparr>tcp_handler := h\<rparr>)) = Inr e' \<and> gameplay_started e' \<longrightarrow>
      loop_iteration (message_on k bytes) e = summarise_turn e'"
proof -
  have inv: "engine_inv e" and hok: "handler_ok (tcp_handler e)"
    using idle by (simp_all add: idle_inv_def engine_inv_def tables_ok_def)
  obtain h where h: "handler_ok h" "same_traffic (tcp_handler e) h"
    and served: "\<forall>e'. client_handle_msg (Position 0 0) (Join_msg name) k (e\<lparr>tcp_handler := h\<rparr>) = Inr e' \<longrightarrow>
      loop_iteration (message_on k bytes) e = (if gameplay_started e' then summarise_turn e' else Inr e')"
    by (rule message_served [OF idle k msg]) (use lobby in auto)
  let ?e = "e\<lparr>tcp_handler := h\<rparr>"
  from hok k have "k \<in> keys (addresses (tcp_handler e))" by (simp add: handler_ok_def)
  then obtain address where address: "map_of (addresses (tcp_handler e)) k = Some address" by (auto simp: in_keys_iff)
  then have there: "map_of (addresses (tcp_handler ?e)) k = Some address" using h(2) by (simp add: same_traffic_def)
  have "length (players (joined name address k ?e)) = Suc (length (players e))"
    using lobby_join_tables(2) [OF engine_inv_handler [OF inv h(1)]] lobby by simp
  with join_handle_msg_lobby [OF _ there, of name] served lobby that [OF h address] show ?thesis by simp
qed

text \<open>The iteration in which the last player joins starts the game.\<close>

lemma last_join_starts:
  assumes idle: "idle_inv e" and lobby: "\<not> gameplay_started e"
    and last: "Suc (length (players e)) = unat (players_count (game_params e))"
    and k: "0 < k" "k < conn_max" "slot_fd (tcp_handler e) k \<noteq> -1"
    and msg: "received_message (Read_bytes bytes) = Some (Join_msg name)"
    and "game_length (game_params e) \<noteq> 0"
  shows "\<exists>e'. loop_iteration (message_on k bytes) e = Inr e' \<and> idle_inv e' \<and> gameplay_started e'
    \<and> current_turn e' = 0 \<and> game_params e' = game_params e"
proof -
  have inv: "engine_inv e" using idle by (simp add: idle_inv_def)
  obtain h address where h: "handler_ok h" and served: "\<forall>e'. Suc (length (players e)) = unat (players_count (game_params e))
      \<and> start_gameplay (joined name address k (e\<lparr>tcp_handler := h\<rparr>)) = Inr e' \<and> gameplay_started e' \<longrightarrow>
      loop_iteration (message_on k bytes) e = summarise_turn e'"
    by (rule join_served [OF idle lobby k msg])
  let ?e = "e\<lparr>tcp_handler := h\<rparr>"
  have inv3: "engine_inv ?e" by (rule engine_inv_handler [OF inv h])
  have "players_positions ?e = []" "turns ?e = []" "current_turn ?e = 0" "bombs ?e = []" "blocks_positions ?e = Leaf"
    using inv lobby by (simp_all add: engine_inv_def lobby_ok_def)
  moreover have "length (players (joined name address k ?e)) = unat (players_count (game_params ?e))"
    using lobby_join_tables(2) [OF inv3] lobby last by simp
  ultimately obtain e5 where e5: "start_gameplay (joined name address k ?e) = Inr e5" "engine_inv e5" "gameplay_started e5"
      "game_params e5 = game_params e" "current_turn e5 = 0"
    using start_gameplay_ok [OF joined_tables [OF inv3], of name address k] by auto
  with served last have "loop_iteration (message_on k bytes) e = summarise_turn e5" by blast
  with summarise_if_started [OF e5(2)] e5 assms(8) show ?thesis by auto
qed

end
