(* ===== verification/Client_Inv.thy ===== *)
theory Client_Inv
  imports Replay
begin

text \<open>
  The invariant of the client's state, kept by every round of either thread whatever bytes arrive, and
  the rounds that cannot end the client.
\<close>

subsection \<open>The invariant\<close>

definition game_ok :: "game_info \<Rightarrow> bool" where
  "game_ok g \<longleftrightarrow> map_ok (gi_players g) \<and> map_ok (gi_player_positions g) \<and> map_ok (gi_bombs g)
     \<and> map_ok (gi_scores g) \<and> keys (gi_players g) \<subseteq> keys (gi_scores g) \<and> gi_explosions g = Leaf"

definition client_inv :: "client \<Rightarrow> bool" where
  "client_inv c \<longleftrightarrow> game_ok (game c) \<and> map_ok (li_players (lobby c)) \<and> known_scores c = []
     \<and> length (buf_udp c) = 256 \<and> buf_udp_pos c \<le> 2"

lemma client_inv_new: "client_inv (new_client name chunks indet_bytes)"
  by (simp add: client_inv_def new_client_def game_ok_def new_lobby_info_def)

lemma client_inv_rd [simp]: "client_inv (c\<lparr>rd := r\<rparr>) = client_inv c"
  by (simp add: client_inv_def)

lemma client_inv_sent [simp]:
  "client_inv (c\<lparr>to_gui := ms\<rparr>) = client_inv c" "client_inv (c\<lparr>to_server := ms\<rparr>) = client_inv c"
  "client_inv (c\<lparr>is_lobby_status := s\<rparr>) = client_inv c"
  by (simp_all add: client_inv_def)

lemma client_inv_game: "client_inv c \<Longrightarrow> game_ok g \<Longrightarrow> client_inv (c\<lparr>game := g\<rparr>)"
  by (simp add: client_inv_def)

lemma client_inv_lobby: "client_inv c \<Longrightarrow> map_ok (li_players l) \<Longrightarrow> client_inv (c\<lparr>lobby := l\<rparr>)"
  by (simp add: client_inv_def)

lemma client_invD: "client_inv c \<Longrightarrow> game_ok (game c)" "client_inv c \<Longrightarrow> map_ok (li_players (lobby c))"
  by (simp_all add: client_inv_def)

subsection \<open>Operations on the game\<close>

lemma game_ok_ops [inv_intros]:
  "game_ok g \<Longrightarrow> game_ok (add_bomb i pos g)" "game_ok g \<Longrightarrow> game_ok (remove_bomb i g)"
  "game_ok g \<Longrightarrow> game_ok (add_block pos g)" "game_ok g \<Longrightarrow> game_ok (remove_block pos g)"
  "game_ok g \<Longrightarrow> game_ok (change_player_position j pos g)" "game_ok g \<Longrightarrow> game_ok (new_turn t g)"
  by (simp_all add: game_ok_def add_bomb_def remove_bomb_def add_block_def remove_block_def
      change_player_position_def new_turn_def)

lemma game_ok_remove_blocks [inv_intros]: "game_ok g \<Longrightarrow> game_ok (fold remove_block ps g)"
  by (induction ps arbitrary: g) (simp_all add: game_ok_ops)

lemma destroy_player_ok:
  assumes "game_ok g" and "i \<in> keys (gi_scores g)"
  shows "\<exists>g'. destroy_player i g = Inr g' \<and> game_ok g' \<and> keys (gi_scores g') = keys (gi_scores g)"
  using assms by (auto simp: in_keys_iff [of i] destroy_player_def game_ok_def)

lemma destroy_player_keeps: "game_ok g \<Longrightarrow> destroy_player i g = Inr g' \<Longrightarrow> game_ok g'"
  by (auto simp: destroy_player_def game_ok_def)

text \<open>The scores of the new game: one entry per player, as no score is known before.\<close>

lemma add_missing_scores_ok:
  "map_ok sc \<Longrightarrow> map_ok (add_missing_scores ps sc)
     \<and> keys (add_missing_scores ps sc) = keys sc \<union> keys ps"
proof (induction ps arbitrary: sc)
  case (Cons p ps)
  have "add_missing_scores (p # ps) sc = add_missing_scores ps (map_insert (fst p) 0 sc)"
    by (simp add: add_missing_scores_def map_count_def map_insert_def)
  moreover have "map_ok (map_insert (fst p) 0 sc)" using Cons.prems by simp
  ultimately show ?case using Cons.IH [of "map_insert (fst p) 0 sc"] by (cases p) auto
qed (simp add: add_missing_scores_def)

lemma new_game_info_ok:
  assumes "map_ok ps"
  shows "\<exists>g. new_game_info t name x y len ps tm [] = Inr g \<and> game_ok g \<and> keys (gi_scores g) = keys ps"
  using add_missing_scores_ok [of "[]" ps] assms by (simp add: new_game_info_def game_ok_def)

subsection \<open>Every round keeps the invariant\<close>

text \<open>A result, if there is one, has the property.\<close>

definition holds :: "('a \<Rightarrow> bool) \<Rightarrow> 'a res \<Rightarrow> bool" where
  "holds P m \<longleftrightarrow> (\<forall>x. m = Inr x \<longrightarrow> P x)"

lemma holds_Inr [inv_intros]: "P x \<Longrightarrow> holds P (Inr x)"
  and holds_Inl [inv_intros]: "holds P (Inl e)"
  by (simp_all add: holds_def)

lemma holds_then: "holds P m \<Longrightarrow> (\<And>x. P x \<Longrightarrow> holds Q (f x)) \<Longrightarrow> holds Q (and_then m f)"
  by (auto simp: holds_def)

lemma holds_for_each:
  "P s \<Longrightarrow> (\<And>x s. P s \<Longrightarrow> holds P (f x s)) \<Longrightarrow> holds P (for_each f xs s)"
  unfolding holds_def by (metis for_each_invariant)

lemma holds_receive [inv_intros]:
  "client_inv c \<Longrightarrow> (\<And>a c. client_inv c \<Longrightarrow> holds client_inv (k a c)) \<Longrightarrow> holds client_inv (receive m k c)"
  unfolding receive_def by (cases "m (rd c)") (auto simp: holds_Inl)

lemma holds_send [inv_intros]:
  "client_inv c \<Longrightarrow> holds client_inv (send_gui_message sent msg c)"
  "client_inv c \<Longrightarrow> holds client_inv (send_server_message sent msg c)"
  by (simp_all add: holds_def send_gui_message_def send_server_message_def)

lemma client_inv_set_game [inv_intros]:
  "client_inv c \<Longrightarrow> (\<And>g. game_ok g \<Longrightarrow> game_ok (f g)) \<Longrightarrow> client_inv (set_game f c)"
  by (simp add: set_game_def client_inv_def)

lemma holds_destroy: "client_inv c \<Longrightarrow> holds client_inv (destroy_robot r c)"
  by (auto simp: holds_def destroy_robot_def intro: client_inv_game destroy_player_keeps dest: client_invD)

lemma holds_read_event: "client_inv c \<Longrightarrow> holds client_inv (read_event c)"
  unfolding read_event_def read_bomb_placed_def read_bomb_exploded_def read_player_moved_def
    read_block_placed_def
  by (auto intro!: inv_intros holds_then [OF holds_for_each] holds_destroy split: option.split event_code.split)

lemma holds_events: "client_inv c \<Longrightarrow> holds client_inv (read_event_list c)"
  unfolding read_event_list_def by (auto intro!: inv_intros holds_for_each holds_read_event)

lemma map_ok_add_player: "map_ok (li_players l) \<Longrightarrow> map_ok (li_players (add_player i p l))"
  by (simp add: add_player_def)

lemma holds_hello: "client_inv c \<Longrightarrow> holds client_inv (handle_hello_msg sent c)"
  unfolding handle_hello_msg_def read_hello_def
  by (auto intro!: holds_then [where P = client_inv] inv_intros client_inv_lobby simp: new_lobby_info_def)

lemma holds_accepted: "client_inv c \<Longrightarrow> holds client_inv (handle_accepted_player_msg sent c)"
  unfolding handle_accepted_player_msg_def read_accepted_player_def
  by (auto intro!: holds_then [where P = client_inv] inv_intros client_inv_lobby map_ok_add_player
      dest: client_invD)

lemma holds_started: "client_inv c \<Longrightarrow> holds client_inv (handle_game_started_msg t c)"
  unfolding handle_game_started_msg_def read_game_started_def
  using new_game_info_ok [of "li_players (lobby c)" t "li_server_name (lobby c)" "li_size_x (lobby c)"
      "li_size_y (lobby c)" "li_game_length (lobby c)" "li_bomb_timer (lobby c)"]
  by (auto intro!: holds_then [where P = client_inv] inv_intros client_inv_game simp: client_inv_def)

lemma holds_turn: "client_inv c \<Longrightarrow> holds client_inv (handle_turn_message sent c)"
  unfolding handle_turn_message_def read_turn_def
  by (auto intro!: holds_then [where P = client_inv] inv_intros holds_events)

lemma holds_ended: "client_inv c \<Longrightarrow> holds client_inv (handle_game_ended_msg sent c)"
  unfolding handle_game_ended_msg_def read_game_ended_def Let_def
  by (auto intro!: holds_then [where P = client_inv] inv_intros client_inv_lobby simp: clear_players_def)

lemma holds_server_message: "client_inv c \<Longrightarrow> holds client_inv (handle_server_message t sent c)"
  unfolding handle_server_message_def
  by (auto intro!: inv_intros holds_hello holds_accepted holds_started holds_turn holds_ended
      split: option.split server_message_code.split)

lemma receive_udp_ok:
  "client_inv c \<Longrightarrow> client_inv (receive_udp d c) \<and> buf_udp_pos (receive_udp d c) = 0"
  by (auto simp: receive_udp_def client_inv_def Let_def)

lemma read_uint8_udp_ok:
  "client_inv c \<Longrightarrow> buf_udp_pos c \<le> 1 \<Longrightarrow> client_inv (snd (read_uint8_udp c))"
  by (simp add: read_uint8_udp_def client_inv_def)

lemma holds_gui_message: 
  assumes "client_inv c"
  shows "holds client_inv (handle_gui_message received written c)"
proof (cases received)
  case None
  then show ?thesis by (simp add: handle_gui_message_def holds_Inl)
next
  case (Some d)
  obtain code c1 where c1: "read_uint8_udp (receive_udp d c) = (code, c1)" by fastforce
  obtain dir c2 where c2: "read_uint8_udp c1 = (dir, c2)" by fastforce
  have "client_inv c1 \<and> buf_udp_pos c1 = 1"
    using c1 receive_udp_ok [OF assms, of d] read_uint8_udp_ok [of "receive_udp d c"]
    by (auto simp: read_uint8_udp_def)
  then have ok: "client_inv c1" "client_inv c2" using c2 read_uint8_udp_ok [of c1] by simp_all
  show ?thesis
    unfolding handle_gui_message_def Some option.case Let_def c1 c2 prod.case
    by (simp add: holds_send holds_Inr ok split: option.split input_message_code.split)
qed

lemma holds_client_step: "client_inv c \<Longrightarrow> holds client_inv (client_step i c)"
  by (cases i) (simp_all add: holds_server_message holds_gui_message)

subsection \<open>Rounds that cannot end the client\<close>

text \<open>A message fits when every robot it destroys has a score.\<close>

fun event_fits :: "game_info \<Rightarrow> event \<Rightarrow> bool" where
  "event_fits g (Bomb_exploded_event i robots blocks) \<longleftrightarrow> set robots \<subseteq> keys (gi_scores g)"
| "event_fits g _ \<longleftrightarrow> True"

fun message_fits :: "client \<Rightarrow> server_message \<Rightarrow> bool" where
  "message_fits c (Turn_message t) \<longleftrightarrow> list_all (event_fits (game c)) (events t)"
| "message_fits c _ \<longleftrightarrow> True"

fun client_safe :: "client_input \<Rightarrow> client \<Rightarrow> bool" where
  "client_safe (From_server t sent) c \<longleftrightarrow> sent \<and>
     (\<exists>r m rest. read_if_buf_empty (rd c) = Inr r \<and> cur_buf r = message_bytes m @ rest
        \<and> message_ok m \<and> message_fits c m)"
| "client_safe (From_gui received written) c \<longleftrightarrow> received \<noteq> None \<and> written"

lemma apply_event_total:
  assumes "game_ok g" and "event_fits g ev"
  shows "\<exists>g'. apply_event ev g = Inr g' \<and> game_ok g' \<and> keys (gi_scores g') = keys (gi_scores g)"
proof (cases ev)
  case (Bomb_exploded_event i robots blocks)
  let ?rs = "fold (set_insert (<)) robots Leaf" and ?g = "remove_bomb i g"
  have "set (inorder ?rs) = set robots"
    using elems_fold_insert [of Leaf robots] by (simp add: elems_def)
  then have sub: "\<forall>r \<in> set (inorder ?rs). r \<in> keys (gi_scores g)"
    using assms(2) Bomb_exploded_event by auto
  have start: "game_ok ?g \<and> keys (gi_scores ?g) = keys (gi_scores g)"
    using assms(1) game_ok_ops(2) [of g i] by (simp add: remove_bomb_def)
  obtain g1 where g1: "for_each destroy_player (inorder ?rs) ?g = Inr g1"
      "game_ok g1 \<and> keys (gi_scores g1) = keys (gi_scores g)"
    using for_each_total [of "\<lambda>g'. game_ok g' \<and> keys (gi_scores g') = keys (gi_scores g)" ?g
        "inorder ?rs" destroy_player, OF start] destroy_player_ok sub by metis
  have "gi_scores (fold remove_block ps g1) = gi_scores g1" for ps
    by (induction ps arbitrary: g1) (simp_all add: remove_block_def)
  with g1 show ?thesis by (simp add: Bomb_exploded_event game_ok_remove_blocks)
qed (use assms in \<open>simp_all add: game_ok_ops add_bomb_def add_block_def change_player_position_def game_ok_def\<close>)

lemma apply_turn_total:
  assumes "game_ok g" and "list_all (event_fits g) (events t)"
  shows "\<exists>g'. apply_turn t g = Inr g' \<and> game_ok g'"
proof -
  let ?P = "\<lambda>g'. game_ok g' \<and> keys (gi_scores g') = keys (gi_scores g)"
  have "?P (new_turn (turn t) g)" using assms(1) game_ok_ops(6) by (simp add: new_turn_def)
  moreover have "\<exists>s'. apply_event ev s = Inr s' \<and> ?P s'" if "ev \<in> set (events t)" "?P s" for ev s
  proof -
    have "event_fits g ev" using that(1) assms(2) by (simp add: list_all_iff)
    then have "event_fits s ev" using that(2) by (cases ev) simp_all
    with apply_event_total [of s ev] that show ?thesis by auto
  qed
  ultimately have "\<exists>s'. for_each apply_event (events t) (new_turn (turn t) g) = Inr s' \<and> ?P s'"
    by (rule for_each_total)
  then show ?thesis by (auto simp: apply_turn_def)
qed

lemma apply_message_total:
  assumes "client_inv c" and "message_fits c m"
  shows "\<exists>c'. apply_message t True m c = Inr c'"
proof (cases m)
  case (Started_message ps)
  with new_game_info_ok [of "li_players (lobby c)" t] assms(1) show ?thesis
    by (fastforce simp: client_inv_def)
next
  case (Turn_message ti)
  with apply_turn_total [of "game c" ti] assms show ?thesis
    by (auto simp: client_inv_def send_gui_message_def)
qed (simp_all add: send_gui_message_def Let_def)

lemma client_step_progress:
  assumes inv: "client_inv c" and safe: "client_safe i c"
  shows "\<exists>c'. client_step i c = Inr c'"
proof (cases i)
  case (From_server t sent)
  with safe obtain r m rest where r: "read_if_buf_empty (rd c) = Inr r" "cur_buf r = message_bytes m @ rest"
      "message_ok m" "message_fits c m" "sent"
    by auto
  let ?c = "advance rest (c\<lparr>rd := r\<rparr>)"
  have "client_inv ?c" "message_fits ?c m"
    using inv r(4) by (cases m; simp add: advance_def)+
  with handle_front [OF r(1-3)] apply_message_total [of ?c m t] r(5) From_server show ?thesis by simp
next
  case (From_gui received written)
  with safe obtain d where "received = Some d" "written" by auto
  with From_gui show ?thesis
    by (simp add: handle_gui_message_def send_server_message_def Let_def split_beta
        split: option.split input_message_code.split)
qed

interpretation client: faulting_loop client_step client_inv client_safe
  by unfold_locales (use holds_client_step client_step_progress in \<open>auto simp: holds_def\<close>)

text \<open>Every state a client can get to has the invariant.\<close>

lemma client_reaches_inv: "client_reaches c c' \<Longrightarrow> client_inv c \<Longrightarrow> client_inv c'"
  by (induction rule: client_reaches.induct) (auto dest: client.keeps)

end
