(* ===== verification/Dialogue.thy ===== *)
theory Dialogue
  imports Client_Inv Rounds
begin

text \<open>
  The two programs together: what the server decodes from the bytes the client's writers produce, one
  message or several in one read, and what a datagram of the GUI makes the server do.
\<close>

fun client_bytes :: "client_message \<Rightarrow> byte list" where
  "client_bytes (Join_msg name) = join_message name"
| "client_bytes Place_bomb_msg = place_bomb_message"
| "client_bytes Place_block_msg = place_block_message"
| "client_bytes (Move_msg d) = move_message d"

text \<open>Names that fit the length byte, directions that are the value of some byte.\<close>

fun sendable :: "client_message \<Rightarrow> bool" where
  "sendable (Join_msg name) = str_ok name"
| "sendable (Move_msg d) = (direction_of_byte (direction_code d) = d)"
| "sendable m = True"

lemma client_bytes_not_Nil: "client_bytes m \<noteq> []"
  by (cases m) (simp_all add: join_message_def place_bomb_message_def place_block_message_def move_message_def)

lemma decode_client_bytes:
  assumes "sendable m"
  shows "decode_one (client_bytes m @ rest) = Some (m, rest)"
proof (cases m)
  case (Join_msg name)
  with assms have "unat (of_nat (length name) :: u8) = length name"
    by (simp add: str_ok_def unat_of_nat_small)
  with Join_msg show ?thesis
    by (simp add: join_message_def string_to_bytes_def del: client_code.simps)
qed (use assms in \<open>simp_all add: place_bomb_message_def place_block_message_def move_message_def
       del: client_code.simps\<close>)

text \<open>Several messages in one read: each is decoded, the last one is kept.\<close>

lemma decode_all_client_bytes:
  "list_all sendable ms \<Longrightarrow> ms \<noteq> [] \<Longrightarrow> decode_last (concat (map client_bytes ms)) = Some (last ms)"
proof (induction ms)
  case (Cons m ms)
  have concat: "concat (map client_bytes ms) = [] \<longleftrightarrow> ms = []"
    using client_bytes_not_Nil by (cases ms) auto
  have "decode_one (client_bytes m @ concat (map client_bytes ms)) = Some (m, concat (map client_bytes ms))"
    using Cons.prems(1) by (simp add: decode_client_bytes)
  with Cons concat show ?case by (simp add: decode_last.simps [of "client_bytes m @ _"])
qed simp

text \<open>A malformed tail spoils the whole read: nothing of it is executed.\<close>

lemma decode_bad_tail:
  assumes "list_all sendable ms" and "bad \<noteq> []" and "decode_last bad = None"
  shows "decode_last (concat (map client_bytes ms) @ bad) = None"
  using assms(1)
proof (induction ms)
  case (Cons m ms)
  have "decode_one (client_bytes m @ concat (map client_bytes ms) @ bad) =
      Some (m, concat (map client_bytes ms) @ bad)"
    using Cons.prems by (simp add: decode_client_bytes)
  with Cons assms(2) show ?case by (simp add: decode_last.simps [of "client_bytes m @ _"])
qed (simp add: assms(3))

subsection \<open>The GUI's requests\<close>

text \<open>The request in a datagram: a first byte that is an input code, and, for a move, the direction after it.\<close>

fun request :: "bool \<Rightarrow> cstring \<Rightarrow> input_message_code \<Rightarrow> u8 \<Rightarrow> client_message" where
  "request True name code d = Join_msg name"
| "request False name Place_bomb d = Place_bomb_msg"
| "request False name Place_block d = Place_block_msg"
| "request False name Move d = Move_msg (direction_of_byte d)"

text \<open>
  The byte after the code. When the datagram has one byte only, as the requests without direction have, it is what the
  buffer held there, of an earlier datagram.
\<close>

definition direction_byte :: "client \<Rightarrow> byte list \<Rightarrow> u8" where
  "direction_byte c tail = (case tail of [] \<Rightarrow> buf_udp c ! 1 | d # rest \<Rightarrow> d)"

lemma handle_gui_request:
  assumes "client_inv c" and "bytes = input_code code # tail" and "length bytes \<le> 256"
  shows "\<exists>c'. handle_gui_message (Some bytes) True c = Inr c'
    \<and> to_server c' = to_server c @ [client_bytes (request (is_lobby_status c) (param_name c) code (direction_byte c tail))]"
proof -
  let ?c = "receive_udp bytes c"
  have buf: "buf_udp ?c ! 0 = input_code code" "buf_udp ?c ! 1 = direction_byte c tail"
    using assms
    by (cases tail; simp add: receive_udp_def Let_def nth_append direction_byte_def client_inv_def del: input_code.simps)+
  have c: "buf_udp_pos ?c = 0" "is_lobby_status ?c = is_lobby_status c" "param_name ?c = param_name c"
      "to_server ?c = to_server c"
    by (simp_all add: receive_udp_def Let_def)
  show ?thesis
    using c buf
    by (cases code; cases "is_lobby_status c")
      (simp_all add: handle_gui_message_def read_uint8_udp_def send_server_message_def Let_def
        del: input_code.simps)
qed

lemma request_sendable: "str_ok name \<Longrightarrow> sendable (request in_lobby name code d)"
  by (cases in_lobby; cases code) simp_all

end
