(* ===== verification/Request.thy ===== *)
theory Request
  imports Turns One_Message Dialogue
begin

text \<open>A request of the GUI from end to end: the bomb it asks for is placed in the turn, and explodes in time.\<close>

lemma add_to_last_turn:
  assumes "turns e = ts @ [Turn_info n evs]" and "unat t = length ts"
  shows "add_turn_event t ev e = Inr (e\<lparr>turns := ts @ [Turn_info n (evs @ [ev])]\<rparr>)"
  using assms by (simp add: add_turn_event_def add_event_def)

lemma acting_player_handler [simp]: "acting_player i (e\<lparr>tcp_handler := h\<rparr>) = acting_player i e"
  by (simp add: acting_player_def cong: option.case_cong)

text \<open>The player of the slot \<open>k\<close>, who is not struck by the bombs of the turn that begins.\<close>

definition unharmed :: "game_engine \<Rightarrow> nat \<Rightarrow> player_id \<Rightarrow> bool" where
  "unharmed e k p \<longleftrightarrow> map_of (player_ids e) k = Some p
     \<and> list_all (\<lambda>b. p \<notin> set (robots_hit e (snd b))) (expiring (bombs e))"

lemma unharmed_acts:
  assumes idle: "idle_inv e" and started: "gameplay_started e" and h: "handler_ok h"
    and run: "begin_turn (e\<lparr>tcp_handler := h\<rparr>) = Inr e1" and inv: "engine_inv e1" and p: "unharmed e k p"
  shows "acting_player k e1 = Some p"
proof -
  note begun = turn_begun [OF idle started h run]
  have "p \<notin> elems (current_players_to_destroy e1)"
    using p by (auto simp: begun(3) unharmed_def list_all_iff)
  moreover have "set_ok (current_players_to_destroy e1)" using inv by (simp add: engine_inv_defs)
  ultimately have "set_count (<) (current_players_to_destroy e1) p \<noteq> 1"
    using ord.cnt_iff by blast
  with p show ?thesis by (simp add: acting_player_def begun(5) unharmed_def)
qed

lemma bomb_request_served:
  assumes idle: "idle_inv e" and started: "gameplay_started e"
    and k: "0 < k" "k < conn_max" "slot_fd (tcp_handler e) k \<noteq> -1" and p: "unharmed e k p"
    and pos: "map_of (players_positions e) p = Some pos" and fresh: "next_bomb_id e \<notin> keys (bombs e)"
    and left: "Suc (unat (current_turn e)) < unat (game_length (game_params e))"
    and msg: "received_message (Read_bytes bytes) = Some Place_bomb_msg"
  shows "\<exists>e'. loop_iteration (message_on k bytes) e = Inr e'
    \<and> turn_added e (explosions_of e @ [Bomb_placed_event (next_bomb_id e) pos])
        [(next_bomb_id e, Bomb pos (bomb_timer (game_params e)))] e'"
proof -
  let ?bomb = "(next_bomb_id e, Bomb pos (bomb_timer (game_params e)))"
  let ?placed = "Bomb_placed_event (next_bomb_id e) pos"
  have hok: "handler_ok (reset_revents (tcp_handler e))" using idle by (simp add: idle_inv_def engine_inv_defs)
  obtain e1 h where run: "begin_turn (e\<lparr>tcp_handler := reset_revents (tcp_handler e)\<rparr>) = Inr e1"
    and inv1: "engine_inv e1" and h: "handler_ok h" and served: "\<forall>e'.
      client_handle_msg (Position 0 0) Place_bomb_msg k (e1\<lparr>tcp_handler := h\<rparr>) = Inr e' \<longrightarrow>
      loop_iteration (message_on k bytes) e = (if gameplay_started e' then summarise_turn e' else Inr e')"
    by (rule message_served [OF idle k msg]) (use started in auto)
  let ?e2 = "e1\<lparr>tcp_handler := h\<rparr>"
  note begun = turn_begun [OF idle started hok run]
  have inv2: "engine_inv ?e2" by (rule engine_inv_handler [OF inv1 h])
  have started2: "gameplay_started ?e2" using begun(9) by simp
  have acting: "acting_player k ?e2 = Some p"
    using unharmed_acts [OF idle started hok run inv1 p] by simp
  let ?e3 = "?e2\<lparr>next_bomb_id := next_bomb_id e + 1, bombs := map_insert (fst ?bomb) (snd ?bomb) (bombs_left e),
    turns := turns e @ [Turn_info (current_turn e + 1) (explosions_of e @ [?placed])]\<rparr>"
  have place: "place_bomb_handle_msg k ?e2 = Inr ?e3"
  proof -
    have "unat (current_turn e + 1) = length (turns e)" using turns_length [OF inv2 started2] by (simp add: begun)
    note add = add_to_last_turn [OF _ this, of _ "current_turn e + 1" "explosions_of e"]
    show ?thesis using acting pos by (simp add: place_bomb_handle_msg_def Let_def begun add)
  qed
  have inv3: "engine_inv ?e3" using place_bomb_ok [OF inv2 started2, of k] place by auto
  have "fst ?bomb \<notin> keys (bombs_left e)" using fresh by (force simp: bombs_left_def tick_def keys_def)
  moreover have "map_ok (bombs_left e)" using inv1 begun(2) by (simp add: engine_inv_defs)
  ultimately have "map_of (bombs ?e3) (fst ?bomb) = Some (snd ?bomb)" by simp
  then have "?bomb \<in> set (bombs ?e3)" using map_of_SomeD by fastforce
  then have in_turn: "in_turn_of e (explosions_of e @ [?placed]) [?bomb] ?e3"
    by (simp add: in_turn_of_def last_events_def begun)
  obtain e' where e': "loop_iteration (message_on k bytes) e = Inr e'"
    using loop_iteration_ok [OF idle safe_while_started [OF started, of "message_on k bytes"]]
    by (auto simp: message_on_def)
  have "summarise_turn ?e3 = Inr e'" using served place started2 e' by simp
  moreover have "gameplay_started e'" by (rule iteration_goes_on(2) [OF idle started e' left])
  ultimately have "turn_added e (explosions_of e @ [?placed]) [?bomb] e'" by (rule in_turn_end [OF inv3 in_turn])
  with e' show ?thesis by blast
qed

text \<open>With the turns that follow, up to the explosion.\<close>

lemma requested_bomb_explodes:
  assumes idle: "idle_inv e" and started: "gameplay_started e"
    and k: "0 < k" "k < conn_max" "slot_fd (tcp_handler e) k \<noteq> -1" and p: "unharmed e k p"
    and pos: "map_of (players_positions e) p = Some pos" and fresh: "next_bomb_id e \<notin> keys (bombs e)"
    and msg: "received_message (Read_bytes bytes) = Some Place_bomb_msg"
    and timer: "bomb_timer (game_params e) \<noteq> 0" "length envs = unat (bomb_timer (game_params e))"
    and polls: "list_all (\<lambda>env. env_poll env \<noteq> -1) envs"
    and left: "Suc (unat (current_turn e) + length envs) < unat (game_length (game_params e))"
  shows "\<exists>e1 e2 more earlier t. loop_iteration (message_on k bytes) e = Inr e1
    \<and> turns e1 = turns e @ [Turn_info (current_turn e + 1) (explosions_of e @ Bomb_placed_event (next_bomb_id e) pos # more)]
    \<and> for_each loop_iteration envs e1 = Inr e2 \<and> turns e2 = turns e1 @ earlier @ [t]
    \<and> Suc (length earlier) = unat (bomb_timer (game_params e)) \<and> explodes_in (next_bomb_id e) t
    \<and> list_all (\<lambda>t. \<not> explodes_in (next_bomb_id e) t) earlier"
proof -
  let ?b = "Bomb pos (bomb_timer (game_params e))"
  have left1: "Suc (unat (current_turn e)) < unat (game_length (game_params e))" using left by simp
  obtain e1 where e1: "loop_iteration (message_on k bytes) e = Inr e1"
    and added: "turn_added e (explosions_of e @ [Bomb_placed_event (next_bomb_id e) pos]) [(next_bomb_id e, ?b)] e1"
    using bomb_request_served [OF idle started k p pos fresh left1 msg] by blast
  note on = iteration_goes_on [OF idle started e1 left1]
  have b: "(next_bomb_id e, ?b) \<in> set (bombs e1)" using added by (simp add: turn_added_def)
  have now: "unat (current_turn e1) + length envs < unat (game_length (game_params e1))" using on(3,4) left by simp
  obtain e2 where e2: "for_each loop_iteration envs e1 = Inr e2" using game_goes_on [OF on(1,2) polls now] by blast
  have "timer ?b \<noteq> 0" "length envs = unat (timer ?b)" using timer by simp_all
  from bomb_explodes [OF on(1,2) b this now e2] e1 e2 added show ?thesis
    by (auto simp: turn_added_def)
qed

end
