(* ===== verification/Samples.thy ===== *)
theory Samples
  imports In_Step Request
begin

text \<open>
  Concrete configurations and states: a server with two players on a five by five board, in the lobby
  and in a game, and a client. They satisfy the invariants, and serve as instances of the theorems.
\<close>

definition sample_params :: server_parameters where
  "sample_params = \<lparr>bomb_timer = 2, players_count = 2, turn_duration = 100, explosion_radius = 2,
     initial_blocks = 1, game_length = 2, server_name = [115], port = 2022, seed = 7, size_x = 5, size_y = 5\<rparr>"

definition sample_handler :: server_tcp_handler where
  "sample_handler = \<lparr>buf = replicate 256 0, buf_pos = 0, buf_length = 0, listen_port = 2022,
     active_clients = 2,
     poll_descriptors = [\<lparr>fd = 3, revents = 0\<rparr>, \<lparr>fd = 4, revents = 1\<rparr>, \<lparr>fd = 5, revents = 0\<rparr>]
       @ replicate 23 \<lparr>fd = -1, revents = 0\<rparr>,
     addresses = [(1, [97]), (2, [98])], wire = [], closed_fds = []\<rparr>"

definition sample_lobby :: game_engine where
  "sample_lobby = (new_game_engine sample_params sample_handler)\<lparr>
     players := [(0, Player [65] [97])], scores := [(0, 0)], player_ids := [(1, 0)], next_player_id := 1\<rparr>"

definition sample_game :: game_engine where
  "sample_game = (new_game_engine sample_params sample_handler)\<lparr>
     gameplay_started := True,
     players := [(0, Player [65] [97]), (1, Player [66] [98])], scores := [(0, 0), (1, 0)],
     players_positions := [(0, Position 1 1), (1, Position 2 1)],
     blocks_positions := Node Black Leaf (Position 1 3) Leaf, player_ids := [(1, 0), (2, 1)], next_player_id := 2,
     bombs := [(0, Bomb (Position 1 1) 1)], next_bomb_id := 1, turns := [new_turn_info 0]\<rparr>"

lemma config_ok_sample: "config_ok sample_params"
  by (simp add: config_ok_def sample_params_def)

lemma slot_fd_sample: "i < conn_max \<Longrightarrow>
    slot_fd sample_handler i = (if i = 0 then 3 else if i = 1 then 4 else if i = 2 then 5 else -1)"
  by (auto simp: slot_fd_def sample_handler_def conn_max_def nth_append nth_Cons split: nat.splits)

lemma handler_ok_sample: "handler_ok sample_handler"
proof -
  have "i \<in> keys (addresses sample_handler)" if "0 < i" "i < conn_max" "slot_fd sample_handler i \<noteq> -1" for i
    using that slot_fd_sample [OF that(2)] by (auto simp: sample_handler_def split: if_splits)
  then show ?thesis
    by (auto simp: handler_ok_def buffer_ok_def sample_handler_def buf_size_def conn_max_def)
qed

lemma engine_inv_sample_lobby: "engine_inv sample_lobby"
  using config_ok_sample handler_ok_sample
  by (simp add: engine_inv_defs sample_lobby_def new_game_engine_def random_ok_new)
    (auto simp: sample_params_def)

lemma idle_inv_sample_lobby: "idle_inv sample_lobby"
  using engine_inv_sample_lobby by (simp add: idle_inv_def sample_lobby_def new_game_engine_def)

lemma engine_inv_sample_game: "engine_inv sample_game"
  using config_ok_sample handler_ok_sample
  by (simp add: engine_inv_defs sample_game_def new_game_engine_def random_ok_new turns_ok_first)
    (simp add: sample_params_def check_position_def)

lemma idle_inv_sample_game: "idle_inv sample_game"
  using engine_inv_sample_game by (simp add: idle_inv_def sample_game_def new_game_engine_def sample_params_def)

definition quiet_env :: loop_env where
  "quiet_env = \<lparr>env_poll = 0, env_revents = (\<lambda>i. 0), env_interrupted = False, env_interrupted_later = False, env_accept = (-1, [], 0),
     env_read = (\<lambda>i. Read_failed), env_indet = (\<lambda>i. Position 0 0)\<rparr>"

definition sample_client :: client where
  "sample_client = new_client [65] [] (\<lambda>i. 0)"

lemma client_inv_sample: "client_inv sample_client"
  by (simp add: sample_client_def client_inv_new)

text \<open>A server for one player, a game of which begins with a join in slot 1, and a client that knows the players.\<close>

definition solo_params :: server_parameters where
  "solo_params = sample_params\<lparr>players_count := 1\<rparr>"

lemma decode_join: "received_message (Read_bytes [0, 1, 65]) = Some (Join_msg [65])"
  by (simp add: received_message_def buf_size_def decode_last.simps [of "[0, 1, 65]"] code_of_byte_defs)

lemma solo_start:
  "\<exists>e. for_each loop_iteration [message_on 1 [0, 1, 65]] (new_game_engine solo_params sample_handler) = Inr e
    \<and> idle_inv e \<and> gameplay_started e \<and> game_params e = solo_params \<and> current_turn e = 0"
proof -
  let ?e = "new_game_engine solo_params sample_handler"
  have conf: "config_ok solo_params" using config_ok_sample by (simp add: config_ok_def solo_params_def)
  have "idle_inv ?e"
    using engine_inv_new [OF conf handler_ok_sample] by (simp add: idle_inv_def new_game_engine_def)
  moreover have "slot_fd (tcp_handler ?e) 1 \<noteq> -1"
    using slot_fd_sample [of 1] by (simp add: new_game_engine_def conn_max_def)
  ultimately obtain e where "loop_iteration (message_on 1 [0, 1, 65]) ?e = Inr e" "idle_inv e"
      "gameplay_started e" "game_params e = game_params ?e" "current_turn e = 0"
    using last_join_starts [of ?e 1, OF _ _ _ _ _ _ decode_join]
    by (auto simp: new_game_engine_def conn_max_def solo_params_def sample_params_def)
  then show ?thesis by (auto simp: new_game_engine_def)
qed


lemma solo_game:
  obtains e where
    "for_each loop_iteration [message_on 1 [0, 1, 65], quiet_env] (new_game_engine solo_params sample_handler) = Inr e"
    "gameplay_started e" "config_ok solo_params"
proof -
  obtain e0 where e0: "for_each loop_iteration [message_on 1 [0, 1, 65]] (new_game_engine solo_params sample_handler) = Inr e0"
      "idle_inv e0" "gameplay_started e0" "game_params e0 = solo_params" "current_turn e0 = 0"
    using solo_start by blast
  obtain e where "for_each loop_iteration [quiet_env] e0 = Inr e" "gameplay_started e"
    using game_goes_on [OF e0(2,3), of "[quiet_env]"] e0(4,5)
    by (auto simp: quiet_env_def solo_params_def sample_params_def)
  with e0 that show ?thesis
    using config_ok_sample by (auto simp: config_ok_def solo_params_def)
qed

definition spectator :: "game_engine \<Rightarrow> client" where
  "spectator e = sample_client\<lparr>lobby := (new_lobby_info [] 0 0 0 0 0 (bomb_timer (game_params e)))\<lparr>li_players := players e\<rparr>\<rparr>"

lemma spectator_knows: "knows_lobby e (spectator e)"
  by (simp add: knows_lobby_def spectator_def sample_client_def new_client_def new_lobby_info_def)

lemma proper_start_solo: "proper_start solo_params sample_handler"
  using config_ok_sample handler_ok_sample
  by (simp add: proper_start_def config_ok_def solo_params_def sample_params_def str_ok_def sample_handler_def value_ok_def)

text \<open>The client of slot 2, which knows that the lobby is empty.\<close>

definition watcher :: client where
  "watcher = (spectator (new_game_engine solo_params sample_handler))\<lparr>is_lobby_status := True\<rparr>"

lemma watcher_in_step: "in_step [] (new_game_engine solo_params sample_handler) watcher"
  using spectator_knows [of "new_game_engine solo_params sample_handler"]
  by (simp add: in_step_def watcher_def knows_lobby_def new_game_engine_def)

lemma watcher_attached: "attached 2 5 sample_handler"
  using slot_fd_sample by (auto simp: attached_def conn_max_def)

lemma watcher_undisturbed:
  "list_all (\<lambda>env. named_env env \<and> undisturbed 2 5 env) [message_on 1 [0, 1, 65], quiet_env]"
  by (simp add: named_env_def undisturbed_def has_event_def new_connection_def message_on_def quiet_env_def)

text \<open>The same client, when the lobby is for two players and one joins.\<close>

lemma proper_start_sample: "proper_start sample_params sample_handler"
  using config_ok_sample handler_ok_sample
  by (simp add: proper_start_def config_ok_def sample_params_def str_ok_def sample_handler_def value_ok_def)

lemma watcher_in_step_of_two: "in_step [] (new_game_engine sample_params sample_handler) watcher"
  using watcher_in_step by (simp add: in_step_def knows_lobby_def new_game_engine_def solo_params_def)

lemma first_join:
  obtains e where "loop_iteration (message_on 1 [0, 1, 65]) (new_game_engine sample_params sample_handler) = Inr e"
    "inbox 5 (tcp_handler e) = [accepted_player_msg 0 (Player [65] [97])]" "\<not> gameplay_started e"
proof -
  let ?e = "new_game_engine sample_params sample_handler"
  have idle: "idle_inv ?e"
    using engine_inv_new [OF config_ok_sample handler_ok_sample] by (simp add: idle_inv_def new_game_engine_def)
  have e: "\<not> gameplay_started ?e" "Suc (length (players ?e)) \<noteq> unat (players_count (game_params ?e))"
      "tcp_handler ?e = sample_handler" "next_player_id ?e = 0"
    by (simp_all add: new_game_engine_def sample_params_def)
  have slot: "slot_fd (tcp_handler ?e) 1 \<noteq> -1" using slot_fd_sample [of 1] e(3) by (simp add: conn_max_def)
  obtain h address where h: "same_traffic sample_handler h" "map_of (addresses sample_handler) 1 = Some address"
    and run: "loop_iteration (message_on 1 [0, 1, 65]) ?e = Inr (joined [65] address 1 (?e\<lparr>tcp_handler := h\<rparr>))"
    by (rule join_served [OF idle e(1) _ _ slot decode_join]) (use e in \<open>simp_all add: conn_max_def\<close>)
  have at: "attached 2 5 h" "inbox 5 h = []"
    using same_traffic_inbox [OF h(1), of 5 2] watcher_attached by (simp_all add: inbox_def sample_handler_def)
  have "address = [97]" using h(2) by (simp add: sample_handler_def)
  with run that inbox_send_all [OF at(1)] at(2) e show ?thesis by (simp add: joined_def send_to_all_def)
qed

text \<open>A longer game without bombs.\<close>

definition calm_game :: game_engine where
  "calm_game = sample_game\<lparr>game_params := sample_params\<lparr>game_length := 10\<rparr>, bombs := []\<rparr>"

lemma idle_inv_calm_game: "idle_inv calm_game"
proof -
  have "engine_inv calm_game"
    using config_ok_sample engine_inv_sample_game
    by (simp add: engine_inv_defs calm_game_def sample_game_def new_game_engine_def config_ok_def check_position_def)
  then show ?thesis by (simp add: idle_inv_def calm_game_def sample_game_def new_game_engine_def)
qed

text \<open>A game in which a bomb has hit a robot.\<close>

definition hit_game :: game_engine where
  "hit_game = sample_game\<lparr>turns := [Turn_info 0 [Bomb_exploded_event 7 [0] []]]\<rparr>"

lemma engine_inv_hit_game: "engine_inv hit_game"
  using engine_inv_sample_game
  by (simp add: engine_inv_defs hit_game_def sample_game_def turns_ok_def)

text \<open>A game in which a robot is to be destroyed at the end of the turn.\<close>

definition struck_game :: game_engine where
  "struck_game = sample_game\<lparr>current_players_to_destroy := Node Black Leaf 0 Leaf\<rparr>"

lemma engine_inv_struck_game: "engine_inv struck_game"
  using engine_inv_sample_game
  by (simp add: engine_inv_defs struck_game_def sample_game_def elems_def set_ok_def new_game_engine_def check_position_def)

end
