(* ===== verification/Basics_Props.thy ===== *)
theory Basics_Props
  imports Samples
begin

text \<open>
  Properties of the parts both programs are built from: the comparison of positions and the containers
  that use it, the random generator, the formats of integers and strings, the command lines.
\<close>

subsection \<open>Sets of positions\<close>

text \<open>
  C38. What a set with one block finds: the comparison of positions mixes \<open>x\<close> with \<open>y\<close>, so the lookup of
  \<open>p\<close> succeeds not for \<open>p = q\<close> but under a condition on the coordinates that a field with \<open>x < y\<close> does not
  even meet for itself, and that other fields meet.
\<close>

theorem single_block_lookup:
  "pos_count (pos_insert q Leaf) p = 1 \<longleftrightarrow>
     pos_y p \<le> pos_x q \<and> pos_y q \<le> pos_x p \<and> (pos_x p = pos_x q \<longrightarrow> pos_y p = pos_y q)"
  using pos_count_singleton [of q p] same_key_iff [of q p] by auto

theorem single_block_lookup_witness:
  "pos_count (pos_insert (Position 1 2) Leaf) (Position 1 2) \<noteq> 1
    \<and> pos_count (pos_insert (Position 9 0) Leaf) (Position 1 2) = 1"
  using single_block_lookup [of "Position 1 2" "Position 1 2"] single_block_lookup [of "Position 9 0" "Position 1 2"]
  by (simp add: word_le_nat_alt)

text \<open>
  With a comparison that is a linear order, as for the identifiers of players, the red-black tree is
  a set: insertion adds the element, erasure removes it, \<open>count\<close> tells membership, and the iteration
  order stays strictly increasing.
\<close>

theorem ordered_container_is_a_set:
  fixes t :: "player_id rb"
  assumes "set_ok t"
  shows "set_ok (set_insert (<) x t) \<and> elems (set_insert (<) x t) = insert x (elems t)
    \<and> set_ok (set_erase (<) x t) \<and> elems (set_erase (<) x t) = elems t - {x}
    \<and> (set_count (<) t x = 1) = (x \<in> elems t)"
  using ord.ok_ins [OF assms] ord.ok_del [OF assms] ord.els_ins_eq [OF assms] ord.els_del_eq [OF assms]
    ord.cnt_iff [OF assms] by blast

theorem ordered_container_is_a_set_witness:
  "elems (set_insert (<) 3 (Node Black Leaf (5 :: player_id) Leaf)) = {3, 5}"
  using ordered_container_is_a_set [of "Node Black Leaf 5 Leaf" 3] by auto

subsection \<open>The random generator\<close>

text \<open>
  The generator never leaves its range: from any seed, every state is between 1 and 2147483646, the
  value drawn is the new state, and it is the old one times 48271 modulo 2147483647, although the
  result is stored in 32 bits.
\<close>

theorem random_stays_in_range:
  assumes "random_ok r"
  shows "random_ok (snd (random_next r)) \<and> unat (fst (random_next r)) = 48271 * r mod 2147483647
    \<and> random_ok (new_random s)"
  using random_ok_next [OF assms] random_next_value [OF assms] random_ok_new
  by (simp add: random_next_def Let_def minstd_defs)

theorem random_stays_in_range_witness:
  "unat (fst (random_next 1)) = 48271 \<and> random_ok (new_random 0)"
proof -
  have "random_ok 1" by (simp add: random_ok_def minstd_modulus_def)
  from random_stays_in_range [OF this] show ?thesis by simp
qed

subsection \<open>Integers and strings\<close>

text \<open>
  Round trips of the protocol's scalar formats: a 16-bit and a 32-bit integer and a string of up to
  255 bytes, written by the server and read by the client from a buffer that holds them, come back as
  they were, with the rest of the buffer left.
\<close>

theorem scalars_round_trip:
  assumes "length str < 256"
  shows "reads read_u16 (uint16_to_bytes a) a \<and> reads read_u32 (uint32_to_bytes b) b
    \<and> reads read_str (string_to_bytes str) str"
  using reads_u16 reads_u32 reads_str [OF assms] by blast

theorem scalars_round_trip_witness:
  "reads read_str (string_to_bytes [72, 105]) [72, 105]"
  using scalars_round_trip [of "[72, 105]"] by simp

subsection \<open>Command lines\<close>

text \<open>
  The address of a command line is split at its last colon, so that the host may contain colons (an
  IPv6 address); without a colon, or with something after it that is no port, the program ends.
\<close>

theorem address_splits_at_last_colon:
  assumes "colon \<notin> set port_part"
  shows "parse_address_udp lexical_cast resolve (host @ colon # port_part) =
      (case lexical_cast port_part of None \<Rightarrow> Inl Exit_failure
       | Some n \<Rightarrow> (case resolve host port_part of None \<Rightarrow> Inl Exit_failure | Some e \<Rightarrow> Inr e))
    \<and> parse_address_udp lexical_cast resolve port_part = Inl Exit_failure
    \<and> parse_address_tcp lexical_cast resolve_all (host @ colon # port_part) =
      (case lexical_cast port_part of None \<Rightarrow> Inl Exit_failure | Some n \<Rightarrow> Inr (resolve_all host port_part))
    \<and> parse_address_tcp lexical_cast resolve_all port_part = Inl Exit_failure"
  using find_split_loop_last [OF assms, of 0 None host] find_split_loop_none [OF assms, of 0 None]
  by (simp add: parse_address_udp_def parse_address_tcp_def find_split_position_def del: add_0)
    (simp cong: option.case_cong)

theorem address_splits_at_last_colon_witness:
  "parse_address_udp (\<lambda>s. if s = [56, 48] then Some 80 else None) (\<lambda>host prt. Some (host, prt))
     ([58, 58, 49] @ colon # [56, 48]) = Inr ([58, 58, 49], [56, 48])"
  using address_splits_at_last_colon [of "[56, 48]" "\<lambda>s. if s = [56, 48] then Some 80 else None"
      "\<lambda>host prt. Some (host, prt)" "[58, 58, 49]" "\<lambda>host prt. (host, prt)"]
  by (simp add: colon_def)

text \<open>
  The number of players is read as a 16-bit number and stored in 8 bits: a multiple of 256 passes the
  check that there is at least one player and becomes 0, a lobby that never fills.
\<close>

theorem players_count_is_truncated:
  assumes "parse_options argv = Some vm" and "\<not> opt_help vm" and "opt_players_count vm = Some n" and "1 \<le> n"
  shows "\<exists>p. parse_parameters parse_options clock indet indet_count argv = Inr p
    \<and> unat (players_count p) = unat n mod 256"
proof -
  have "unat (ucast n :: u8) = unat n mod 256" by (simp add: unsigned_ucast_eq take_bit_eq_mod)
  moreover have "n \<noteq> 0" using assms(4) by auto
  ultimately show ?thesis using assms by (simp add: parse_parameters_def stored_def Let_def)
qed

definition sample_options :: server_options where
  "sample_options = \<lparr>opt_bomb_timer = None, opt_players_count = Some 256, opt_turn_duration = None,
     opt_explosion_radius = None, opt_help = False, opt_initial_blocks = None, opt_game_length = None,
     opt_server_name = None, opt_port = None, opt_seed = None, opt_size_x = None, opt_size_y = None\<rparr>"

theorem players_count_is_truncated_witness:
  "\<exists>p. parse_parameters (\<lambda>argv :: unit. Some sample_options) 0 sample_params 0 () = Inr p
    \<and> unat (players_count p) = 0"
  using players_count_is_truncated [of "\<lambda>argv :: unit. Some sample_options" "()" sample_options 256 0 sample_params 0]
  by (simp add: sample_options_def)

end
