(* ===== verification/Server_Props.thy ===== *)
theory Server_Props
  imports Samples
begin

text \<open>Properties of the server: its loop, explosions, turns, the clients' actions and connections.\<close>

subsection \<open>The loop\<close>

lemma idle_inv_new: "config_ok params \<Longrightarrow> handler_ok h \<Longrightarrow> idle_inv (new_game_engine params h)"
  using engine_inv_new [of params h] by (simp add: idle_inv_def new_game_engine_def)

text \<open>
  C1. From the start, with a usable configuration, every state the server is in between two iterations
  of its loop satisfies the invariant, whatever clients and the system did: tables sorted, scores and
  slots only of players, robots, blocks and bombs on the board, turns numbered from 0 to the current
  one, connected slots with an address, no pending destruction, the game not past its last turn.
\<close>

theorem server_keeps_invariant:
  assumes "config_ok params" and "new_tcp_handler indet_buf socket_fd bind_errno (port params) = Inr h"
    and "length indet_buf = buf_size" and "for_each loop_iteration envs (new_game_engine params h) = Inr e"
  shows "idle_inv e"
  using server.run_keeps [OF idle_inv_new [OF assms(1) handler_ok_new [OF assms(2,3)]] assms(4)] .

definition sample_start :: server_tcp_handler where
  "sample_start = \<lparr>buf = replicate buf_size 0, buf_pos = 0, buf_length = 0, listen_port = 2022,
     active_clients = 0, poll_descriptors = \<lparr>fd = 3, revents = 0\<rparr> # replicate (conn_max - 1) \<lparr>fd = -1, revents = 0\<rparr>,
     addresses = [], wire = [], closed_fds = []\<rparr>"

lemma sample_start_new: "new_tcp_handler (replicate buf_size 0) 3 0 (port sample_params) = Inr sample_start"
  by (simp add: new_tcp_handler_def bind_socket_def open_socket_def check_errno_exit_def sample_start_def sample_params_def)

lemma sample_start_idle: "idle_inv (new_game_engine sample_params sample_start)"
  using idle_inv_new [OF config_ok_sample handler_ok_new [OF sample_start_new]] by simp

lemma quiet_safe: "iteration_safe quiet_env e"
  by (simp add: iteration_safe_def quiet_env_def safe_env_def safe_slot_def received_message_def list_all_iff)

lemma quiet_run: "\<exists>e. loop_iteration quiet_env (new_game_engine sample_params sample_start) = Inr e"
  using loop_iteration_ok [OF sample_start_idle quiet_safe] by blast

theorem server_keeps_invariant_witness:
  "\<exists>e. for_each loop_iteration [quiet_env] (new_game_engine sample_params sample_start) = Inr e \<and> idle_inv e"
proof -
  obtain e where "for_each loop_iteration [quiet_env] (new_game_engine sample_params sample_start) = Inr e"
    using quiet_run by auto
  moreover from server_keeps_invariant [OF config_ok_sample sample_start_new _ this] have "idle_inv e" by simp
  ultimately show ?thesis by blast
qed

text \<open>
  C2. The server never faults on a safe run. With a usable configuration (a board with columns and rows, at least one
  player, a radius other than 65535), when no \<open>poll\<close> fails and no joined client sends an action while the game has not
  begun, every iteration completes, without exception, division by zero or endless explosion, and ends in a state with
  the invariant. Without these conditions it does fault: see C27, C33 and C40.
\<close>

theorem server_never_faults:
  assumes "config_ok params" and "new_tcp_handler indet_buf socket_fd bind_errno (port params) = Inr h"
    and "length indet_buf = buf_size" and "safe_run loop_iteration iteration_safe envs (new_game_engine params h)"
  shows "\<exists>e. for_each loop_iteration envs (new_game_engine params h) = Inr e \<and> idle_inv e"
  using server.run_total [OF idle_inv_new [OF assms(1) handler_ok_new [OF assms(2,3)]] assms(4)] .

theorem server_never_faults_witness:
  "\<exists>e. for_each loop_iteration [quiet_env, quiet_env] (new_game_engine sample_params sample_start) = Inr e
    \<and> idle_inv e"
  using server_never_faults [OF config_ok_sample sample_start_new, of "[quiet_env, quiet_env]"] quiet_safe
  by (simp split: sum.split)

text \<open>
  C5. Every message the server puts on the wire, on any run from its start with a usable configuration, is the bytes of a
  well-formed message of the protocol: strings fit their length byte, and the 32-bit counters of players, events, robots
  and blocks never overflow. This needs a server name of at most 255 bytes, which the code does not check, and addresses of
  at most 45 characters from the system; the names of the players fit because they were read with a length byte.
\<close>

theorem server_speaks_protocol:
  assumes "proper_start params h" and "list_all named_env envs"
    and "for_each loop_iteration envs (new_game_engine params h) = Inr e"
  shows "\<forall>(d, bytes) \<in> set (wire (tcp_handler e)). \<exists>m. message_ok m \<and> bytes = message_bytes m"
  using proper_run(1) [OF assms] by (simp add: proper_def speaks_def)

theorem server_speaks_protocol_witness:
  "\<exists>e. for_each loop_iteration [message_on 1 [0, 1, 65], quiet_env] (new_game_engine solo_params sample_handler) = Inr e
    \<and> (\<forall>(d, bytes) \<in> set (wire (tcp_handler e)). \<exists>m. message_ok m \<and> bytes = message_bytes m)"
proof -
  obtain e where e: "for_each loop_iteration [message_on 1 [0, 1, 65], quiet_env]
      (new_game_engine solo_params sample_handler) = Inr e" by (rule solo_game)
  have "list_all named_env [message_on 1 [0, 1, 65], quiet_env]"
    by (simp add: named_env_def message_on_def quiet_env_def)
  from server_speaks_protocol [OF proper_start_solo this e] e show ?thesis by blast
qed

lemma close_all:
  assumes "\<forall>d. close_errno d = 0"
  shows "close_conn close_errno h =
    Inr (h\<lparr>closed_fds := closed_fds h @ filter (\<lambda>d. 0 \<le> d) (map fd (poll_descriptors h))\<rparr>)"
proof -
  have "for_each (\<lambda>p h. if fd p \<ge> 0
         then and_then (check_errno_exit (close_errno (fd p))) (\<lambda>_. Inr (close_fd (fd p) h))
         else Inr h) ps g = Inr (g\<lparr>closed_fds := closed_fds g @ filter (\<lambda>d. 0 \<le> d) (map fd ps)\<rparr>)" for ps g
    using assms by (induction ps arbitrary: g) (auto simp: check_errno_exit_def close_fd_def)
  then show ?thesis by (simp add: close_conn_def)
qed

text \<open>
  C39. The program as a whole, from the command line on. With a command line that gives a usable configuration, a socket that
  can be bound, closes that succeed, and a run up to the interrupt in which no \<open>poll\<close> fails and no joined client
  sends an action in the lobby, the program ends at once when it cannot listen. Otherwise it executes the iterations up to
  the first in which the interrupt comes, that one included, and none after it; it then closes every descriptor that is
  still open, in the order of the table, the listening one first. As long as no interrupt comes it goes on running.
\<close>

theorem server_closes_descriptors:
  assumes "parse_parameters parse_options clock indet indet_count argv = Inr params"
    and "config_ok params" and "new_tcp_handler indet_buf socket_fd bind_errno (port params) = Inr h"
    and "length indet_buf = buf_size" and "\<forall>d. close_errno d = 0"
    and "safe_run loop_iteration iteration_safe (until_interrupt envs) (new_game_engine params h)"
  shows "\<exists>e. for_each loop_iteration (until_interrupt envs) (new_game_engine params h) = Inr e
    \<and> robots_server parse_options clock indet indet_count argv indet_buf socket_fd bind_errno listen_errno close_errno envs =
        (if listen_errno \<noteq> 0 then Inl Exit_failure
         else if list_ex interrupted envs
         then Inr (True, e\<lparr>tcp_handler := (tcp_handler e)\<lparr>closed_fds :=
           closed_fds (tcp_handler e) @ filter (\<lambda>d. 0 \<le> d) (map fd (poll_descriptors (tcp_handler e)))\<rparr>\<rparr>)
         else Inr (False, e))"
proof -
  have idle: "idle_inv (new_game_engine params h)"
    by (rule idle_inv_new [OF assms(2) handler_ok_new [OF assms(3,4)]])
  obtain e where e: "for_each loop_iteration (until_interrupt envs) (new_game_engine params h) = Inr e"
    using server.run_total [OF idle assms(6)] by blast
  then have "manage_connections close_errno envs (new_game_engine params h) =
      (if list_ex interrupted envs
       then Inr (True, e\<lparr>tcp_handler := (tcp_handler e)\<lparr>closed_fds :=
         closed_fds (tcp_handler e) @ filter (\<lambda>d. 0 \<le> d) (map fd (poll_descriptors (tcp_handler e)))\<rparr>\<rparr>)
       else Inr (False, e))"
    by (simp add: manage_connections_def serve_until_finished_eq close_all [OF assms(5)])
  with e show ?thesis
    by (simp add: robots_server_def assms(1,3) start_game_def start_listening_def check_errno_exit_def)
qed

definition two_players :: server_options where
  "two_players = \<lparr>opt_bomb_timer = Some 2, opt_players_count = Some 2, opt_turn_duration = Some 100,
     opt_explosion_radius = Some 2, opt_help = False, opt_initial_blocks = Some 1, opt_game_length = Some 2,
     opt_server_name = Some [115], opt_port = Some 2022, opt_seed = None, opt_size_x = Some 5, opt_size_y = Some 5\<rparr>"

lemma parse_two_players: "parse_parameters (\<lambda>argv :: unit. Some two_players) 7 sample_params 0 () = Inr sample_params"
  by (simp add: parse_parameters_def two_players_def stored_def sample_params_def)

theorem server_closes_descriptors_witness:
  "\<exists>e e'. for_each loop_iteration [quiet_env\<lparr>env_interrupted := True\<rparr>] (new_game_engine sample_params sample_start) = Inr e
    \<and> robots_server (\<lambda>argv :: unit. Some two_players) 7 sample_params 0 () (replicate buf_size 0) 3 0 0 (\<lambda>d. 0)
        [quiet_env\<lparr>env_interrupted := True\<rparr>, quiet_env] = Inr (True, e')
    \<and> closed_fds (tcp_handler e') = closed_fds (tcp_handler e)
        @ filter (\<lambda>d. 0 \<le> d) (map fd (poll_descriptors (tcp_handler e)))"
proof -
  let ?env = "quiet_env\<lparr>env_interrupted := True\<rparr>"
  have safe: "iteration_safe ?env e" for e using quiet_safe [of e]
    by (simp add: iteration_safe_def safe_env_def safe_slot_def)
  have run: "until_interrupt [?env, quiet_env] = [?env]" "list_ex interrupted [?env, quiet_env]"
    by (simp_all add: interrupted_def)
  have "safe_run loop_iteration iteration_safe (until_interrupt [?env, quiet_env]) (new_game_engine sample_params sample_start)"
    unfolding run using safe by (simp split: sum.split)
  from server_closes_descriptors [OF parse_two_players config_ok_sample sample_start_new _ _ this, of "\<lambda>d. 0" 0] run show ?thesis by auto
qed

text \<open>
  C6. A game lasts exactly \<open>game_length\<close> turns: as long as \<open>poll\<close> does not fail, whatever the clients
  send, a started game goes on for every number of iterations short of the turns that are left, one turn
  each, and is over after the iteration of the last turn.
\<close>

theorem game_lasts_game_length:
  assumes "idle_inv e" and "gameplay_started e" and "list_all (\<lambda>env. env_poll env \<noteq> -1) envs"
    and "unat (current_turn e) + length envs = unat (game_length (game_params e))"
  shows "(\<exists>e'. for_each loop_iteration envs e = Inr e' \<and> idle_inv e' \<and> \<not> gameplay_started e') \<and>
    (\<forall>k < length envs. \<exists>e'. for_each loop_iteration (take k envs) e = Inr e' \<and> gameplay_started e'
       \<and> unat (current_turn e') = unat (current_turn e) + k)"
proof (intro conjI allI impI)
  show "\<exists>e'. for_each loop_iteration envs e = Inr e' \<and> idle_inv e' \<and> \<not> gameplay_started e'"
    by (rule game_ends [OF assms])
  fix k assume "k < length envs"
  with game_goes_on [OF assms(1,2), of "take k envs"] assms(3,4)
  show "\<exists>e'. for_each loop_iteration (take k envs) e = Inr e' \<and> gameplay_started e'
      \<and> unat (current_turn e') = unat (current_turn e) + k"
    by (auto simp: list_all_iff dest: in_set_takeD)
qed

theorem game_lasts_game_length_witness:
  "\<exists>e'. for_each loop_iteration [quiet_env, quiet_env] sample_game = Inr e' \<and> \<not> gameplay_started e'"
proof -
  have "gameplay_started sample_game" "list_all (\<lambda>env. env_poll env \<noteq> -1) [quiet_env, quiet_env]"
      "unat (current_turn sample_game) + length [quiet_env, quiet_env] = unat (game_length (game_params sample_game))"
    by (simp_all add: sample_game_def new_game_engine_def sample_params_def quiet_env_def)
  from game_lasts_game_length [OF idle_inv_sample_game this] show ?thesis by blast
qed

subsection \<open>Turns and explosions\<close>

text \<open>
  C7. What an iteration of a running game logs, when \<open>poll\<close> does not fail and the turn is not the last of the game: one turn,
  with the next number. It begins with the explosions of the bombs whose time is over, in the order of their
  identifiers and on the board as it was before the turn; what follows are the clients' actions and the robots placed
  anew, never an explosion. The other bombs stay, one turn nearer to theirs. (After the last turn the game is over, and
  log and bombs are cleared.)
\<close>

theorem turn_is_logged:
  assumes "idle_inv e" and "gameplay_started e" and "env_poll env \<noteq> -1"
    and "current_turn e + 1 \<noteq> game_length (game_params e)"
  shows "\<exists>e' actions. loop_iteration env e = Inr e' \<and> turns e' = turns e
      @ [Turn_info (current_turn e + 1) (map (explosion_event e) (expiring (bombs e)) @ actions)]
    \<and> list_all no_explosion actions
    \<and> set (map tick (filter (\<lambda>b. timer (snd b) \<noteq> 1) (bombs e))) \<subseteq> set (bombs e')"
proof -
  obtain e' where e': "loop_iteration env e = Inr e'" "gameplay_started e'"
    using loop_iteration_ok [OF assms(1) safe_while_started [OF assms(2,3)]] assms(2,4) by auto
  from iteration_adds_turn [OF assms(1,2) e'] e'(1) show ?thesis
    by (auto simp: turn_added_def explosions_of_def bombs_left_def)
qed

theorem turn_is_logged_witness:
  "\<exists>e' actions. loop_iteration quiet_env sample_game = Inr e'
    \<and> turns e' = [new_turn_info 0, Turn_info 1 (explosion_event sample_game (0, Bomb (Position 1 1) 1) # actions)]"
proof -
  have "gameplay_started sample_game" "env_poll quiet_env \<noteq> -1"
      "current_turn sample_game + 1 \<noteq> game_length (game_params sample_game)" "turns sample_game = [new_turn_info 0]"
      "current_turn sample_game = 0" "expiring (bombs sample_game) = [(0, Bomb (Position 1 1) 1)]"
    by (simp_all add: sample_game_def new_game_engine_def sample_params_def quiet_env_def expiring_def)
  with turn_is_logged [OF idle_inv_sample_game, of quiet_env] show ?thesis by auto
qed

text \<open>
  C8. A bomb explodes in time. When the timer of a bomb is not 0, and as long as \<open>poll\<close> does not fail and the game has more
  turns left than the timer, the iterations up to the end of the timer all return, whatever the clients do; the last of
  the turns they log has the explosion of the bomb, and the turns before it do not. Nothing is said of a bomb that the end
  of the game comes before, or that has the timer 0.
\<close>

theorem bomb_explodes_on_time:
  assumes "idle_inv e" and "gameplay_started e" and "(i, b) \<in> set (bombs e)" and "timer b \<noteq> 0"
    and "list_all (\<lambda>env. env_poll env \<noteq> -1) envs" and "length envs = unat (timer b)"
    and "unat (current_turn e) + length envs < unat (game_length (game_params e))"
  shows "\<exists>e' earlier t. for_each loop_iteration envs e = Inr e' \<and> turns e' = turns e @ earlier @ [t]
    \<and> Suc (length earlier) = unat (timer b) \<and> explodes_in i t \<and> list_all (\<lambda>t. \<not> explodes_in i t) earlier"
proof -
  obtain e' where "for_each loop_iteration envs e = Inr e'" using game_goes_on [OF assms(1,2,5,7)] by blast
  with bomb_explodes [OF assms(1-4,6,7)] show ?thesis by blast
qed

theorem bomb_explodes_on_time_witness:
  "\<exists>e' t. for_each loop_iteration [quiet_env] sample_game = Inr e' \<and> turns e' = [new_turn_info 0, t] \<and> explodes_in 0 t"
proof -
  have "gameplay_started sample_game" "(0, Bomb (Position 1 1) 1) \<in> set (bombs sample_game)"
      "list_all (\<lambda>env. env_poll env \<noteq> -1) [quiet_env]" "turns sample_game = [new_turn_info 0]"
      "unat (current_turn sample_game) + length [quiet_env] < unat (game_length (game_params sample_game))"
    by (simp_all add: sample_game_def new_game_engine_def sample_params_def quiet_env_def)
  with bomb_explodes_on_time [OF idle_inv_sample_game this(1,2) _ this(3) _ this(5)] show ?thesis
    by (auto simp del: for_each.simps)
qed

lemma set_concat_robots_hit:
  "set (concat (map (\<lambda>b. robots_hit e (snd b)) bs)) =
     {p. \<exists>b \<in> set bs. \<exists>q. (p, q) \<in> set (players_positions e)
        \<and> in_blast e (bomb_position (snd b)) (unat (explosion_radius (game_params e))) q}"
  by (force simp: robots_hit_def set_robots_in in_struck_cells)

text \<open>
  C10. The beginning of a turn, in closed form: every timer goes down by one, the bombs that reach zero
  are gone, and explode in the order of their identifiers, which is the order of the events of the new
  turn; the robots to be destroyed are those that some blast reaches, and the struck blocks are removed
  only after all bombs have exploded, so that every explosion sees the board as it was.
\<close>

theorem begin_turn_explodes_bombs:
  assumes "idle_inv e" and "gameplay_started e"
  shows "\<exists>e'. begin_turn e = Inr e'
    \<and> bombs e' = map tick (filter (\<lambda>b. timer (snd b) \<noteq> 1) (bombs e))
    \<and> turns e' = turns e @ [Turn_info (current_turn e + 1) (map (explosion_event e) (expiring (bombs e)))]
    \<and> elems (current_players_to_destroy e') =
        {p. \<exists>b \<in> set (expiring (bombs e)). \<exists>q. (p, q) \<in> set (players_positions e)
           \<and> in_blast e (bomb_position (snd b)) (unat (explosion_radius (game_params e))) q}
    \<and> blocks_positions e' = fold pos_erase (concat (map (\<lambda>b. blocks_hit e (snd b)) (expiring (bombs e))))
        (blocks_positions e)
    \<and> players_positions e' = players_positions e \<and> scores e' = scores e"
proof -
  have "current_players_to_destroy e = Leaf" using assms(1) by (simp add: idle_inv_def)
  then have "elems (current_players_to_destroy (ticked e (bombs e) [])) =
      set (concat (map (\<lambda>b. robots_hit e (snd b)) (expiring (bombs e))))"
    by (simp add: ticked_def elems_fold_insert del: set_concat)
  then show ?thesis
    unfolding begin_turn_eq [OF assms] set_concat_robots_hit by (simp add: ticked_def)
qed

theorem begin_turn_explodes_bombs_witness:
  "\<exists>e'. begin_turn sample_game = Inr e' \<and> bombs e' = []"
proof -
  have "gameplay_started sample_game" by (simp add: sample_game_def)
  from begin_turn_explodes_bombs [OF idle_inv_sample_game this] show ?thesis
    by (auto simp: sample_game_def)
qed

text \<open>
  C11. What one explosion does: while a game is played, \<open>handle_explosion\<close> of a bomb on the board returns; the event it adds
  to the turn lists exactly the robots and the blocks the blast reaches, each of them once; these robots join the ones
  to be destroyed, and these blocks the ones to be removed.
\<close>

theorem explosion_lists_hits_once:
  assumes "engine_inv e" and "gameplay_started e" and "check_position e (bomb_position b)"
  shows "\<exists>e' robots blocks. handle_explosion i b e = Inr e' \<and> logged (Bomb_exploded_event i robots blocks) e e'
    \<and> distinct robots \<and> distinct blocks
    \<and> set robots = {p. \<exists>q. (p, q) \<in> set (players_positions e)
        \<and> in_blast e (bomb_position b) (unat (explosion_radius (game_params e))) q}
    \<and> set blocks = {q. is_block e q \<and> in_blast e (bomb_position b) (unat (explosion_radius (game_params e))) q}
    \<and> elems (current_players_to_destroy e') = elems (current_players_to_destroy e) \<union> set robots
    \<and> current_blocks_to_erase e' = current_blocks_to_erase e @ blocks"
  by (rule explosion_effect [OF assms, of i]) blast

lemma explosion_sample:
  "check_position sample_game (Position 1 1)" "(0, Position 1 1) \<in> set (players_positions sample_game)"
  by (simp_all add: check_position_def sample_game_def new_game_engine_def sample_params_def)

theorem explosion_lists_hits_once_witness:
  "\<exists>e' robots blocks. handle_explosion 0 (Bomb (Position 1 1) 0) sample_game = Inr e'
    \<and> logged (Bomb_exploded_event 0 robots blocks) sample_game e' \<and> distinct robots \<and> 0 \<in> set robots"
proof -
  have "check_position sample_game (bomb_position (Bomb (Position 1 1) 0))" "gameplay_started sample_game"
    using explosion_sample by (simp_all add: sample_game_def)
  moreover have "in_blast sample_game (Position 1 1) r (Position 1 1)" for r by (simp add: in_blast_def)
  ultimately obtain e' robots blocks where "handle_explosion 0 (Bomb (Position 1 1) 0) sample_game = Inr e'"
      "logged (Bomb_exploded_event 0 robots blocks) sample_game e'" "distinct robots"
      "\<forall>p. p \<in> set robots \<longleftrightarrow> (\<exists>q. (p, q) \<in> set (players_positions sample_game)
        \<and> in_blast sample_game (Position 1 1) (unat (explosion_radius (game_params sample_game))) q)"
    using explosion_lists_hits_once [OF engine_inv_sample_game, of "Bomb (Position 1 1) 0" 0] by auto
  with explosion_sample(2) \<open>\<And>r. in_blast sample_game (Position 1 1) r (Position 1 1)\<close> show ?thesis by blast
qed

text \<open>
  C25. The blast is a cross on the board, although the code computes it with 16-bit coordinates that wrap around: the
  robots and the blocks in the event that \<open>handle_explosion\<close> adds are exactly those on the bomb's field and, when that is
  no block, on the fields of the board in the bomb's row or column, at most the radius away in natural numbers, with no
  block between them and the bomb.
\<close>

theorem blast_is_a_cross:
  assumes "engine_inv e" and "gameplay_started e" and "check_position e (bomb_position b)"
  shows "\<exists>e' robots blocks. handle_explosion i b e = Inr e' \<and> logged (Bomb_exploded_event i robots blocks) e e'
    \<and> set robots = {p. \<exists>q. (p, q) \<in> set (players_positions e)
        \<and> in_cross e (bomb_position b) (unat (explosion_radius (game_params e))) q}
    \<and> set blocks = {q. is_block e q \<and> in_cross e (bomb_position b) (unat (explosion_radius (game_params e))) q}"
  by (rule explosion_effect [OF assms, of i, unfolded in_blast_cross [OF assms(3) unat_bounds(2)]]) blast

theorem blast_is_a_cross_witness:
  "\<exists>e' robots blocks. handle_explosion 0 (Bomb (Position 1 1) 0) sample_game = Inr e'
    \<and> logged (Bomb_exploded_event 0 robots blocks) sample_game e' \<and> 1 \<in> set robots"
proof -
  have "\<not> is_block sample_game (Position 1 1)"
    by (simp add: is_block_def sample_game_def pos_count_def set_count_def position_lt_def)
  moreover have "check_position sample_game (Position 2 1)"
    by (simp add: check_position_def sample_game_def new_game_engine_def sample_params_def)
  moreover have "cell_at (Position 1 1) 3 1 (Position 2 1)" by (simp add: cell_at_def)
  ultimately have cross: "in_cross sample_game (Position 1 1) 2 (Position 2 1)"
    unfolding in_cross_def by (intro disjI2 conjI exI [of _ 3] bexI [of _ 1]) auto
  have "check_position sample_game (bomb_position (Bomb (Position 1 1) 0))" "gameplay_started sample_game"
      "(1, Position 2 1) \<in> set (players_positions sample_game)" "unat (explosion_radius (game_params sample_game)) = 2"
    using explosion_sample by (simp_all add: sample_game_def new_game_engine_def sample_params_def)
  with blast_is_a_cross [OF engine_inv_sample_game, of "Bomb (Position 1 1) 0" 0] obtain e' robots blocks where
      "handle_explosion 0 (Bomb (Position 1 1) 0) sample_game = Inr e'"
      "logged (Bomb_exploded_event 0 robots blocks) sample_game e'"
      "\<forall>p. p \<in> set robots \<longleftrightarrow> (\<exists>q. (p, q) \<in> set (players_positions sample_game) \<and> in_cross sample_game (Position 1 1) 2 q)"
    by auto
  with cross \<open>(1, Position 2 1) \<in> set (players_positions sample_game)\<close> show ?thesis by blast
qed

text \<open>
  C26. An explosion always ends when the radius is below 65535: \<open>handle_explosion\<close> returns, in a state
  that differs from the one before only in the robots and blocks to be removed and the event it logs.
\<close>

theorem explosion_ends:
  assumes "explosion_radius (game_params e) \<noteq> -1" and "unat (current_turn e) < length (turns e)"
  shows "\<exists>ds es ts. handle_explosion i b e = Inr
    (e\<lparr>current_players_to_destroy := ds, current_blocks_to_erase := es, turns := ts\<rparr>)"
  unfolding handle_explosion_eq [OF assms] after_explosion_def Let_def by blast

theorem explosion_ends_witness:
  "\<exists>e'. handle_explosion 0 (Bomb (Position 1 1) 0) sample_game = Inr e'"
proof -
  have "explosion_radius (game_params sample_game) \<noteq> -1"
      "unat (current_turn sample_game) < length (turns sample_game)"
    by (simp_all add: sample_game_def new_game_engine_def sample_params_def)
  from explosion_ends [OF this] show ?thesis by blast
qed

text \<open>
  C27. With the radius 65535 an explosion whose centre is no block never ends: the 16-bit loop counter is
  at most 65535 for ever.
\<close>

theorem explosion_of_full_radius_diverges:
  assumes "explosion_radius (game_params e) = -1" and "\<not> is_block e (bomb_position b)"
  shows "handle_explosion i b e = Inl Diverges"
  by (rule handle_explosion_diverges [OF assms])

theorem explosion_of_full_radius_diverges_witness:
  "handle_explosion 0 (Bomb (Position 1 1) 0)
     (sample_game\<lparr>game_params := sample_params\<lparr>explosion_radius := 65535\<rparr>\<rparr>) = Inl Diverges"
  by (rule explosion_of_full_radius_diverges)
    (simp_all add: is_block_def sample_game_def pos_count_def set_count_def position_lt_def)

text \<open>
  C21. The end of a turn that is not the last: the destroyed robots are placed anew, each on a field of the board, and the turn
  logs their places in the order of the identifiers; every connected client is sent the turn with all its events; the
  destroyed robots get one more in their score, the other robots stay where they are and keep their score.
\<close>

theorem end_of_turn:
  assumes "engine_inv e" and "gameplay_started e" and "current_turn e \<noteq> game_length (game_params e)"
  shows "\<exists>e' places. summarise_turn e = Inr e'
    \<and> map fst places = inorder (current_players_to_destroy e)
    \<and> (\<forall>(p, pos) \<in> set places. check_position e pos \<and> map_of (players_positions e') p = Some pos)
    \<and> events (last (turns e')) = events (last (turns e)) @ map (\<lambda>(p, pos). Player_moved_event p pos) places
    \<and> wire (tcp_handler e') = wire (tcp_handler e) @
        map (\<lambda>i. (slot_fd (tcp_handler e) i, turn_info_to_bytes (last (turns e')))) (connected (tcp_handler e))
    \<and> (\<forall>p. map_of (scores e') p =
          (if p \<in> elems (current_players_to_destroy e) then map_option (\<lambda>s. s + 1) (map_of (scores e) p)
           else map_of (scores e) p))
    \<and> (\<forall>p. p \<notin> elems (current_players_to_destroy e) \<longrightarrow>
          map_of (players_positions e') p = map_of (players_positions e) p)"
  using summarise_turn_eq [OF assms] by (auto simp: send_message_to_all_wire)

theorem end_of_turn_witness:
  "\<exists>e' pos. summarise_turn struck_game = Inr e' \<and> check_position struck_game pos
    \<and> map_of (players_positions e') 0 = Some pos \<and> map_of (scores e') 0 = Some 1
    \<and> events (last (turns e')) = [Player_moved_event 0 pos] \<and> map_of (players_positions e') 1 = Some (Position 2 1)"
proof -
  have e: "gameplay_started struck_game" "current_turn struck_game \<noteq> game_length (game_params struck_game)"
      "inorder (current_players_to_destroy struck_game) = [0]" "elems (current_players_to_destroy struck_game) = {0}"
      "events (last (turns struck_game)) = []" "map_of (scores struck_game) 0 = Some 0"
      "map_of (players_positions struck_game) 1 = Some (Position 2 1)"
    by (simp_all add: struck_game_def sample_game_def new_game_engine_def sample_params_def elems_def)
  from end_of_turn [OF engine_inv_struck_game e(1,2)] obtain e' pos where "summarise_turn struck_game = Inr e'"
      "check_position struck_game pos" "map_of (players_positions e') 0 = Some pos" "map_of (scores e') 0 = Some 1"
      "events (last (turns e')) = [Player_moved_event 0 pos]" "map_of (players_positions e') 1 = Some (Position 2 1)"
    unfolding e(3-5) using e(6,7) by auto
  then show ?thesis by blast
qed

subsection \<open>The clients' actions\<close>

lemma add_current_event:
  assumes "engine_inv e" and "gameplay_started e" and "turns e1 = turns e" and "current_turn e1 = current_turn e"
  shows "\<exists>ts. add_turn_event (current_turn e1) ev e1 = Inr (e1\<lparr>turns := ts\<rparr>) \<and> logged ev e (e1\<lparr>turns := ts\<rparr>)"
proof -
  have "length (turns e) = Suc (unat (current_turn e))"
    using assms(1,2) by (simp add: engine_inv_defs turns_ok_length)
  then show ?thesis by (simp add: add_turn_event_def logged_def assms(3,4))
qed

text \<open>The number of the direction in the list \<open>directions\<close> of the blast: down, up, left, right.\<close>

fun direction_index :: "direction \<Rightarrow> nat" where
  "direction_index Down = 0"
| "direction_index Up = 1"
| "direction_index Left = 2"
| "direction_index Right = 3"
| "direction_index (Other_direction b) = 4"

lemma moved_one_step:
  assumes "check_position e pos" and "check_position e (moved_position indet d pos)"
    and "d \<in> {Up, Down, Left, Right}"
  shows "cell_at pos (direction_index d) 1 (moved_position indet d pos)"
proof -
  have "direction_index d < 4" "moved_position indet d pos = (directions pos ! direction_index d) 1"
    using assms(3) by (cases d; simp add: directions_def)+
  with reached_cell_at [of "direction_index d" 1 e pos] assms(1,2) show ?thesis by simp
qed

text \<open>
  C23. A move: the robot of a client that may act goes one field up, down, left or right, without
  wrap-around, when that field is on the board and the block container finds no block there, and the
  turn logs it; otherwise nothing changes.
\<close>

theorem move_goes_one_step:
  assumes "engine_inv e" and "gameplay_started e" and "acting_player i e = Some p"
    and "map_of (players_positions e) p = Some pos" and "d \<in> {Up, Down, Left, Right}"
    and new: "new = moved_position indet d pos"
  shows "if check_position e new \<and> pos_count (blocks_positions e) new = 0
    then cell_at pos (direction_index d) 1 new
      \<and> (\<exists>e'. move_handle_msg indet d i e = Inr e'
        \<and> map_of (players_positions e') = (map_of (players_positions e))(p \<mapsto> new)
        \<and> blocks_positions e' = blocks_positions e \<and> logged (Player_moved_event p new) e e')
    else move_handle_msg indet d i e = Inr e"
proof -
  let ?e1 = "e\<lparr>players_positions := map_assign p new (players_positions e)\<rparr>"
  have at: "map_at (players_positions e) p = Inr pos" using assms(4) by simp
  have sorted: "map_ok (players_positions e)" using assms(1) by (simp add: engine_inv_def tables_ok_def)
  have "check_position e pos"
    using acting_player_placed [OF assms(1-3)] assms(4) by (metis option.inject)
  then have "cell_at pos (direction_index d) 1 new" if "check_position e new"
    using that moved_one_step [OF _ _ assms(5)] by (simp add: new)
  moreover obtain ts where "add_turn_event (current_turn e) (Player_moved_event p new) ?e1 = Inr (?e1\<lparr>turns := ts\<rparr>)"
      "logged (Player_moved_event p new) e (?e1\<lparr>turns := ts\<rparr>)"
    using add_current_event [OF assms(1,2), of ?e1] by auto
  ultimately show ?thesis
    using assms(3) sorted by (simp add: move_handle_msg_def at Let_def check_position_to_move_def new [symmetric])
qed

lemma acting_sample: "acting_player 1 sample_game = Some 0"
  by (simp add: acting_player_def sample_game_def new_game_engine_def set_count_def)

lemma started_sample: "gameplay_started sample_game"
  by (simp add: sample_game_def)

lemma position_sample: "map_of (players_positions sample_game) 0 = Some (Position 1 1)"
  by (simp add: sample_game_def)

theorem move_goes_one_step_witness:
  "\<exists>e'. move_handle_msg (Position 0 0) Up 1 sample_game = Inr e'
    \<and> map_of (players_positions e') 0 = Some (Position 1 2)"
proof -
  have "check_position sample_game (Position 1 2)" "pos_count (blocks_positions sample_game) (Position 1 2) = 0"
    by (simp_all add: check_position_def sample_game_def new_game_engine_def
        sample_params_def pos_count_def set_count_def position_lt_def)
  with move_goes_one_step [OF engine_inv_sample_game started_sample acting_sample position_sample,
      of Up "Position 1 2" "Position 0 0"] show ?thesis
    by auto
qed

text \<open>
  C24. Placing a bomb: it lies where the robot stands, has the full timer and the next identifier, and
  the turn logs it; no other bomb changes.
\<close>

theorem place_bomb_under_robot:
  assumes "engine_inv e" and "gameplay_started e" and "acting_player i e = Some p"
    and "map_of (players_positions e) p = Some pos" and "next_bomb_id e \<notin> keys (bombs e)"
  shows "\<exists>e'. place_bomb_handle_msg i e = Inr e'
    \<and> map_of (bombs e') = (map_of (bombs e))(next_bomb_id e \<mapsto> Bomb pos (bomb_timer (game_params e)))
    \<and> next_bomb_id e' = next_bomb_id e + 1
    \<and> logged (Bomb_placed_event (next_bomb_id e) pos) e e'"
proof -
  let ?e1 = "e\<lparr>next_bomb_id := next_bomb_id e + 1,
    bombs := map_insert (next_bomb_id e) (Bomb pos (bomb_timer (game_params e))) (bombs e)\<rparr>"
  have at: "map_at (players_positions e) p = Inr pos" using assms(4) by simp
  have "map_ok (bombs e)" using assms(1) by (simp add: engine_inv_def tables_ok_def)
  moreover obtain ts where "add_turn_event (current_turn e) (Bomb_placed_event (next_bomb_id e) pos) ?e1
      = Inr (?e1\<lparr>turns := ts\<rparr>)" "logged (Bomb_placed_event (next_bomb_id e) pos) e (?e1\<lparr>turns := ts\<rparr>)"
    using add_current_event [OF assms(1,2), of ?e1] by auto
  ultimately show ?thesis
    using assms(3,5) by (simp add: place_bomb_handle_msg_def at Let_def)
qed

theorem place_bomb_under_robot_witness:
  "\<exists>e'. place_bomb_handle_msg 1 sample_game = Inr e' \<and> map_of (bombs e') 1 = Some (Bomb (Position 1 1) 2)"
  using place_bomb_under_robot [OF engine_inv_sample_game started_sample acting_sample position_sample]
  by (auto simp: sample_game_def new_game_engine_def sample_params_def)

text \<open>
  Placing a block: it is inserted where the robot stands, and the turn logs it; the robots do not
  move.
\<close>

theorem place_block_under_robot:
  assumes "engine_inv e" and "gameplay_started e" and "acting_player i e = Some p"
    and "map_of (players_positions e) p = Some pos"
  shows "\<exists>e'. place_block_handle_msg i e = Inr e' \<and> blocks_positions e' = pos_insert pos (blocks_positions e)
    \<and> players_positions e' = players_positions e \<and> logged (Block_placed_event pos) e e'"
proof -
  let ?e1 = "e\<lparr>blocks_positions := pos_insert pos (blocks_positions e)\<rparr>"
  have at: "map_at (players_positions e) p = Inr pos" using assms(4) by simp
  obtain ts where "add_turn_event (current_turn e) (Block_placed_event pos) ?e1 = Inr (?e1\<lparr>turns := ts\<rparr>)"
      "logged (Block_placed_event pos) e (?e1\<lparr>turns := ts\<rparr>)"
    using add_current_event [OF assms(1,2), of ?e1] by auto
  with assms(3) show ?thesis by (simp add: place_block_handle_msg_def at)
qed

theorem place_block_under_robot_witness:
  "\<exists>e'. place_block_handle_msg 1 sample_game = Inr e' \<and> players_positions e' = players_positions sample_game"
  using place_block_under_robot [OF engine_inv_sample_game started_sample acting_sample position_sample] by blast

text \<open>
  An action of a client that has not joined, or whose robot was destroyed in this turn, has no
  effect at all, and raises no exception.
\<close>

theorem idle_client_is_ignored:
  assumes "engine_inv e" and "m \<in> {Place_bomb_msg, Place_block_msg} \<union> range Move_msg"
    and "\<forall>p. map_of (player_ids e) i = Some p \<longrightarrow> p \<in> elems (current_players_to_destroy e)"
  shows "client_handle_msg indet m i e = Inr e"
proof -
  have "set_ok (current_players_to_destroy e)" using assms(1) by (simp add: engine_inv_def tables_ok_def)
  then have "acting_player i e = None"
    using assms(3) set_count_ok by (auto simp: acting_player_def split: option.split)
  with assms(2) show ?thesis
    by (auto simp: place_bomb_handle_msg_def place_block_handle_msg_def move_handle_msg_def)
qed

theorem idle_client_is_ignored_witness:
  "client_handle_msg (Position 0 0) Place_bomb_msg 9 sample_game = Inr sample_game"
  by (rule idle_client_is_ignored [OF engine_inv_sample_game]) (simp_all add: sample_game_def)

subsection \<open>Joining\<close>

definition told :: "byte list \<Rightarrow> server_tcp_handler \<Rightarrow> (int \<times> byte list) list" where
  "told msg h = map (\<lambda>i. (slot_fd h i, msg)) (connected h)"

lemma told_simps [simp]: "told msg (send_message_to_all msg' h) = told msg h"
  by (simp add: told_def send_message_to_all_wire connected_def slot_fd_def)

lemma wire_send_all [simp]: "wire (send_message_to_all msg h) = wire h @ told msg h"
  by (simp add: told_def send_message_to_all_wire)

text \<open>
  C22. A join in the lobby: the client gets the number of players so far as its identifier, which no
  player has; all connected clients are told; and the game starts, with a message to all, exactly when
  the number of players of the configuration is reached.
\<close>

theorem join_gives_next_identifier:
  fixes name address :: cstring
  assumes "engine_inv e" and "\<not> gameplay_started e"
    and "map_of (addresses (tcp_handler e)) i = Some address"
  defines "n \<equiv> length (players e)" and "p \<equiv> Player name address"
  shows "of_nat n \<notin> keys (players e) \<and> (\<exists>e'. join_handle_msg name i e = Inr e'
    \<and> players e' = map_insert (of_nat n) p (players e) \<and> length (players e') = Suc n
    \<and> map_of (player_ids e') i = Some (of_nat n)
    \<and> gameplay_started e' = (Suc n = unat (players_count (game_params e)))
    \<and> wire (tcp_handler e') = wire (tcp_handler e) @ told (accepted_player_msg (of_nat n) p) (tcp_handler e)
        @ (if gameplay_started e' then told (game_started_msg e') (tcp_handler e) else []))"
proof -
  have l: "players_positions e = []" "turns e = []" "current_turn e = 0" "bombs e = []"
      "blocks_positions e = Leaf" "next_player_id e = of_nat n" "map_ok (player_ids e)"
    using assms(1,2) by (simp_all add: engine_inv_def lobby_ok_def tables_ok_def n_def)
  let ?e1 = "joined name address i e"
  have new: "of_nat n \<notin> keys (players e)" "length (map_insert (of_nat n) p (players e)) = Suc n"
    using lobby_join_tables(1,2) [OF assms(1,2)] l(6) by (simp_all add: n_def)
  have h: "tcp_handler ?e1 = send_message_to_all (accepted_player_msg (of_nat n) p) (tcp_handler e)"
    by (simp add: joined_def send_to_all_def l(6) p_def)
  note join = join_handle_msg_lobby [OF assms(2,3), of name]
  show ?thesis
  proof (cases "Suc n = unat (players_count (game_params e))")
    case False
    with join new l h assms(2) show ?thesis by (simp add: p_def)
  next
    case True
    then obtain e' where e': "start_gameplay ?e1 = Inr e'" "gameplay_started e'" "player_ids e' = player_ids ?e1"
        "players e' = players ?e1" "tcp_handler e' = send_message_to_all (game_started_msg ?e1) (tcp_handler ?e1)"
      using start_gameplay_ok [OF joined_tables [OF assms(1)], of name address i] l new(2) by (auto simp: p_def)
    moreover have "game_started_msg ?e1 = game_started_msg e'" by (simp add: game_started_msg_def e'(4))
    ultimately show ?thesis
      using join new l h True by (simp add: p_def)
  qed
qed

theorem join_gives_next_identifier_witness:
  "\<exists>e'. join_handle_msg [66] 2 sample_lobby = Inr e' \<and> gameplay_started e'"
proof -
  have "\<not> gameplay_started sample_lobby" "map_of (addresses (tcp_handler sample_lobby)) 2 = Some [98]"
    by (simp_all add: sample_lobby_def new_game_engine_def sample_handler_def)
  from join_gives_next_identifier [OF engine_inv_sample_lobby this, of "[66]"] show ?thesis
    by (auto simp: sample_lobby_def new_game_engine_def sample_params_def)
qed

text \<open>
  C33. An action sent in the lobby by a client that has joined ends the server: its robot has no
  position yet, and the exception of that lookup is caught nowhere.
\<close>

theorem lobby_action_ends_server:
  assumes "engine_inv e" and "\<not> gameplay_started e" and "i \<in> keys (player_ids e)"
    and "is_message_from (tcp_handler e) i" and "received_message (env_read env i) = Some m" and "\<not> is_join m"
  shows "serve_slot env i e = Inl Out_of_range"
proof (rule serve_slot_unsafe [OF assms(1,4)])
  show "\<not> safe_slot env i e" using assms(2,3,5,6) by (simp add: safe_slot_def safe_message_def)
qed

lemma decode_place_bomb: "decode_last [1] = Some Place_bomb_msg"
  by (simp add: decode_last.simps [of "[1]"] code_of_byte_defs)

theorem lobby_action_ends_server_witness:
  "serve_slot (quiet_env\<lparr>env_read := (\<lambda>i. Read_bytes [1])\<rparr>) 1 sample_lobby = Inl Out_of_range"
proof (rule lobby_action_ends_server [OF engine_inv_sample_lobby, where m = Place_bomb_msg])
  show "received_message (env_read (quiet_env\<lparr>env_read := (\<lambda>i. Read_bytes [1])\<rparr>) 1) = Some Place_bomb_msg"
    by (simp add: received_message_def buf_size_def decode_place_bomb)
  show "is_message_from (tcp_handler sample_lobby) 1"
    by (simp add: is_message_from_def slot_fd_def sample_lobby_def new_game_engine_def sample_handler_def
        POLLIN_def POLLERR_def)
qed (simp_all add: sample_lobby_def new_game_engine_def)

text \<open>
  C14. What the bytes of one read make the server do: they are decoded as a sequence of messages, of
  which only the last one is executed, and only when all of them are well-formed; otherwise the game is
  untouched, and the client is disconnected (any status but \<open>SUCCESS\<close>).
\<close>

theorem only_last_message_is_executed:
  assumes "handler_ok (tcp_handler e)"
  shows "\<exists>h status. handler_ok h \<and> same_connections (tcp_handler e) h \<and> status \<noteq> SUCCESS \<and>
    handle_msg indet r i e =
      (case received_message r of
         None \<Rightarrow> Inr (status, e\<lparr>tcp_handler := h\<rparr>)
       | Some msg \<Rightarrow> and_then (client_handle_msg indet msg i (e\<lparr>tcp_handler := h\<rparr>)) (\<lambda>e1. Inr (SUCCESS, e1)))"
  by (rule handle_msg_cases [OF assms]) blast

theorem only_last_message_is_executed_witness:
  "\<exists>h status. status \<noteq> SUCCESS \<and>
    handle_msg (Position 0 0) Read_failed 1 sample_game = Inr (status, sample_game\<lparr>tcp_handler := h\<rparr>)"
proof -
  have "handler_ok (tcp_handler sample_game)"
    using handler_ok_sample by (simp add: sample_game_def new_game_engine_def)
  from only_last_message_is_executed [OF this, of "Position 0 0" Read_failed 1] show ?thesis
    by (auto simp: received_message_def)
qed

subsection \<open>Connections\<close>

text \<open>
  C31. A new connection takes the least free slot and files its address there, leaving the other slots
  alone; when all 25 slots are taken it is closed and no slot changes.
\<close>

theorem accept_takes_least_free_slot:
  assumes "length (poll_descriptors h) = conn_max" and "accept_client client_fd ip prt h = (pos, h')"
  shows "case free_slot h of
      Some i \<Rightarrow> pos = int i \<and> 0 < i \<and> i < conn_max \<and> slot_fd h i = -1
        \<and> (\<forall>j. 0 < j \<and> j < i \<longrightarrow> slot_fd h j \<noteq> -1)
        \<and> (\<forall>j. slot_fd h' j = (if j = i then client_fd else slot_fd h j))
        \<and> addresses h' = map_assign i (peer_address ip prt) (addresses h)
    | None \<Rightarrow> pos = -1 \<and> (\<forall>j. 0 < j \<and> j < conn_max \<longrightarrow> slot_fd h j \<noteq> -1)
        \<and> (\<forall>j. slot_fd h' j = slot_fd h j) \<and> closed_fds h' = closed_fds h @ [client_fd]"
proof (cases "free_slot h")
  case None
  then show ?thesis
    using assms(2) free_slot_None [of h] by (auto simp: accept_client_def close_fd_def slot_fd_def)
next
  case (Some i)
  then have i: "0 < i" "i < conn_max" "slot_fd h i = -1" "\<forall>j. 0 < j \<and> j < i \<longrightarrow> slot_fd h j \<noteq> -1"
    by (simp_all add: free_slot_Some)
  have pos: "pos = int i"
      and h': "h' = (set_slot_fd i client_fd h)\<lparr>active_clients := active_clients h + 1,
        addresses := map_assign i (peer_address ip prt) (addresses h)\<rparr>"
    using assms(2) Some i by (auto simp: accept_client_def size_t_of_int_def conn_max_def)
  have "slot_fd h' j = slot_fd (set_slot_fd i client_fd h) j" for j by (simp add: h' slot_fd_def)
  with pos h' Some i assms(1) show ?thesis by simp
qed

lemma free_slot_sample: "free_slot sample_handler = Some 3"
  unfolding free_slot_Some using slot_fd_sample by (auto simp: conn_max_def)

theorem accept_takes_least_free_slot_witness:
  "fst (accept_client 6 [99] 80 sample_handler) = 3"
proof -
  have len: "length (poll_descriptors sample_handler) = conn_max"
    by (simp add: sample_handler_def conn_max_def)
  from accept_takes_least_free_slot [OF len surjective_pairing, of 6 "[99]" 80]
  show ?thesis by (simp add: free_slot_sample)
qed

text \<open>
  A message to all goes, once, to each slot that holds a connection and to no other, in slot order.
\<close>

theorem broadcast_reaches_connected_slots:
  "wire (send_message_to_all msg h) = wire h @ map (\<lambda>i. (slot_fd h i, msg)) (connected h)
    \<and> set (connected h) = {i. 0 < i \<and> i < conn_max \<and> slot_fd h i \<noteq> -1}
    \<and> sorted (connected h) \<and> distinct (connected h)"
  by (auto simp: send_message_to_all_wire connected_def sorted_wrt_filter)

text \<open>
  The greeting of a new connection goes to slot 1 whatever slot the connection got: a client
  accepted into another slot is told nothing, and the client of slot 1 is greeted again.
\<close>

theorem greeting_goes_to_slot_one:
  assumes "env_accept env = (client_fd, ip, prt)" and "free_slot (tcp_handler e) = Some i" and "i \<noteq> 1"
    and "length (poll_descriptors (tcp_handler e)) = conn_max"
  shows "wire (tcp_handler (accept_new env e)) =
    wire (tcp_handler e) @ map (\<lambda>m. (slot_fd (tcp_handler e) 1, message_bytes m)) (greeting e)"
proof -
  from accept_new_effect [OF assms(4,1)] assms(2,3) show ?thesis by simp
qed

theorem greeting_goes_to_slot_one_witness:
  "wire (tcp_handler (accept_new (quiet_env\<lparr>env_accept := (6, [99], 80)\<rparr>) sample_lobby)) =
     map (\<lambda>m. (4, message_bytes m)) (greeting sample_lobby)"
proof -
  have h: "tcp_handler sample_lobby = sample_handler" by (simp add: sample_lobby_def new_game_engine_def)
  have "length (poll_descriptors sample_handler) = conn_max" "slot_fd sample_handler 1 = 4"
      "wire sample_handler = []"
    by (simp_all add: sample_handler_def conn_max_def slot_fd_def)
  with greeting_goes_to_slot_one [of "quiet_env\<lparr>env_accept := (6, [99], 80)\<rparr>" 6 "[99]" 80 sample_lobby 3]
  show ?thesis by (simp add: h free_slot_sample)
qed

text \<open>
  A seat outlives its client: after a disconnection the slot keeps its player, and the next
  connection that gets the slot acts for that player without joining.
\<close>

theorem seat_is_inherited:
  assumes "handler_ok (tcp_handler e)" and "0 < i" "i < conn_max"
    and "\<forall>j. 0 < j \<and> j < i \<longrightarrow> slot_fd (tcp_handler e) j \<noteq> -1" and "status \<noteq> SUCCESS"
  shows "\<exists>h. accept_client client_fd ip prt (report_msg_status status i (tcp_handler e)) = (int i, h)
    \<and> slot_fd h i = client_fd \<and> acting_player i (e\<lparr>tcp_handler := h\<rparr>) = acting_player i e"
proof -
  let ?h = "report_msg_status status i (tcp_handler e)"
  have len: "length (poll_descriptors (tcp_handler e)) = conn_max" using assms(1) by (simp add: handler_ok_def)
  have slots: "slot_fd ?h j = (if j = i then -1 else slot_fd (tcp_handler e) j)" for j
    using assms(3,5) len
    by (simp add: report_msg_status_def slot_fd_def close_fd_def set_slot_fd_def nth_list_update)
  then have free: "free_slot ?h = Some i" using assms(2-4) by (simp add: free_slot_Some)
  obtain pos h where acc: "accept_client client_fd ip prt ?h = (pos, h)" by fastforce
  have "length (poll_descriptors ?h) = conn_max"
    using handler_ok_report [OF assms(1,3)] by (simp add: handler_ok_def)
  then have "pos = int i \<and> slot_fd h i = client_fd"
    using acc free assms(2,3)
    by (auto simp: accept_client_def slot_fd_def [of "_\<lparr>active_clients := _, addresses := _\<rparr>"] slot_fd_def [symmetric])
  with acc show ?thesis by simp
qed

theorem seat_is_inherited_witness:
  "\<exists>h. acting_player 1 (sample_game\<lparr>tcp_handler := h\<rparr>) = Some 0 \<and> slot_fd h 1 = 9"
proof -
  have "handler_ok (tcp_handler sample_game)"
    using handler_ok_sample by (simp add: sample_game_def new_game_engine_def)
  then obtain h where "slot_fd h 1 = 9"
      "acting_player 1 (sample_game\<lparr>tcp_handler := h\<rparr>) = acting_player 1 sample_game"
    using seat_is_inherited [of sample_game 1 END_CONN 9 "[99]" 80] by (auto simp: conn_max_def)
  then show ?thesis using acting_sample by metis
qed

subsection \<open>Configurations the server does not survive\<close>

text \<open>
  C40. On a board without columns the join that fills the lobby ends the server with a division by zero:
  the remainder by \<open>size_x\<close> is taken without a check.
\<close>

theorem empty_board_divides_by_zero:
  assumes "\<not> gameplay_started e" and "map_of (addresses (tcp_handler e)) i = Some address"
    and "length (map_insert (next_player_id e) (Player name address) (players e)) = unat (players_count (game_params e))"
    and "size_x (game_params e) = 0"
  shows "join_handle_msg name i e = Inl Division_by_zero"
proof -
  let ?e = "joined name address i e"
  have "keys (players ?e) \<noteq> {}" by simp
  then obtain p ps where "players ?e = p # ps"
    by (metis keys_simps(1) neq_Nil_conv)
  then have "start_gameplay ?e = Inl Division_by_zero"
    using assms(4)
    by (simp add: start_gameplay_def seed_players_def seed_player_def random_position_def random_coordinate_def
        send_to_all_def Let_def split_beta)
  with join_handle_msg_lobby [OF assms(1,2), of name] assms(3) show ?thesis by simp
qed

theorem empty_board_divides_by_zero_witness:
  "join_handle_msg [66] 2 (sample_lobby\<lparr>game_params := sample_params\<lparr>size_x := 0\<rparr>\<rparr>) = Inl Division_by_zero"
  by (rule empty_board_divides_by_zero [of _ _ "[98]"])
    (simp_all add: sample_lobby_def new_game_engine_def sample_handler_def map_insert_def sample_params_def)

text \<open>
  A position drawn at random is a field of the board, when the board has one: no division by zero,
  both coordinates below their bounds, and the generator moves on within its range.
\<close>

theorem random_position_on_board:
  assumes "random_ok (random e)" and "size_x (game_params e) \<noteq> 0" and "size_y (game_params e) \<noteq> 0"
  shows "\<exists>pos r. random_position e = Inr (pos, r) \<and> check_position e pos \<and> random_ok r"
proof -
  obtain x r1 where x: "random_coordinate (size_x (game_params e)) (random e) = Inr (x, r1)"
      "random_ok r1" "x < size_x (game_params e)"
    by (rule random_coordinate_ok [OF assms(1,2)])
  obtain y r2 where "random_coordinate (size_y (game_params e)) r1 = Inr (y, r2)"
      "random_ok r2" "y < size_y (game_params e)"
    by (rule random_coordinate_ok [OF x(2) assms(3)])
  with x show ?thesis by (simp add: random_position_def check_position_def)
qed

theorem random_position_on_board_witness:
  "\<exists>pos r. random_position sample_game = Inr (pos, r) \<and> check_position sample_game pos"
proof -
  have "random_ok (random sample_game)" "size_x (game_params sample_game) \<noteq> 0" "size_y (game_params sample_game) \<noteq> 0"
    by (simp_all add: sample_game_def new_game_engine_def random_ok_new sample_params_def)
  from random_position_on_board [OF this] show ?thesis by blast
qed

end
