(* ===== verification/Gui.thy ===== *)
theory Gui
  imports Client_Inv
begin

text \<open>
  What a GUI makes of the client's datagrams: a reference decoder of the two formats the README gives for
  \<open>DrawMessage\<close>, written with the readers of the protocol's types, and that it recovers the client's
  picture from every datagram.
\<close>

subsection \<open>The formats\<close>

text \<open>The fields of \<open>Game\<close> in the README: sets are lists there, and a bomb has no identifier.\<close>

record drawn_game =
  dg_server_name :: cstring
  dg_size_x :: u16
  dg_size_y :: u16
  dg_game_length :: u16
  dg_turn :: u16
  dg_players :: "(player_id, player) std_map"
  dg_player_positions :: "(player_id, position) std_map"
  dg_blocks :: "position list"
  dg_bombs :: "bomb list"
  dg_explosions :: "position list"
  dg_scores :: "(player_id, score) std_map"

datatype drawing = Drawn_lobby lobby_info | Drawn_game drawn_game

definition read_list :: "'a read_op \<Rightarrow> 'a list read_op" where
  "read_list m = read_counted m (\<lambda>x xs. xs @ [x]) []"

definition read_bomb :: "bomb read_op" where
  "read_bomb = read_then read_position (\<lambda>p. read_then read_u16 (\<lambda>t. read_return (Bomb p t)))"

definition read_positions_map :: "(player_id, position) std_map read_op" where
  "read_positions_map = read_counted (read_entry read_position) insert_entry []"

definition read_drawn_lobby :: "lobby_info read_op" where
  "read_drawn_lobby =
     read_then read_str (\<lambda>name. read_then read_u8 (\<lambda>count.
     read_then read_u16 (\<lambda>x. read_then read_u16 (\<lambda>y. read_then read_u16 (\<lambda>len.
     read_then read_u16 (\<lambda>radius. read_then read_u16 (\<lambda>tm. read_then read_players_map (\<lambda>ps.
       read_return ((new_lobby_info name count x y len radius tm)\<lparr>li_players := ps\<rparr>)))))))))"

definition read_drawn_game :: "drawn_game read_op" where
  "read_drawn_game =
     read_then read_str (\<lambda>name. read_then read_u16 (\<lambda>x. read_then read_u16 (\<lambda>y.
     read_then read_u16 (\<lambda>len. read_then read_u16 (\<lambda>t. read_then read_players_map (\<lambda>ps.
     read_then read_positions_map (\<lambda>pos. read_then (read_list read_position) (\<lambda>blocks.
     read_then (read_list read_bomb) (\<lambda>bombs. read_then (read_list read_position) (\<lambda>explosions.
     read_then read_scores_map (\<lambda>sc. read_return
       \<lparr>dg_server_name = name, dg_size_x = x, dg_size_y = y, dg_game_length = len, dg_turn = t, dg_players = ps,
        dg_player_positions = pos, dg_blocks = blocks, dg_bombs = bombs, dg_explosions = explosions,
        dg_scores = sc\<rparr>)))))))))))"

text \<open>A datagram holds one message and nothing else.\<close>

definition whole :: "'a read_op \<Rightarrow> byte list \<Rightarrow> 'a option" where
  "whole m bytes =
     (case m \<lparr>cur_buf = bytes, incoming = [], uninit = (\<lambda>i. 0), uninit_used = 0\<rparr> of
        Inl f \<Rightarrow> None
      | Inr (v, r) \<Rightarrow> if cur_buf r = [] then Some v else None)"

fun decode_drawing :: "byte list \<Rightarrow> drawing option" where
  "decode_drawing [] = None"
| "decode_drawing (code # bytes) =
     (if code = draw_code Lobby then map_option Drawn_lobby (whole read_drawn_lobby bytes)
      else if code = draw_code Game then map_option Drawn_game (whole read_drawn_game bytes)
      else None)"

subsection \<open>The client's picture\<close>

definition picture :: "game_info \<Rightarrow> drawn_game" where
  "picture g =
     \<lparr>dg_server_name = gi_server_name g, dg_size_x = gi_size_x g, dg_size_y = gi_size_y g,
      dg_game_length = gi_game_length g, dg_turn = gi_turn g, dg_players = gi_players g,
      dg_player_positions = gi_player_positions g, dg_blocks = inorder (gi_blocks g),
      dg_bombs = map snd (gi_bombs g), dg_explosions = inorder (gi_explosions g), dg_scores = gi_scores g\<rparr>"

definition players_ok :: "(player_id, player) std_map \<Rightarrow> bool" where
  "players_ok ps \<longleftrightarrow> map_ok ps \<and> list_all (value_ok player_ok) ps"

definition lobby_drawable :: "lobby_info \<Rightarrow> bool" where
  "lobby_drawable l \<longleftrightarrow> str_ok (li_server_name l) \<and> players_ok (li_players l)"

definition game_drawable :: "game_info \<Rightarrow> bool" where
  "game_drawable g \<longleftrightarrow> str_ok (gi_server_name g) \<and> players_ok (gi_players g) \<and> map_ok (gi_player_positions g)
     \<and> map_ok (gi_scores g) \<and> length (inorder (gi_blocks g)) < 4294967296 \<and> length (gi_bombs g) < 4294967296
     \<and> length (inorder (gi_explosions g)) < 4294967296"

subsection \<open>Reading a drawing back\<close>

interpretation bomb_codec: codec read_bomb bomb_to_bytes always
proof unfold_locales
  fix b
  have "reads read_bomb (position_to_bytes (bomb_position b) @ uint16_to_bytes (timer b)) (Bomb (bomb_position b) (timer b))"
    unfolding read_bomb_def by (rule reads_then [OF reads_position]) (rule reads_then_return, rule reads_u16)
  then show "reads read_bomb (bomb_to_bytes b) b" by (simp add: bomb_to_bytes_def)
qed

interpretation position_entry: codec "read_entry read_position"
    "\<lambda>p. uint8_to_byte (fst p) # position_to_bytes (snd p)" "value_ok always"
  by unfold_locales (use position_codec.decodes_entry in \<open>force simp: value_ok_def always_def\<close>)

lemma fold_snoc: "fold (\<lambda>x xs. xs @ [x]) xs acc = acc @ xs"
  by (induction xs arbitrary: acc) simp_all

context codec begin

lemma reads_list:
  assumes "list_all valid xs" and "length xs < 4294967296"
  shows "reads (read_list dec) (counted_to_bytes enc xs) xs"
  using reads_counted [OF assms, of "\<lambda>x xs. xs @ [x]" "[]"] by (simp add: read_list_def fold_snoc)

end

lemma reads_positions_map: "map_ok m \<Longrightarrow> reads read_positions_map (player_position_map_to_bytes m) m"
  using position_entry.reads_counted [of m insert_entry "[]"] fold_insert_entry [of "[]" m] length_u8_map [of m]
  by (simp add: read_positions_map_def player_position_map_to_bytes_def list_all_iff value_ok_def always_def)

lemma reads_players: "players_ok ps \<Longrightarrow> reads read_players_map (player_map_to_bytes ps) ps"
  by (simp add: players_ok_def reads_players_map length_u8_map)

lemma reads_scores: "map_ok sc \<Longrightarrow> reads read_scores_map (score_map_to_bytes sc) sc"
  by (simp add: reads_scores_map length_u8_map)

lemma reads_positions:
  "length (inorder s) < 4294967296 \<Longrightarrow> reads (read_list read_position) (position_set_to_bytes s) (inorder s)"
  by (simp add: position_set_to_bytes_def position_codec.reads_list)

lemma reads_bombs:
  "length bs < 4294967296 \<Longrightarrow> reads (read_list read_bomb) (bomb_set_to_bytes bs) (map snd bs)"
  using bomb_codec.reads_list [of "map snd bs"]
  by (simp add: bomb_set_to_bytes_def counted_to_bytes_def comp_def)

lemma reads_drawn_lobby:
  assumes "lobby_drawable l"
  shows "reads read_drawn_lobby (tl (lobby_message l)) l"
proof -
  have ok: "length (li_server_name l) < 256" "players_ok (li_players l)"
    using assms by (simp_all add: lobby_drawable_def str_ok_def)
  have "tl (lobby_message l) = string_to_bytes (li_server_name l) @ [uint8_to_byte (li_players_count l)]
       @ uint16_to_bytes (li_size_x l) @ uint16_to_bytes (li_size_y l)
       @ uint16_to_bytes (li_game_length l) @ uint16_to_bytes (li_explosion_radius l)
       @ uint16_to_bytes (li_bomb_timer l) @ player_map_to_bytes (li_players l)"
    by (simp add: lobby_message_def)
  moreover have "reads read_drawn_lobby \<dots>
      ((new_lobby_info (li_server_name l) (li_players_count l) (li_size_x l) (li_size_y l) (li_game_length l)
        (li_explosion_radius l) (li_bomb_timer l))\<lparr>li_players := li_players l\<rparr>)"
    unfolding read_drawn_lobby_def
    by (intro reads_then [OF reads_str [OF ok(1)]] reads_then [OF reads_u8] reads_then [OF reads_u16]
        reads_then_return [OF reads_players [OF ok(2)]])
  moreover have "(new_lobby_info (li_server_name l) (li_players_count l) (li_size_x l) (li_size_y l) (li_game_length l)
        (li_explosion_radius l) (li_bomb_timer l))\<lparr>li_players := li_players l\<rparr> = l"
    by (simp add: new_lobby_info_def)
  ultimately show ?thesis by metis
qed

lemma reads_drawn_game:
  assumes "game_drawable g"
  shows "reads read_drawn_game (tl (game_message g)) (picture g)"
proof -
  have ok: "length (gi_server_name g) < 256" "players_ok (gi_players g)" "map_ok (gi_player_positions g)"
      "map_ok (gi_scores g)" "length (inorder (gi_blocks g)) < 4294967296" "length (gi_bombs g) < 4294967296"
      "length (inorder (gi_explosions g)) < 4294967296"
    using assms by (simp_all add: game_drawable_def str_ok_def)
  have "tl (game_message g) = string_to_bytes (gi_server_name g)
       @ uint16_to_bytes (gi_size_x g) @ uint16_to_bytes (gi_size_y g)
       @ uint16_to_bytes (gi_game_length g) @ uint16_to_bytes (gi_turn g)
       @ player_map_to_bytes (gi_players g) @ player_position_map_to_bytes (gi_player_positions g)
       @ position_set_to_bytes (gi_blocks g) @ bomb_set_to_bytes (gi_bombs g)
       @ position_set_to_bytes (gi_explosions g) @ score_map_to_bytes (gi_scores g)"
    by (simp add: game_message_def)
  moreover have "reads read_drawn_game \<dots> (picture g)"
    unfolding read_drawn_game_def picture_def
    by (intro reads_then [OF reads_str [OF ok(1)]] reads_then [OF reads_u16] reads_then [OF reads_players [OF ok(2)]]
        reads_then [OF reads_positions_map [OF ok(3)]] reads_then [OF reads_positions [OF ok(5)]]
        reads_then [OF reads_bombs [OF ok(6)]] reads_then [OF reads_positions [OF ok(7)]]
        reads_then_return [OF reads_scores [OF ok(4)]])
  ultimately show ?thesis by simp
qed

lemma whole_reads: "reads m bytes v \<Longrightarrow> whole m bytes = Some v"
  by (simp add: whole_def reads_def)

lemma decode_lobby: "lobby_drawable l \<Longrightarrow> decode_drawing (lobby_message l) = Some (Drawn_lobby l)"
  using whole_reads [OF reads_drawn_lobby, of l] by (simp add: lobby_message_def)

lemma decode_game: "game_drawable g \<Longrightarrow> decode_drawing (game_message g) = Some (Drawn_game (picture g))"
  using whole_reads [OF reads_drawn_game, of g] by (simp add: game_message_def)

subsection \<open>What each message makes the client draw\<close>

definition draws :: "server_message \<Rightarrow> client \<Rightarrow> drawing list" where
  "draws m c = (case m of
       Started_message ps \<Rightarrow> []
     | Turn_message ti \<Rightarrow> [Drawn_game (picture (game c))]
     | _ \<Rightarrow> [Drawn_lobby (lobby c)])"

lemma apply_message_draws:
  assumes "apply_message t sent m c = Inr c'" and "lobby_drawable (lobby c')" and "game_drawable (game c')"
  shows "\<exists>sent. to_gui c' = to_gui c @ sent \<and> map decode_drawing sent = map Some (draws m c')"
  using assms decode_lobby [of "lobby c'"] decode_game [of "game c'"]
  by (cases m) (auto simp: send_gui_message_def Let_def draws_def split: if_splits)

end
