(* ===== verification/Long_Turn.thy ===== *)
theory Long_Turn
  imports Replay
begin

text \<open>A turn longer than the client's buffer: what the client makes of one that is cut in its last number.\<close>

lemma blocks_applied: "for_each apply_event (map Block_placed_event ps) g = Inr (fold add_block ps g)"
  by (induction ps arbitrary: g) simp_all

lemma turn_of_blocks:
  "apply_turn (Turn_info n (map Block_placed_event ps)) g = Inr (fold add_block ps (new_turn n g))"
  by (simp add: apply_turn_def blocks_applied)

lemma blocks_added: "gi_blocks (fold add_block ps g) = fold pos_insert ps (gi_blocks g)"
  by (induction ps arbitrary: g) (simp_all add: add_block_def)

text \<open>The message up to the cut.\<close>

definition cut_turn :: "u16 \<Rightarrow> position list \<Rightarrow> u16 \<Rightarrow> u16 \<Rightarrow> byte list" where
  "cut_turn n ps x y = server_code Turn # uint16_to_bytes n @ uint32_to_bytes (of_nat (Suc (length ps)))
     @ concat (map event_to_bytes (map Block_placed_event ps)) @ event_byte Block_placed # uint16_to_bytes x @ [ucast (drop_bit 8 y)]"

lemma length_block_events: "length (concat (map event_to_bytes (map Block_placed_event ps))) = 5 * length ps"
  by (induction ps) (simp_all add: position_to_bytes_def uint16_to_bytes_def)

lemma cut_turn_bytes:
  "message_bytes (Turn_message (Turn_info n (map Block_placed_event (ps @ [Position x y])))) = cut_turn n ps x y @ [ucast y]"
  by (simp add: turn_info_to_bytes_counted counted_to_bytes_def cut_turn_def position_to_bytes_def uint16_to_bytes_def)

lemma length_cut_turn: "length (cut_turn n ps x y) = 12 + 5 * length ps - 1"
  using length_block_events [of ps] by (simp add: cut_turn_def uint16_to_bytes_def uint32_to_bytes_def)

lemma receive_cut_position:
  "receive read_position k (advance (uint16_to_bytes x @ [b]) c) =
     k (Position x (uint16_of_bytes b (uninit (rd c) (uninit_used (rd c) + 1))))
       (advance [] (rd_update (\<lambda>r. r\<lparr>uninit_used := uninit_used r + 2\<rparr>) c))"
proof -
  let ?r = "(rd c)\<lparr>cur_buf := uint16_to_bytes x @ [b]\<rparr>"
  have "read_u16 ?r = Inr (x, (rd c)\<lparr>cur_buf := [b]\<rparr>)" using readsD [OF reads_u16, of ?r x "[b]"] by simp
  with read_u16_split [of "(rd c)\<lparr>cur_buf := [b]\<rparr>" b] show ?thesis
    by (cases "rd c") (simp add: receive_def advance_def read_position_def read_then_def read_return_def)
qed

lemma cut_turn_read:
  assumes "length ps < 4294967295"
  shows "read_turn (advance (tl (cut_turn n ps x y)) c) =
    lift_game (apply_turn (Turn_info n (map Block_placed_event
        (ps @ [Position x (uint16_of_bytes (ucast (drop_bit 8 y)) (uninit (rd c) (uninit_used (rd c) + 1)))]))))
      (advance [] (rd_update (\<lambda>r. r\<lparr>uninit_used := uninit_used r + 2\<rparr>) c))"
proof -
  let ?b = "ucast (drop_bit 8 y)" and ?evs = "map Block_placed_event ps" and ?m = "length ps"
  let ?tail = "event_byte Block_placed # uint16_to_bytes x @ [?b]" and ?d = "set_game (new_turn n) c"
  let ?pos = "Position x (uint16_of_bytes ?b (uninit (rd c) (uninit_used (rd c) + 1)))"
  have count: "unat (of_nat (Suc ?m) :: u32) = Suc ?m" using assms by (intro unat_of_nat_small) simp
  have ok: "list_all event_ok ?evs" by (simp add: list_all_iff)
  have one: "for_each (\<lambda>i. read_event) [?m] = read_event"
  proof
    show "for_each (\<lambda>i. read_event) [?m] c = read_event c" for c by (cases "read_event c") simp_all
  qed
  have "read_turn (advance (tl (cut_turn n ps x y)) c) =
      for_each (\<lambda>i. read_event) ([0..<?m] @ [?m]) (advance (concat (map event_to_bytes ?evs) @ ?tail) ?d)"
    by (simp add: read_turn_def read_event_list_def cut_turn_def count del: of_nat_Suc event_byte.simps)
  also have "\<dots> = and_then (lift_game (for_each apply_event ?evs) (advance ?tail ?d)) read_event"
    using read_events_refine [OF ok, of 0 ?tail ?d] by (simp add: for_each_append one del: event_byte.simps)
  also have "\<dots> = read_event (advance ?tail (set_game (fold add_block ps) ?d))"
    by (simp add: lift_game_def blocks_applied set_game_def)
  also have "\<dots> = Inr (set_game (add_block ?pos)
      (advance [] (rd_update (\<lambda>r. r\<lparr>uninit_used := uninit_used r + 2\<rparr>) (set_game (fold add_block ps) ?d))))"
    using receive_cut_position [of "\<lambda>pos c. Inr (set_game (add_block pos) c)" x ?b "set_game (fold add_block ps) ?d"]
    by (simp add: read_event_def read_block_placed_def set_game_def del: event_byte.simps)
  finally show ?thesis
    using turn_of_blocks [of n "ps @ [?pos]" "game c"] by (simp add: lift_game_def set_game_def advance_def)
qed

lemma turn_cut_in_row:
  assumes "length ps = 49" and "cur_buf (rd c) = []"
    and "incoming (rd c) = message_bytes (Turn_message (Turn_info n (map Block_placed_event (ps @ [Position x y])))) # later"
  shows "handle_server_message t sent c =
    apply_message t sent (Turn_message (Turn_info n (map Block_placed_event
        (ps @ [Position x (uint16_of_bytes (ucast (drop_bit 8 y)) (uninit (rd c) (uninit_used (rd c) + 1)))]))))
      (rd_update (\<lambda>r. r\<lparr>incoming := [ucast y] # later, uninit_used := uninit_used r + 2\<rparr>) c)"
proof -
  let ?next = "incoming_update (\<lambda>_. [ucast y] # later)"
  let ?c = "rd_update (\<lambda>r. r\<lparr>incoming := [ucast y] # later, uninit_used := uninit_used r + 2\<rparr>) c"
  let ?turn = "Turn_info n (map Block_placed_event
    (ps @ [Position x (uint16_of_bytes (ucast (drop_bit 8 y)) (uninit (rd c) (uninit_used (rd c) + 1)))]))"
  have len: "length (cut_turn n ps x y) = BUFFER_SIZE" using assms(1) by (simp add: length_cut_turn BUFFER_SIZE_def)
  then have load: "read_if_buf_empty (rd c) = Inr (cur_buf_update (\<lambda>_. cut_turn n ps x y) (?next (rd c)))"
    using assms(2) assms(3) [unfolded cut_turn_bytes] by (auto simp: read_if_buf_empty_def read_server_def BUFFER_SIZE_def)
  have "cut_turn n ps x y = server_code Turn # tl (cut_turn n ps x y)" by (simp add: cut_turn_def)
  then have "c\<lparr>rd := cur_buf_update (\<lambda>_. cut_turn n ps x y) (?next (rd c))\<rparr>
      = advance (server_code Turn # tl (cut_turn n ps x y)) (rd_update ?next c)"
    by (simp add: advance_def del: server_code.simps)
  with handle_after_load [OF load, of t sent]
  have "handle_server_message t sent c = handle_turn_message sent (advance (tl (cut_turn n ps x y)) (rd_update ?next c))"
    by (simp add: handle_code del: server_code.simps)
  also have "\<dots> = and_then (lift_game (apply_turn ?turn) ?c) (\<lambda>c. send_gui_message sent (game_message (game c)) c)"
  proof -
    have "advance [] (rd_update (\<lambda>r. r\<lparr>uninit_used := uninit_used r + 2\<rparr>) (rd_update ?next c)) = ?c"
      using assms(2) by (simp add: advance_def)
    moreover have "rd (rd_update ?next c) = ?next (rd c)" by simp
    ultimately show ?thesis
      using cut_turn_read [of ps n x y "rd_update ?next c"] assms(1) by (simp add: handle_turn_message_def)
  qed
  also have "\<dots> = apply_message t sent (Turn_message ?turn) ?c"
    by (cases "apply_turn ?turn (game c)") (simp_all add: lift_game_def)
  finally show ?thesis .
qed

end
