(* ===== verification/Threads.thy ===== *)
theory Threads
  imports Client
begin

text \<open>
  The two threads of the client: what a round of the one leaves alone of the other's, and that a round of each can be
  exchanged unless the flag they share changes.
\<close>

subsection \<open>What belongs to the thread of the GUI\<close>

record gui_part =
  part_buf :: "byte list"
  part_pos :: nat
  part_length :: u64
  part_sent :: "byte list list"
  part_name :: cstring

definition gui_part_of :: "client \<Rightarrow> gui_part" where
  "gui_part_of c = \<lparr>part_buf = buf_udp c, part_pos = buf_udp_pos c, part_length = buf_udp_length c, part_sent = to_server c,
     part_name = param_name c\<rparr>"

definition with_gui_part :: "gui_part \<Rightarrow> client \<Rightarrow> client" where
  "with_gui_part u c = c\<lparr>buf_udp := part_buf u, buf_udp_pos := part_pos u, buf_udp_length := part_length u, to_server := part_sent u,
     param_name := part_name u\<rparr>"

lemma with_gui_part_simps [simp]:
  "rd (with_gui_part u c) = rd c" "game (with_gui_part u c) = game c" "lobby (with_gui_part u c) = lobby c"
  "known_scores (with_gui_part u c) = known_scores c" "to_gui (with_gui_part u c) = to_gui c"
  "is_lobby_status (with_gui_part u c) = is_lobby_status c"
  "(with_gui_part u c)\<lparr>rd := r\<rparr> = with_gui_part u (c\<lparr>rd := r\<rparr>)"
  "(with_gui_part u c)\<lparr>game := g\<rparr> = with_gui_part u (c\<lparr>game := g\<rparr>)"
  "(with_gui_part u c)\<lparr>lobby := l\<rparr> = with_gui_part u (c\<lparr>lobby := l\<rparr>)"
  "(with_gui_part u c)\<lparr>is_lobby_status := b\<rparr> = with_gui_part u (c\<lparr>is_lobby_status := b\<rparr>)"
  "(with_gui_part u c)\<lparr>to_gui := ds\<rparr> = with_gui_part u (c\<lparr>to_gui := ds\<rparr>)"
  "gui_part_of (with_gui_part u c) = u" "with_gui_part (gui_part_of c) c = c"
  by (simp_all add: with_gui_part_def gui_part_of_def)

subsection \<open>A round on the server's messages\<close>

text \<open>Programs of the receiving thread: they neither look at the other's part nor change it.\<close>

definition frames :: "(client \<Rightarrow> client res) \<Rightarrow> bool" where
  "frames f \<longleftrightarrow> (\<forall>u c. f (with_gui_part u c) = and_then (f c) (\<lambda>c1. Inr (with_gui_part u c1)))"

named_theorems frames_intros

lemma framesD: "frames f \<Longrightarrow> f (with_gui_part u c) = and_then (f c) (\<lambda>c1. Inr (with_gui_part u c1))"
  by (simp add: frames_def)

lemma frames_receive [frames_intros]:
  assumes "\<And>a. frames (k a)"
  shows "frames (receive m k)"
proof -
  have "receive m k (with_gui_part u c) = and_then (receive m k c) (\<lambda>c1. Inr (with_gui_part u c1))" for u c
    by (cases "m (rd c)") (auto simp: receive_def framesD [OF assms])
  then show ?thesis by (simp add: frames_def)
qed

lemma frames_then [frames_intros]:
  assumes "frames f" and "frames g"
  shows "frames (\<lambda>c. and_then (f c) g)"
proof -
  have "and_then (f (with_gui_part u c)) g = and_then (and_then (f c) g) (\<lambda>c1. Inr (with_gui_part u c1))" for u c
    using framesD [OF assms(1), of u c] framesD [OF assms(2)] by (cases "f c") simp_all
  then show ?thesis by (simp add: frames_def)
qed

lemma frames_for_each [frames_intros]:
  assumes "\<And>x. frames (f x)"
  shows "frames (for_each f xs)"
proof (induction xs)
  case (Cons x xs)
  have "frames (\<lambda>c. and_then (f x c) (for_each f xs))" by (rule frames_then [OF assms Cons.IH])
  moreover have "for_each f (x # xs) = (\<lambda>c. and_then (f x c) (for_each f xs))" by (rule ext) simp
  ultimately show ?case by simp
qed (simp add: frames_def)

lemma frames_fault [frames_intros]: "frames (\<lambda>c. Inl fault)" "frames (\<lambda>c. exit_with_msg)"
  by (simp_all add: frames_def)

lemma frames_pure [frames_intros]:
  "frames (\<lambda>c. Inr (set_game f c))" "frames (\<lambda>c. Inr c)" "frames (\<lambda>c. Inr (c\<lparr>is_lobby_status := b\<rparr>))"
  "frames (\<lambda>c. Inr (c\<lparr>lobby := l\<rparr>))" "frames (\<lambda>c. Inr (c\<lparr>lobby := add_player i p (lobby c)\<rparr>))"
  by (simp_all add: frames_def set_game_def)

lemma frames_set_game: "frames f \<Longrightarrow> frames (\<lambda>c. f (set_game g c))"
  by (simp add: frames_def set_game_def)

lemma frames_send_gui: "frames (\<lambda>c. send_gui_message sent (msg c) c)" if "\<And>u c. msg (with_gui_part u c) = msg c"
  using that by (simp add: frames_def send_gui_message_def)

lemma frames_destroy [frames_intros]: "frames (destroy_robot r)"
proof -
  have "destroy_robot r (with_gui_part u c) = and_then (destroy_robot r c) (\<lambda>c1. Inr (with_gui_part u c1))" for u c
    by (cases "destroy_player r (game c)") (simp_all add: destroy_robot_def)
  then show ?thesis by (simp add: frames_def)
qed

lemma frames_event [frames_intros]: "frames read_event"
  unfolding read_event_def
proof (rule frames_receive)
  fix code
  have "frames read_bomb_placed" "frames read_player_moved" "frames read_block_placed"
    unfolding read_bomb_placed_def read_player_moved_def read_block_placed_def by (intro frames_intros)+
  moreover have "frames read_bomb_exploded"
    unfolding read_bomb_exploded_def
    by (intro frames_receive frames_set_game [of "receive read_player_id_list k" for k] frames_intros)
  ultimately show "frames (case event_code_of_byte code of
         Some Bomb_placed \<Rightarrow> read_bomb_placed
       | Some Bomb_exploded \<Rightarrow> read_bomb_exploded
       | Some Player_moved \<Rightarrow> read_player_moved
       | Some Block_placed \<Rightarrow> read_block_placed
       | None \<Rightarrow> (\<lambda>c. exit_with_msg))"
    using frames_fault by (auto split: option.split event_code.split)
qed

lemma frames_send_game: "frames (\<lambda>c. send_gui_message sent (game_message (game c)) c)"
  by (rule frames_send_gui) simp

lemma frames_send_lobby: "frames (\<lambda>c. send_gui_message sent (lobby_message (lobby c)) c)"
  by (rule frames_send_gui) simp

lemma frames_read_turn: "frames read_turn"
  unfolding read_turn_def read_event_list_def
  by (intro frames_receive frames_set_game [of "receive read_u32 k" for k] frames_intros)

lemma frames_handlers:
  "frames (handle_hello_msg sent)" "frames (handle_accepted_player_msg sent)" "frames (handle_game_started_msg t)"
  "frames (handle_turn_message sent)" "frames (handle_game_ended_msg sent)"
proof -
  have "frames read_hello"
    unfolding read_hello_def by (intro frames_receive frames_pure)
  then show "frames (handle_hello_msg sent)"
    unfolding handle_hello_msg_def by (intro frames_then frames_send_lobby frames_pure)
  have "frames read_accepted_player"
    unfolding read_accepted_player_def by (intro frames_receive frames_pure)
  then show "frames (handle_accepted_player_msg sent)"
    unfolding handle_accepted_player_msg_def by (intro frames_then frames_send_lobby)
  show "frames (handle_turn_message sent)"
    unfolding handle_turn_message_def by (intro frames_then frames_read_turn frames_send_game)
  have "frames (receive read_players_map (\<lambda>players c. Inr c))" by (intro frames_receive frames_pure)
  then have "read_game_started t (with_gui_part u c) = and_then (read_game_started t c) (\<lambda>c1. Inr (with_gui_part u c1))" for u c
    by (cases "new_game_info t (li_server_name (lobby c)) (li_size_x (lobby c)) (li_size_y (lobby c)) (li_game_length (lobby c))
        (li_players (lobby c)) (li_bomb_timer (lobby c)) (known_scores c)") (simp_all add: read_game_started_def framesD)
  then have "frames (read_game_started t)" by (simp add: frames_def)
  then show "frames (handle_game_started_msg t)"
    unfolding handle_game_started_msg_def by (intro frames_then frames_pure)
  have "frames (\<lambda>c. send_gui_message sent (lobby_message (lobby (c\<lparr>lobby := clear_players (lobby c), is_lobby_status := True\<rparr>)))
      (c\<lparr>lobby := clear_players (lobby c), is_lobby_status := True\<rparr>))"
    by (simp add: frames_def send_gui_message_def)
  moreover have "frames read_game_ended" unfolding read_game_ended_def by (intro frames_receive frames_pure)
  ultimately show "frames (handle_game_ended_msg sent)"
    unfolding handle_game_ended_msg_def Let_def by (intro frames_then)
qed

lemma frames_server_round: "frames (handle_server_message t sent)"
  unfolding handle_server_message_def
  by (rule frames_receive) (auto split: option.split server_message_code.split intro: frames_handlers frames_fault)

subsection \<open>A round on the GUI's datagrams\<close>

text \<open>It changes its own part only, and depends on that part and the flag.\<close>

definition same_for_gui :: "client \<Rightarrow> client \<Rightarrow> bool" where
  "same_for_gui c c' \<longleftrightarrow> gui_part_of c' = gui_part_of c \<and> is_lobby_status c' = is_lobby_status c"

lemma gui_round_local:
  assumes "same_for_gui c c'"
  shows "handle_gui_message r w c' = and_then (handle_gui_message r w c) (\<lambda>c1. Inr (with_gui_part (gui_part_of c1) c'))"
proof (cases r)
  case (Some datagram)
  have same: "buf_udp c' = buf_udp c" "buf_udp_pos c' = buf_udp_pos c" "buf_udp_length c' = buf_udp_length c"
      "to_server c' = to_server c" "is_lobby_status c' = is_lobby_status c" "param_name c' = param_name c"
    using assms by (simp_all add: same_for_gui_def gui_part_of_def)
  show ?thesis
    unfolding handle_gui_message_def Some
    by (simp add: read_uint8_udp_def receive_udp_def send_server_message_def Let_def same gui_part_of_def with_gui_part_def
        split: option.split input_message_code.split)
qed (simp add: handle_gui_message_def)

lemma server_round_keeps_part:
  assumes "handle_server_message t sent c = Inr c'"
  shows "gui_part_of c' = gui_part_of c"
proof -
  have "Inr c' = Inr (with_gui_part (gui_part_of c) c')"
    using framesD [OF frames_server_round, of t sent "gui_part_of c" c] assms by simp
  then show ?thesis using with_gui_part_simps(12) by (metis Inr_inject)
qed

lemma rounds_exchange:
  assumes server: "handle_server_message t sent c = Inr c1" and flag: "is_lobby_status c1 = is_lobby_status c"
  shows "handle_gui_message r w c1 = and_then (handle_gui_message r w c) (handle_server_message t sent)"
proof -
  have "same_for_gui c c1" using server_round_keeps_part [OF server] flag by (simp add: same_for_gui_def)
  note gui = gui_round_local [OF this, of r w]
  show ?thesis
  proof (cases "handle_gui_message r w c")
    case (Inr c2)
    have "same_for_gui c c" by (simp add: same_for_gui_def)
    from gui_round_local [OF this, of r w] Inr have "c2 = with_gui_part (gui_part_of c2) c" by simp
    with framesD [OF frames_server_round, of t sent "gui_part_of c2" c] server
    have "handle_server_message t sent c2 = Inr (with_gui_part (gui_part_of c2) c1)" by simp
    with gui Inr show ?thesis by simp
  qed (use gui in simp)
qed

end
