(* ===== verification/Client_Props.thy ===== *)
theory Client_Props
  imports Samples Gui Long_Turn Threads
begin

text \<open>Properties of the client: what it makes of the server's messages, and how it reads the stream.\<close>

subsection \<open>The server's messages\<close>

text \<open>
  C12. The client's handlers refine the meaning of the server's messages: when the buffer, after the read
  that starts a round, holds the bytes the server's writers give a well-formed message, one round does
  to the client exactly what \<open>apply_message\<close> says, errors included, and leaves the bytes that follow.
\<close>

theorem client_understands_server:
  assumes "read_if_buf_empty (rd c) = Inr r" and "cur_buf r = message_bytes m @ rest" and "message_ok m"
  shows "handle_server_message t sent c = apply_message t sent m (advance rest (c\<lparr>rd := r\<rparr>))"
  by (rule handle_front [OF assms])

theorem client_understands_server_witness:
  "\<exists>c'. handle_server_message 0 True (new_client [65] [message_bytes (Hello_message sample_params)] (\<lambda>i. 0)) = Inr c'
    \<and> lobby c' = lobby_of sample_params \<and> is_lobby_status c'"
proof -
  let ?c = "new_client [65] [message_bytes (Hello_message sample_params)] (\<lambda>i. 0)"
  let ?r = "(rd ?c)\<lparr>cur_buf := message_bytes (Hello_message sample_params) @ [], incoming := []\<rparr>"
  have r: "read_if_buf_empty (rd ?c) = Inr ?r"
    by (simp add: new_client_def read_if_buf_empty_piece hello_msg_def sample_params_def string_to_bytes_def
        uint16_to_bytes_def BUFFER_SIZE_def)
  have "message_ok (Hello_message sample_params)" by (simp add: str_ok_def sample_params_def)
  with client_understands_server [OF r, of "Hello_message sample_params" "[]" 0 True] show ?thesis
    by (simp add: send_gui_message_def)
qed

text \<open>
  C13. A run through the stream. As long as every piece that arrives fits the buffer and holds whole well-formed
  messages of the server, one or several, as many rounds as there are messages do what the messages mean, in their order,
  errors included, and consume exactly these pieces.
\<close>

theorem client_runs_through_stream:
  assumes "list_all (list_all message_ok) mss" and "[] \<notin> set mss"
    and "list_all (\<lambda>piece. length piece \<le> BUFFER_SIZE) (pieces mss)"
    and "cur_buf (rd c) = []" and "incoming (rd c) = pieces mss @ later"
  shows "for_each (\<lambda>m. handle_server_message t sent) (concat mss) c
    = and_then (for_each (apply_message t sent) (concat mss) c)
        (\<lambda>c'. Inr (rd_update (incoming_update (\<lambda>_. later)) c'))"
  by (rule rounds_over_pieces [OF assms])

theorem client_runs_through_stream_witness:
  "\<exists>c'. for_each (\<lambda>m. handle_server_message 0 True)
      [Hello_message sample_params, Accepted_message 0 (Player [65] [97]), Ended_message []]
      (new_client [66] (pieces [[Hello_message sample_params, Accepted_message 0 (Player [65] [97])], [Ended_message []]])
        (\<lambda>i. 0)) = Inr c' \<and> li_players (lobby c') = [] \<and> length (to_gui c') = 3"
proof -
  let ?mss = "[[Hello_message sample_params, Accepted_message 0 (Player [65] [97])], [Ended_message []]]"
  let ?c = "new_client [66] (pieces ?mss) (\<lambda>i. 0)"
  have "list_all (list_all message_ok) ?mss"
    by (simp add: str_ok_def player_ok_def sample_params_def)
  moreover have "cur_buf (rd ?c) = []" "incoming (rd ?c) = pieces ?mss @ []" by (simp_all add: new_client_def)
  moreover have "list_all (\<lambda>piece. length piece \<le> BUFFER_SIZE) (pieces ?mss)"
    by (simp add: pieces_def hello_msg_def accepted_player_msg_def player_to_bytes_def score_map_to_bytes_def counted_to_bytes_def
        sample_params_def string_to_bytes_def uint16_to_bytes_def uint32_to_bytes_def BUFFER_SIZE_def)
  ultimately have run: "for_each (\<lambda>m. handle_server_message 0 True) (concat ?mss) ?c
      = and_then (for_each (apply_message 0 True) (concat ?mss) ?c)
          (\<lambda>c'. Inr (rd_update (incoming_update (\<lambda>_. [])) c'))"
    by (intro client_runs_through_stream) simp_all
  have "\<exists>c'. and_then (for_each (apply_message 0 True) (concat ?mss) ?c)
      (\<lambda>c'. Inr (rd_update (incoming_update (\<lambda>_. [])) c')) = Inr c'
      \<and> li_players (lobby c') = [] \<and> length (to_gui c') = 3"
    by (simp add: send_gui_message_def clear_players_def Let_def new_client_def)
  then show ?thesis unfolding run [symmetric] by (simp only: concat.simps append.simps)
qed

text \<open>
  C28. Every state a client can get to, whatever its two threads receive and however their rounds
  interleave, satisfies the invariant: the tables of the game and the lobby are sorted, every player of
  the game has a score, and the datagram buffer has its size.
\<close>

theorem client_keeps_invariant:
  assumes "client_reaches (new_client name chunks indet_bytes) c"
  shows "client_inv c"
  using client_reaches_inv [OF assms client_inv_new] .

theorem client_keeps_invariant_witness:
  "client_inv (receive_udp [9] sample_client \<lparr>buf_udp_pos := 1, buf_udp_length := 0\<rparr>)"
proof (rule client_keeps_invariant)
  have "client_step (From_gui (Some [9]) True) sample_client =
      Inr (receive_udp [9] sample_client \<lparr>buf_udp_pos := 1, buf_udp_length := 0\<rparr>)"
    by (simp add: handle_gui_message_def read_uint8_udp_def receive_udp_def Let_def code_of_byte_defs
        sample_client_def new_client_def)
  with client_reaches.start show "client_reaches (new_client [65] [] (\<lambda>i. 0))
      (receive_udp [9] sample_client \<lparr>buf_udp_pos := 1, buf_udp_length := 0\<rparr>)"
    unfolding sample_client_def by (rule client_reaches.round)
qed

text \<open>
  C30. The order in which the two threads do their rounds does not matter as long as the flag they share stays: a round on
  the server's messages that leaves \<open>is_lobby_status\<close> can be exchanged with the round on the GUI's datagram after
  it; the state is the same, and so is the error, if the later round ends the client.
\<close>

theorem client_rounds_commute:
  assumes "client_step (From_server t sent) c = Inr c1" and "is_lobby_status c1 = is_lobby_status c"
  shows "for_each client_step [From_server t sent, From_gui r w] c = for_each client_step [From_gui r w, From_server t sent] c"
proof -
  have "handle_gui_message r w c1 = and_then (handle_gui_message r w c) (handle_server_message t sent)"
    using assms by (intro rounds_exchange) simp_all
  moreover have "for_each client_step [From_server t sent] = handle_server_message t sent"
  proof (rule ext)
    show "for_each client_step [From_server t sent] x = handle_server_message t sent x" for x
      by (cases "handle_server_message t sent x") simp_all
  qed
  ultimately show ?thesis using assms(1) by simp
qed

theorem client_rounds_commute_witness:
  "\<exists>c. for_each client_step [From_gui (Some [1]) True, From_server 0 True]
      (new_client [66] [accepted_player_msg 0 (Player [65] [97])] (\<lambda>i. 0)) = Inr c
    \<and> li_players (lobby c) = [(0, Player [65] [97])] \<and> to_server c = [place_block_message]"
proof -
  let ?m = "Accepted_message 0 (Player [65] [97])"
  let ?c = "new_client [66] [message_bytes ?m] (\<lambda>i. 0)"
  have ok: "message_ok ?m" by (simp add: player_ok_def str_ok_def)
  have "read_if_buf_empty (rd ?c) = Inr ((rd ?c)\<lparr>cur_buf := message_bytes ?m @ [], incoming := []\<rparr>)"
    by (simp add: new_client_def read_if_buf_empty_piece accepted_player_msg_def player_to_bytes_def string_to_bytes_def
        BUFFER_SIZE_def)
  from handle_front [OF this _ ok, of "[]" 0 True] obtain c1 where
    c1: "client_step (From_server 0 True) ?c = Inr c1" "\<not> is_lobby_status c1" "li_players (lobby c1) = [(0, Player [65] [97])]"
      "to_server c1 = []" "buf_udp c1 = replicate 256 0"
    by (auto simp: send_gui_message_def Let_def add_player_def new_client_def new_lobby_info_def map_insert_def advance_def)
  obtain c2 where "client_step (From_gui (Some [1]) True) c1 = Inr c2" "to_server c2 = [place_block_message]"
      "li_players (lobby c2) = [(0, Player [65] [97])]"
    using c1(2-5) by (simp add: handle_gui_message_def read_uint8_udp_def receive_udp_def send_server_message_def Let_def
        code_of_byte_defs)
  with c1(1) have "for_each client_step [From_server 0 True, From_gui (Some [1]) True] ?c = Inr c2"
    by (simp del: client_step.simps)
  moreover have "\<not> is_lobby_status ?c" by (simp add: new_client_def)
  with c1(2) have "is_lobby_status c1 = is_lobby_status ?c" by simp
  note client_rounds_commute [OF c1(1) this, of "Some [1]" True, symmetric]
  ultimately have "for_each client_step [From_gui (Some [1]) True, From_server 0 True] ?c = Inr c2"
    by (simp only:)
  with \<open>to_server c2 = _\<close> \<open>li_players (lobby c2) = _\<close> show ?thesis
    by (intro exI [of _ c2]) (simp only: message_bytes.simps)
qed

text \<open>
  C20. The datagrams to the GUI have the format of the README, and say what the client knows: after a round on the bytes of
  a message of the server, the reference decoder gets from each datagram sent in that round, with no byte left, the
  client's picture: the lobby after \<open>Hello\<close>, \<open>AcceptedPlayer\<close> and \<open>GameEnded\<close>, the game after \<open>Turn\<close>; nothing is drawn at
  \<open>GameStarted\<close>. The strings must fit their length byte, and the lists their counters.
\<close>

theorem gui_reads_picture:
  assumes "message_ok m" and "handle_server_message t sent (advance (message_bytes m @ rest) c) = Inr c'"
    and "lobby_drawable (lobby c')" and "game_drawable (game c')"
  shows "\<exists>datagrams. to_gui c' = to_gui c @ datagrams \<and> map decode_drawing datagrams = map Some (draws m c')"
proof -
  have "apply_message t sent m (advance rest c) = Inr c'"
    using assms(2) handle_message_refines [OF assms(1)] by simp
  from apply_message_draws [OF this assms(3,4)] show ?thesis by (simp add: advance_def)
qed

theorem gui_reads_picture_witness:
  "\<exists>c' datagram. handle_server_message 0 True (advance (message_bytes (Accepted_message 0 (Player [65] [97])) @ [7]) sample_client) = Inr c'
    \<and> to_gui c' = [datagram] \<and> decode_drawing datagram = Some (Drawn_lobby (lobby c'))
    \<and> li_players (lobby c') = [(0, Player [65] [97])]"
proof -
  let ?m = "Accepted_message 0 (Player [65] [97])"
  have ok: "message_ok ?m" by (simp add: player_ok_def str_ok_def)
  obtain c' where c': "apply_message 0 True ?m (advance [7] sample_client) = Inr c'"
      "lobby c' = add_player 0 (Player [65] [97]) (lobby sample_client)" "game c' = game sample_client" "to_gui sample_client = []"
    by (simp add: send_gui_message_def Let_def sample_client_def new_client_def)
  have run: "handle_server_message 0 True (advance (message_bytes ?m @ [7]) sample_client) = Inr c'"
    using handle_message_refines [OF ok, of 0 True "[7]" sample_client] c'(1) by simp
  have "lobby_drawable (lobby c')" "game_drawable (game c')"
    by (simp_all add: c'(2,3) lobby_drawable_def game_drawable_def players_ok_def add_player_def sample_client_def
        new_client_def new_lobby_info_def str_ok_def map_insert_def value_ok_def player_ok_def)
  from gui_reads_picture [OF ok run this] c'(2,4) run show ?thesis
    by (auto simp: draws_def add_player_def sample_client_def new_client_def new_lobby_info_def map_insert_def)
qed

text \<open>
  The client draws no explosion: in every state it can get to, the list of explosions of its message
  to the GUI is the empty list, since nothing adds to it.
\<close>

theorem no_explosion_is_drawn:
  assumes "client_reaches (new_client name chunks indet_bytes) c"
  shows "position_set_to_bytes (gi_explosions (game c)) = [0, 0, 0, 0]"
proof -
  have "gi_explosions (game c) = Leaf"
    using client_reaches_inv [OF assms client_inv_new] by (simp add: client_inv_def game_ok_def)
  then show ?thesis by (simp add: position_set_to_bytes_def counted_to_bytes_def uint32_to_bytes_def)
qed

theorem no_explosion_is_drawn_witness:
  "position_set_to_bytes (gi_explosions (game sample_client)) = [0, 0, 0, 0]"
  unfolding sample_client_def by (rule no_explosion_is_drawn [OF client_reaches.start])

text \<open>
  C29. The client goes on as long as the connection lasts: on a run in which every send succeeds and every
  round of the receiver finds a well-formed message that destroys only robots the client has a score
  for, no round ends the program.
\<close>

theorem client_never_ends_on_safe_run:
  assumes "safe_run client_step client_safe inputs (new_client name chunks indet_bytes)"
  shows "\<exists>c. for_each client_step inputs (new_client name chunks indet_bytes) = Inr c \<and> client_inv c"
  using client.run_total [OF client_inv_new assms] .

theorem client_never_ends_on_safe_run_witness:
  "\<exists>c. for_each client_step [From_gui (Some [2, 3]) True] (new_client [65] [] (\<lambda>i. 0)) = Inr c"
proof -
  have "safe_run client_step client_safe [From_gui (Some [2, 3]) True] (new_client [65] [] (\<lambda>i. 0))"
    by (simp split: sum.split)
  from client_never_ends_on_safe_run [OF this] show ?thesis by blast
qed

text \<open>
  C34. A client that was not there when the players joined does not survive the first turn in which an explosion hits a
  robot: the players of \<open>GameStarted\<close> are dropped, so the robot has no score, and the lookup throws. On a stream whose
  pieces, each no longer than the buffer, hold whole messages and which begins with \<open>GameStarted\<close> and the turns of a game,
  and as long as sending succeeds, the rounds for \<open>GameStarted\<close> and for the turns without a hit succeed, however many
  there are, and the round for the first turn with a hit, wherever in it the explosion is, ends the program.
\<close>

theorem late_client_ends_at_explosion:
  assumes "li_players (lobby c) = []" and "known_scores c = []"
    and "\<forall>t \<in> set before. turn_hits t = {}" and "turn_hits ti \<noteq> {}"
    and "concat mss = Started_message ps # map Turn_message (before @ [ti]) @ following"
    and "list_all (list_all message_ok) mss" and "[] \<notin> set mss"
    and "list_all (\<lambda>piece. length piece \<le> BUFFER_SIZE) (pieces mss)"
    and "cur_buf (rd c) = []" and "incoming (rd c) = pieces mss @ later"
  shows "\<exists>c'. for_each (\<lambda>m. handle_server_message t True) (Started_message ps # map Turn_message before) c = Inr c'
    \<and> handle_server_message t True c' = Inl Out_of_range"
proof -
  let ?f = "\<lambda>m. handle_server_message t True" and ?a = "apply_message t True"
  let ?xs = "Started_message ps # map Turn_message before"
  obtain c0 where c0: "?a (Started_message ps) c = Inr c0" "gi_scores (game c0) = []"
    using start_without_players [OF assms(1,2)] by blast
  obtain c1 where c1: "for_each ?a (map Turn_message before) c0 = Inr c1"
    using turns_without_hits [OF c0(2) assms(3)] by blast
  have hit: "for_each ?a (map Turn_message (before @ [ti])) c0 = Inl Out_of_range"
    using assms(4) by (intro turns_without_scores [OF c0(2)]) simp
  have "concat mss = ?xs @ Turn_message ti # following" using assms(5) by simp
  from rounds_over_front [OF assms(6-10) this] obtain f where
      "for_each ?f ?xs c = and_then (for_each ?a ?xs c) (\<lambda>c'. Inr (rd_update f c'))" by blast
  with c0(1) c1 have run: "for_each ?f ?xs c = Inr (rd_update f c1)" by (simp del: apply_message.simps)
  have "concat mss = (?xs @ [Turn_message ti]) @ following" using assms(5) by simp
  from rounds_over_front [OF assms(6-10) this] obtain g where
      "for_each ?f (?xs @ [Turn_message ti]) c
        = and_then (for_each ?a (?xs @ [Turn_message ti]) c) (\<lambda>c'. Inr (rd_update g c'))" by blast
  with c0(1) hit have "for_each ?f (?xs @ [Turn_message ti]) c = Inl Out_of_range" by (simp del: apply_message.simps)
  moreover have "for_each ?f (?xs @ [Turn_message ti]) c = for_each ?f [Turn_message ti] (rd_update f c1)"
    by (simp only: for_each_append run and_then.simps)
  ultimately have "handle_server_message t True (rd_update f c1) = Inl Out_of_range"
    by (cases "handle_server_message t True (rd_update f c1)") simp_all
  with run show ?thesis by blast
qed

text \<open>A stream of the server: the robot 3 is placed in turn 0, and hit in turn 1, after another bomb hit no one.\<close>

theorem late_client_ends_at_explosion_witness:
  "\<exists>c'. for_each (\<lambda>m. handle_server_message 0 True)
      [Started_message [], Turn_message (Turn_info 0 [Player_moved_event 3 (Position 1 1)])]
      (new_client [65] (pieces [[Started_message [], Turn_message (Turn_info 0 [Player_moved_event 3 (Position 1 1)])],
        [Turn_message (Turn_info 1 [Bomb_exploded_event 0 [] [], Bomb_exploded_event 1 [3] []])]]) (\<lambda>i. 0)) = Inr c'
    \<and> handle_server_message 0 True c' = Inl Out_of_range"
proof -
  let ?t0 = "Turn_info 0 [Player_moved_event 3 (Position 1 1)]"
  let ?t1 = "Turn_info 1 [Bomb_exploded_event 0 [] [], Bomb_exploded_event 1 [3] []]"
  let ?mss = "[[Started_message [], Turn_message ?t0], [Turn_message ?t1]]"
  let ?c = "new_client [65] (pieces ?mss) (\<lambda>i. 0)"
  have hits: "\<forall>t \<in> set [?t0]. turn_hits t = {}" "turn_hits ?t1 \<noteq> {}" by (simp_all add: turn_hits_def)
  have ok: "concat ?mss = Started_message [] # map Turn_message ([?t0] @ [?t1]) @ []"
      "list_all (list_all message_ok) ?mss" "[] \<notin> set ?mss"
    by simp_all
  have small: "list_all (\<lambda>piece. length piece \<le> BUFFER_SIZE) (pieces ?mss)"
    by (simp add: pieces_def BUFFER_SIZE_def turn_info_to_bytes_def player_map_to_bytes_def uint16_to_bytes_def
        uint32_to_bytes_def position_to_bytes_def uint8_list_to_bytes_def position_list_to_bytes_def counted_to_bytes_def)
  have c: "li_players (lobby ?c) = []" "known_scores ?c = []" "cur_buf (rd ?c) = []" "incoming (rd ?c) = pieces ?mss @ []"
    by (simp_all add: new_client_def new_lobby_info_def)
  from late_client_ends_at_explosion [OF c(1,2) hits ok small c(3,4), of 0] show ?thesis by simp
qed

text \<open>
  The client never moves a robot it knows: the event of a move is read, and the picture of the game
  stays as it was.
\<close>

theorem known_robot_does_not_move:
  assumes "i \<in> keys (gi_player_positions (game c))"
  shows "read_event (advance (event_to_bytes (Player_moved_event i pos) @ rest) c) = Inr (advance rest c)"
proof -
  have "change_player_position i pos (game c) = game c"
    using assms by (auto simp: change_player_position_def map_insert_def in_keys_iff)
  with read_event_refines [of "Player_moved_event i pos" rest c] show ?thesis
    by (simp add: lift_game_def advance_def del: event_to_bytes.simps)
qed

theorem known_robot_does_not_move_witness:
  "read_event (advance (event_to_bytes (Player_moved_event 1 (Position 2 2)) @ [])
      (sample_client\<lparr>game := (game sample_client)\<lparr>gi_player_positions := [(1, Position 0 0)]\<rparr>\<rparr>))
    = Inr (advance [] (sample_client\<lparr>game := (game sample_client)\<lparr>gi_player_positions := [(1, Position 0 0)]\<rparr>\<rparr>))"
  by (rule known_robot_does_not_move) simp

subsection \<open>Reading a stream in pieces\<close>

text \<open>
  C37. A 32-bit number is read correctly however the stream is cut: its value and the bytes left depend
  on the bytes of the buffer and of the next reads in sequence only.
\<close>

theorem uint32_read_from_any_pieces:
  assumes "live r" and "stream r = uint32_to_bytes u @ rest"
  shows "\<exists>r'. read_u32 r = Inr (u, r') \<and> live r' \<and> stream r' = rest"
  using reads_stream_u32 assms by (simp add: reads_stream_def)

theorem uint32_read_from_any_pieces_witness:
  "\<exists>r'. read_u32 \<lparr>cur_buf = [0], incoming = [[0, 1], [2, 9]], uninit = (\<lambda>i. 0), uninit_used = 0\<rparr> = Inr (258, r')
    \<and> stream r' = [9]"
  using uint32_read_from_any_pieces [of "\<lparr>cur_buf = [0], incoming = [[0, 1], [2, 9]], uninit = (\<lambda>i. 0), uninit_used = 0\<rparr>"
      258 "[9]"]
  by (auto simp: live_def stream_def uint32_to_bytes_def)

text \<open>
  A 16-bit number cut between its two bytes is misread: the loop counts down, stops after one byte,
  and the second byte of the result is whatever the array held; the byte of the number stays in the
  stream.
\<close>

theorem uint16_cut_is_misread:
  assumes "cur_buf r = [a]"
  shows "read_u16 r = Inr (uint16_of_bytes a (uninit r (uninit_used r + 1)),
    r\<lparr>cur_buf := [], uninit_used := uninit_used r + 2\<rparr>)"
  by (rule read_u16_split [OF assms])

theorem uint16_cut_is_misread_witness:
  "\<exists>r'. read_u16 \<lparr>cur_buf = [0], incoming = [[7]], uninit = (\<lambda>i. 255), uninit_used = 0\<rparr> = Inr (255, r')
    \<and> incoming r' = [[7]]"
  using uint16_cut_is_misread [of "\<lparr>cur_buf = [0], incoming = [[7]], uninit = (\<lambda>i. 255), uninit_used = 0\<rparr>" 0]
  by (simp add: uint16_of_bytes_def)

text \<open>
  A string cut by the end of the buffer is misread when the next read brings at least its whole
  length: as many bytes as the string has are taken again, beyond its end.
\<close>

theorem string_cut_is_misread:
  assumes "cur_buf r = n # xs" and "xs \<noteq> []" and "length xs < unat n"
    and "incoming r = chunk # chunks" and "unat n \<le> length chunk" and "length chunk \<le> BUFFER_SIZE"
  shows "read_str r = Inr (xs @ take (unat n) chunk, r\<lparr>cur_buf := drop (unat n) chunk, incoming := chunks\<rparr>)"
  by (rule read_str_split [OF assms])

theorem string_cut_is_misread_witness:
  "\<exists>r'. read_str \<lparr>cur_buf = [2, 72], incoming = [[105, 0, 1]], uninit = (\<lambda>i. 0), uninit_used = 0\<rparr>
    = Inr ([72, 105, 0], r')"
  using string_cut_is_misread [of "\<lparr>cur_buf = [2, 72], incoming = [[105, 0, 1]], uninit = (\<lambda>i. 0), uninit_used = 0\<rparr>"
      2 "[72]" "[105, 0, 1]" "[]"]
  by (simp add: BUFFER_SIZE_def)

text \<open>
  C35. A message longer than the client's buffer is cut by the client itself. A turn that places fifty blocks has 257
  bytes; the first read takes 256 of them, the last number is cut between its bytes, and the client puts the last
  block on a wrong row. The low byte of the row stays in the stream, and is taken for the code of the next message.
\<close>

theorem long_turn_is_misread:
  assumes "length ps = 49" and "cur_buf (rd c) = []"
    and "incoming (rd c) = message_bytes (Turn_message (Turn_info n (map Block_placed_event (ps @ [Position x y])))) # later"
    and "y' = uint16_of_bytes (ucast (drop_bit 8 y)) (uninit (rd c) (uninit_used (rd c) + 1))"
  shows "handle_server_message t sent c =
    apply_message t sent (Turn_message (Turn_info n (map Block_placed_event (ps @ [Position x y']))))
      (rd_update (\<lambda>r. r\<lparr>incoming := [ucast y] # later, uninit_used := uninit_used r + 2\<rparr>) c)"
  unfolding assms(4) by (rule turn_cut_in_row [OF assms(1-3)])

theorem long_turn_is_misread_witness:
  "\<exists>c. handle_server_message 0 True
      (new_client [65] [message_bytes (Turn_message (Turn_info 0 (map Block_placed_event (replicate 49 (Position 1 1) @ [Position 2 7]))))]
        (\<lambda>i. 255)) = Inr c
    \<and> incoming (rd c) = [[7]] \<and> gi_blocks (game c) = fold pos_insert (replicate 49 (Position 1 1) @ [Position 2 255]) Leaf"
proof -
  obtain ps where ps: "replicate 49 (Position 1 1) = ps" "length ps = 49" by simp
  let ?turn = "\<lambda>y. Turn_info 0 (map Block_placed_event (ps @ [Position 2 y]))"
  let ?c = "new_client [65] [message_bytes (Turn_message (?turn 7))] (\<lambda>i. 255)"
  have "cur_buf (rd ?c) = []" "incoming (rd ?c) = message_bytes (Turn_message (?turn 7)) # []"
      "255 = uint16_of_bytes (ucast (drop_bit 8 (7 :: u16))) (uninit (rd ?c) (uninit_used (rd ?c) + 1))"
    by (simp_all add: new_client_def uint16_of_bytes_def)
  note run = long_turn_is_misread [OF ps(2) this, of 0 True]
  show ?thesis
    unfolding ps(1) run apply_message.simps turn_of_blocks
    by (simp add: send_gui_message_def blocks_added add_block_def new_turn_def new_client_def del: map_append)
qed

end
