(* ===== verification/Spec2Isabelle.thy ===== *)
theory Spec2Isabelle
  imports Basics_Props Server_Props Client_Props
begin

text \<open>
  Robots: the server and the client of a network game in C++ (\<open>src/\<close>), modelled from the bytes of the
  protocol up to the loops of the two programs.

  \<^bold>\<open>The program.\<close> \<open>robots-server\<close> keeps one game on a board. Its loop
  (\<open>Game_engine::manage_connections\<close>) begins a turn, polls the descriptors of
  \<open>Server_tcp_handler\<close>, accepts clients, executes what they sent, and closes the turn: it logs events,
  explodes bombs, places destroyed robots anew and broadcasts the turn. \<open>robots-client\<close> stands between the
  server and a GUI: one thread reads the server's stream, keeps a picture of the game and draws it for
  the GUI in datagrams; the other turns the GUI's datagrams into messages to the server. Both use the
  writers of \<open>byte-parser.cpp\<close> and the types of \<open>game-messages.h\<close>.

  \<^bold>\<open>The theories, and what they model.\<close>
  \<^item> \<open>Prelude\<close>: machine integers, the faults of a run, sequencing (\<open>and_then\<close>, \<open>for_each\<close>), \<open>std::map\<close> as a
    key-sorted association list (\<open>operator[]\<close> is \<open>map_assign\<close>, \<open>insert\<close> is \<open>map_insert\<close>, \<open>at\<close> is
    \<open>map_at\<close>), the collections of hints, and the locale \<open>faulting_loop\<close>: what an invariant and a safety
    condition of one step give for the runs of a loop.
  \<^item> \<open>Std_Set\<close>: \<open>std::set\<close> with any comparator, as a red-black tree. The locale \<open>search_set\<close> has the laws
    that hold for every comparator and is interpreted for positions; \<open>ordered_set\<close> extends it for linear
    orders and is interpreted for the identifiers of players.
  \<^item> \<open>Messages\<close>, \<open>Bytes\<close>, \<open>Events\<close>: \<open>game-messages.h/.cpp\<close> (codes, positions with their \<open>operator<\<close>,
    bombs, \<open>Lobby_info\<close>, \<open>Game_info\<close>), \<open>byte-parser.cpp\<close>, \<open>event.h/.cpp\<close>.
  \<^item> \<open>Minstd\<close>, \<open>Params\<close>: \<open>random.h\<close>; \<open>server-parser.cpp\<close> and \<open>client-parser.cpp\<close>.
  \<^item> \<open>Tcp\<close>: \<open>server-tcp-handler.cpp\<close>. The record \<open>server_tcp_handler\<close> has the fields of the class and two
    of its own, \<open>wire\<close> and \<open>closed_fds\<close>, which record what was sent and closed.
  \<^item> \<open>Engine\<close>, \<open>Server\<close>: \<open>game-engine.cpp\<close>. The record \<open>game_engine\<close> has the fields of the class;
    \<open>Engine\<close> has the operations on the game and the handlers of the clients' messages, \<open>Server\<close> the
    decoding of what a client sent, the loop, and \<open>main\<close> of \<open>robots-server.cpp\<close>.
  \<^item> \<open>Reader\<close>, \<open>Client\<close>: \<open>robots-client.cpp\<close>. \<open>Reader\<close> has the buffered readers of the stream and the locale
    \<open>codec\<close> (a reader undoes a writer), interpreted for every type of the protocol; \<open>Client\<close> has the
    handlers of both threads, the start of the program, and the states a client can get to.
  \<^item> \<open>Blast\<close>: the specification of what an explosion hits, and that the loop of \<open>handle_explosion\<close> visits
    these cells, which are the cross of the rules in natural numbers, and ends. \<open>Engine_Inv\<close>: the invariant of the engine, kept by every operation, and the
    absence of faults. \<open>Rounds\<close>: a whole turn in closed form, and the length of a game.
  \<^item> \<open>Loop_Rule\<close>: what the parts of an iteration do to the connections; the locale \<open>iteration_rule\<close> gives a
    property after an iteration from one before it and from what each part does to it, and \<open>loop_rule\<close> carries a
    property over the iterations of a run. \<open>One_Message\<close>: an iteration in the lobby in which one client
    sends one message. \<open>Turns\<close>: \<open>iteration_rule\<close> for a running game: what an iteration logs, and when a bomb explodes.
    \<open>Request\<close>: from a request of the GUI to the event that logs it.
  \<^item> \<open>Replay\<close>: the server's messages as values, their meaning for the client (\<open>apply_message\<close>), and that the
    handlers refine it. \<open>Client_Inv\<close>: the invariant of the client. \<open>Gui\<close>: a decoder of the README's
    \<open>DrawMessage\<close>, and that it gets the client's picture from the datagrams. \<open>Long_Turn\<close>: a message longer than the
    client's buffer. \<open>Threads\<close>: what the receiving thread leaves alone, and the exchange of rounds of the two threads.
  \<^item> \<open>Agreement\<close>, \<open>Follow\<close>, \<open>Dialogue\<close>: the client's picture against the server's board at the start of a game
    and against its log over a whole game, and the client's bytes against the server's decoder. \<open>Wire\<close>: \<open>loop_rule\<close>
    for what the server puts on the wire. \<open>In_Step\<close>: \<open>loop_rule\<close> for the server together with a client that executes
    what it is sent. \<open>Samples\<close>: concrete states.
  \<^item> \<open>Basics_Props\<close>, \<open>Server_Props\<close>, \<open>Client_Props\<close> and this theory: the properties, each with an instance.

  \<^bold>\<open>What is shown.\<close> The server keeps its invariant from the start and never faults on a run without the
  two faults it has (C1, C2, C33, C40); everything it sends is a message of the protocol (C5); a game lasts as
  long as configured, each iteration logs its turn, and bombs explode in time (C6 to C8), also one asked for in the
  GUI (C9); the beginning of a turn, the explosion and the end of a turn do what the rules of the game say (C10, C11,
  C21, C25 to C27); so do the handlers of a client's messages (C22 to C24); connections and the greeting (C18,
  C31, C32); decoding on the server (C14). The client does with the bytes of the server what the messages mean
  (C12, C13), keeps its invariant (C28) and does not end without reason (C29, C34), and its two threads do not disturb
  each other (C30); the GUI can read what it draws (C20); its readers are exact for numbers of 32 bits (C37) and not
  for what its buffer cuts (C35). Across the programs: a client in step with the server stays in step over every run
  of the loop, as values (C3) and on the bytes (C4); its picture agrees with the server's board at the start of a game
  (C15), not after a move (C36); its bombs and robots are the server's in every state of a game (C16), and the scores
  of both sides count hits, each in its way (C17); a request of the GUI reaches the server (C19). C38 is about
  the comparison of positions, C39 about the program's end. Where the code does not do what it means to,
  the property states what it does. Theorems without a number are details and consequences of these.

  \<^bold>\<open>Faults, loops and bounds.\<close> A run that throws, divides by zero, leaves the process or does not end is
  \<open>Inl\<close> with the reason. There is no fuel: the loop of \<open>handle_explosion\<close>, the only one that may run for
  ever, is \<open>while_option\<close>, and is shown to end for every radius below 65535; the parsers recurse on the
  bytes left. Integers have the width they have in the code. The two endless loops of the programs are a
  recursion on the list of inputs (\<open>serve_until_finished\<close>, one \<open>loop_env\<close> per iteration, which stops when the
  interrupt has set \<open>finish_server\<close>) and the inductive
  relation \<open>client_reaches\<close>, whose steps are whole rounds of one of the two threads: they share only the
  flag \<open>is_lobby_status\<close>, which each round reads or writes once.

  \<^bold>\<open>What stands for the outside.\<close> The results of \<open>poll\<close>, \<open>accept\<close>, \<open>read\<close>, \<open>listen\<close> and \<open>close\<close>, the pieces in
  which the stream arrives, the results of Boost's option parser, casts and resolvers, and the values
  of variables that are read before they are written are arguments of the definitions that use them.

  \<^bold>\<open>Not modelled.\<close> Console output, with the macros of \<open>error-handler.h\<close> that only
  print; the calls that install the signal handler and that sleep until the turn is over (the handler sets
  \<open>finish_server\<close> when the environment says so); what becomes of the bytes given to a send of the server
  (its result is only printed, and \<open>wire\<close> records each send as if it were complete; that
  \<open>SIGPIPE\<close> may end the program is not shown); accesses of the two threads of the client within a round;
  the set-up of sockets, \<open>TCP_NODELAY\<close> and the address structures; the lifetime of the client's
  \<open>io_context\<close>, which belongs to Boost.Asio; allocation failures; the Makefile. The colours of the
  red-black trees are computed as in the library, but that they stay balanced is not shown, as no result of an
  operation depends on it other than through the shape computed.
\<close>

subsection \<open>From the client to the server\<close>

text \<open>
  Messages that a client wrote one after the other and the server gets in one read are all decoded,
  and only the last one is kept: the earlier ones are lost.
\<close>

theorem messages_in_one_read:
  assumes "list_all sendable ms" and "ms \<noteq> []" and "length (concat (map client_bytes ms)) \<le> buf_size"
  shows "received_message (Read_bytes (concat (map client_bytes ms))) = Some (last ms)"
proof -
  have "concat (map client_bytes ms) \<noteq> []" using assms(2) client_bytes_not_Nil by (cases ms) auto
  with decode_all_client_bytes [OF assms(1,2)] assms(3) show ?thesis by (simp add: received_message_def)
qed

theorem messages_in_one_read_witness:
  "received_message (Read_bytes (client_bytes (Move_msg Up) @ client_bytes Place_bomb_msg)) = Some Place_bomb_msg"
  using messages_in_one_read [of "[Move_msg Up, Place_bomb_msg]"]
  by (simp add: move_message_def place_bomb_message_def buf_size_def)

text \<open>
  A malformed message at the end of a read undoes the well-formed ones before it: nothing of the
  read is executed, and the client is disconnected.
\<close>

theorem malformed_tail_spoils_read:
  assumes "list_all sendable ms" and "bad \<noteq> []" and "decode_last bad = None"
    and "length (concat (map client_bytes ms) @ bad) \<le> buf_size"
  shows "received_message (Read_bytes (concat (map client_bytes ms) @ bad)) = None"
  using decode_bad_tail [OF assms(1-3)] assms(4) by (simp add: received_message_def)

theorem malformed_tail_spoils_read_witness:
  "received_message (Read_bytes (client_bytes Place_block_msg @ [9])) = None"
proof -
  have "decode_last [9] = None" by (simp add: decode_last.simps [of "[9]"] code_of_byte_defs)
  with malformed_tail_spoils_read [of "[Place_block_msg]" "[9]"] show ?thesis
    by (simp add: place_block_message_def buf_size_def)
qed

text \<open>
  C19. From the GUI to the server's handler: a datagram of one byte or more that begins with an input code makes the client
  write one message, which, read alone, the server decodes as the request: joining while the client believes to be
  in the lobby, whatever the code, and the bomb, the block or the move in a game. The direction of a move is the second byte
  of the datagram, or, when it has none, of an earlier one. The player's name has at most 254 bytes, and the send succeeds.
\<close>

theorem gui_request_reaches_server:
  assumes "client_inv c" and "bytes = input_code code # tail" and "length bytes \<le> 256"
    and "length (param_name c) \<le> 254"
  shows "\<exists>c' sent. handle_gui_message (Some bytes) True c = Inr c' \<and> to_server c' = to_server c @ [sent]
    \<and> received_message (Read_bytes sent)
        = Some (request (is_lobby_status c) (param_name c) code (direction_byte c tail))"
proof -
  let ?m = "request (is_lobby_status c) (param_name c) code (direction_byte c tail)"
  obtain c' where c': "handle_gui_message (Some bytes) True c = Inr c'" "to_server c' = to_server c @ [client_bytes ?m]"
    using handle_gui_request [OF assms(1-3)] by blast
  have "length (client_bytes ?m) \<le> buf_size"
    using assms(4)
    by (cases code; cases "is_lobby_status c")
      (simp_all add: join_message_def string_to_bytes_def place_bomb_message_def place_block_message_def
        move_message_def buf_size_def)
  moreover have "sendable ?m" using assms(4) by (intro request_sendable) (simp add: str_ok_def)
  moreover note decode_all_client_bytes [of "[?m]"]
  ultimately have "received_message (Read_bytes (client_bytes ?m)) = Some ?m"
    using client_bytes_not_Nil by (simp add: received_message_def)
  with c' show ?thesis by blast
qed

theorem gui_request_reaches_server_witness:
  "(\<exists>c' sent. handle_gui_message (Some [1]) True sample_client = Inr c' \<and> to_server c' = [sent]
      \<and> received_message (Read_bytes sent) = Some Place_block_msg)
    \<and> (\<exists>c' sent. handle_gui_message (Some [2, 3]) True sample_client = Inr c' \<and> to_server c' = [sent]
      \<and> received_message (Read_bytes sent) = Some (Move_msg Left))"
  using gui_request_reaches_server [OF client_inv_sample, of "[1]" Place_block "[]"]
    gui_request_reaches_server [OF client_inv_sample, of "[2, 3]" Move "[3]"]
  by (simp add: sample_client_def new_client_def direction_byte_def)

text \<open>
  A name of 255 bytes, the longest that has a length byte, makes a join message one byte longer than
  the server's buffer: the server takes it for malformed and disconnects the client.
\<close>

theorem longest_name_is_refused:
  assumes "length name = 255"
  shows "received_message (Read_bytes (join_message name)) = None"
proof -
  have "take buf_size (join_message name) = 0 # 255 # take 254 name"
    using assms by (simp add: join_message_def string_to_bytes_def buf_size_def)
  moreover have "decode_last (0 # 255 # take 254 name) = None"
    using assms by (simp add: decode_last.simps [of "0 # 255 # take 254 name"] code_of_byte_defs)
  ultimately show ?thesis by (simp add: received_message_def)
qed

theorem longest_name_is_refused_witness:
  "received_message (Read_bytes (join_message (replicate 255 65))) = None"
  by (rule longest_name_is_refused) simp

text \<open>
  C9. A request from end to end. In a game, the player whose robot is not struck by the bombs of the coming turn asks for a
  bomb in the GUI, with a datagram of one byte or more: the client, which knows that the game has begun, sends one message;
  the server, reading it in its next iteration, in which it hears of no one else, logs the bomb, whose identifier is free, under the robot, after the
  explosions of the turn. The bomb explodes in the turn in which its timer, which is not 0, is over and in none before,
  whatever the clients do in between, as long as \<open>poll\<close> does not fail and the game is not over by then.
\<close>

theorem requested_bomb_is_placed_and_explodes:
  assumes "client_inv c" and "\<not> is_lobby_status c" and "length (input_code Place_bomb # tail) \<le> 256"
    and "idle_inv e" and "gameplay_started e" and "0 < k" and "k < conn_max" and "slot_fd (tcp_handler e) k \<noteq> -1"
    and "unharmed e k p" and "map_of (players_positions e) p = Some pos" and "next_bomb_id e \<notin> keys (bombs e)"
    and "bomb_timer (game_params e) \<noteq> 0" and "length envs = unat (bomb_timer (game_params e))"
    and "list_all (\<lambda>env. env_poll env \<noteq> -1) envs"
    and "Suc (unat (current_turn e) + length envs) < unat (game_length (game_params e))"
  shows "\<exists>c' sent e1 e2 more earlier t.
    handle_gui_message (Some (input_code Place_bomb # tail)) True c = Inr c' \<and> to_server c' = to_server c @ [sent]
    \<and> loop_iteration (message_on k sent) e = Inr e1
    \<and> turns e1 = turns e @ [Turn_info (current_turn e + 1)
        (map (explosion_event e) (expiring (bombs e)) @ Bomb_placed_event (next_bomb_id e) pos # more)]
    \<and> for_each loop_iteration envs e1 = Inr e2 \<and> turns e2 = turns e1 @ earlier @ [t]
    \<and> Suc (length earlier) = unat (bomb_timer (game_params e)) \<and> explodes_in (next_bomb_id e) t
    \<and> list_all (\<lambda>t. \<not> explodes_in (next_bomb_id e) t) earlier"
proof -
  obtain c' where c': "handle_gui_message (Some (input_code Place_bomb # tail)) True c = Inr c'"
      "to_server c' = to_server c @ [place_bomb_message]"
    using handle_gui_request [OF assms(1) refl assms(3)] assms(2) by auto
  have "received_message (Read_bytes place_bomb_message) = Some Place_bomb_msg"
    using decode_all_client_bytes [of "[Place_bomb_msg]"]
    by (simp add: received_message_def place_bomb_message_def buf_size_def)
  from requested_bomb_explodes [OF assms(4-11) this assms(12-15)] c' show ?thesis
    unfolding explosions_of_def by blast
qed

theorem requested_bomb_is_placed_and_explodes_witness:
  "\<exists>c' sent e1 e2 more t1 t2. handle_gui_message (Some [0]) True sample_client = Inr c' \<and> to_server c' = [sent]
    \<and> loop_iteration (message_on 1 sent) calm_game = Inr e1
    \<and> turns e1 = [new_turn_info 0, Turn_info 1 (Bomb_placed_event 1 (Position 1 1) # more)]
    \<and> for_each loop_iteration [quiet_env, quiet_env] e1 = Inr e2 \<and> turns e2 = turns e1 @ [t1, t2]
    \<and> \<not> explodes_in 1 t1 \<and> explodes_in 1 t2"
proof -
  have c: "\<not> is_lobby_status sample_client" "to_server sample_client = []"
    by (simp_all add: sample_client_def new_client_def)
  have e: "gameplay_started calm_game" "tcp_handler calm_game = sample_handler" "bombs calm_game = []"
      "map_of (players_positions calm_game) 0 = Some (Position 1 1)" "next_bomb_id calm_game = 1" "current_turn calm_game = 0"
      "bomb_timer (game_params calm_game) = 2" "game_length (game_params calm_game) = 10"
      "turns calm_game = [new_turn_info 0]" "map_of (player_ids calm_game) 1 = Some 0"
    by (simp_all add: calm_game_def sample_game_def new_game_engine_def sample_params_def)
  have "slot_fd (tcp_handler calm_game) 1 \<noteq> -1" using slot_fd_sample [of 1] e(2) by (simp add: conn_max_def)
  moreover have "unharmed calm_game 1 0" using e(3,10) by (simp add: unharmed_def expiring_def)
  moreover have "list_all (\<lambda>env. env_poll env \<noteq> -1) [quiet_env, quiet_env]" by (simp add: quiet_env_def)
  ultimately obtain c' sent e1 e2 more earlier t where
    "handle_gui_message (Some [0]) True sample_client = Inr c'" "to_server c' = [sent]"
    "loop_iteration (message_on 1 sent) calm_game = Inr e1"
    "turns e1 = [new_turn_info 0, Turn_info 1 (Bomb_placed_event 1 (Position 1 1) # more)]"
    "for_each loop_iteration [quiet_env, quiet_env] e1 = Inr e2" "turns e2 = turns e1 @ earlier @ [t]"
    "length earlier = 1" "explodes_in 1 t" "list_all (\<lambda>t. \<not> explodes_in 1 t) earlier"
    using requested_bomb_is_placed_and_explodes [OF client_inv_sample c(1), of "[]" calm_game 1 0 "Position 1 1" "[quiet_env, quiet_env]"]
      idle_inv_calm_game e c(2)
    by (auto simp: conn_max_def expiring_def simp del: for_each.simps)
  moreover from this obtain t1 where "earlier = [t1]" by (auto simp: length_Suc_conv)
  ultimately show ?thesis by (fastforce simp del: for_each.simps)
qed

subsection \<open>From the server to the client\<close>

text \<open>
  C15. The start of a game: when the last player joins, the events of turn 0, replayed by a client that
  has just begun the game, give it exactly the server's robots, blocks and bombs, the block container
  included node by node.
\<close>

theorem client_sees_start_of_game:
  assumes "engine_inv e" and "\<not> gameplay_started e" and "join_handle_msg name i e = Inr e'"
    and "gameplay_started e'" and "fresh_game (bomb_timer (game_params e)) g"
  shows "\<exists>g'. apply_turn (turns e' ! 0) g = Inr g' \<and> gi_player_positions g' = players_positions e'
    \<and> gi_blocks g' = blocks_positions e' \<and> gi_bombs g' = bombs e'"
proof -
  obtain address where address: "map_of (addresses (tcp_handler e)) i = Some address"
    using assms(2,3) by (auto simp: join_handle_msg_def get_address_def Let_def)
  let ?e = "joined name address i e"
  have start: "start_gameplay ?e = Inr e'"
    using join_handle_msg_lobby [OF assms(2) address, of name] assms(2-4) by (auto split: if_splits)
  have lobby: "players_positions ?e = []" "turns ?e = []" "current_turn ?e = 0" "bombs ?e = []"
      "blocks_positions ?e = Leaf" "map_ok (players ?e)"
    using assms(1,2) by (simp_all add: engine_inv_def lobby_ok_def tables_ok_def)
  let ?g = "new_turn (turn (turns e' ! 0)) g"
  have "fresh_game (bomb_timer (game_params ?e)) ?g"
    using assms(5) by (simp add: fresh_game_def new_turn_def)
  then have "mirrored ?g e' \<and> current_turn e' = 0"
    by (rule start_gameplay_mirrored [OF lobby start])
  then show ?thesis by (auto simp: mirrored_def agrees_def apply_turn_def)
qed

definition fresh_view :: game_info where
  "fresh_view = \<lparr>gi_server_name = [], gi_size_x = 5, gi_size_y = 5, gi_game_length = 2, gi_bomb_timer = 2,
     gi_turn = 0, gi_players = [], gi_player_positions = [], gi_blocks = Leaf, gi_bombs = [],
     gi_explosions = Leaf, gi_scores = []\<rparr>"

lemma sample_join: "\<exists>e'. join_handle_msg [66] 2 sample_lobby = Inr e' \<and> gameplay_started e'"
proof -
  have lobby: "\<not> gameplay_started sample_lobby" "map_of (addresses (tcp_handler sample_lobby)) 2 = Some [98]"
    by (simp_all add: sample_lobby_def new_game_engine_def sample_handler_def)
  let ?e = "joined [66] [98] 2 sample_lobby"
  have "length (players ?e) = unat (players_count (game_params ?e))"
    by (simp add: sample_lobby_def new_game_engine_def sample_params_def map_insert_def)
  with start_gameplay_ok [OF joined_tables [OF engine_inv_sample_lobby]] join_handle_msg_lobby [OF lobby]
  show ?thesis by (force simp: sample_lobby_def new_game_engine_def)
qed

theorem client_sees_start_of_game_witness:
  "\<exists>e' g'. join_handle_msg [66] 2 sample_lobby = Inr e' \<and> apply_turn (turns e' ! 0) fresh_view = Inr g'
    \<and> gi_blocks g' = blocks_positions e'"
proof -
  obtain e' where e': "join_handle_msg [66] 2 sample_lobby = Inr e'" "gameplay_started e'"
    using sample_join by blast
  have "\<not> gameplay_started sample_lobby" "fresh_game (bomb_timer (game_params sample_lobby)) fresh_view"
    by (simp_all add: sample_lobby_def new_game_engine_def sample_params_def fresh_game_def fresh_view_def)
  with client_sees_start_of_game [OF engine_inv_sample_lobby _ e'] e'(1) show ?thesis by blast
qed

text \<open>
  Bombs and blocks that clients place keep the agreement: if replaying the events of the current turn
  on the client's picture gives the server's board, it does so after a bomb or a block was placed.
\<close>

theorem placing_keeps_agreement:
  assumes "mirrored g0 e" and "m \<in> {Place_bomb_msg, Place_block_msg}" and "client_handle_msg indet m i e = Inr e'"
  shows "mirrored g0 e'"
proof -
  from assms(2) have "m = Place_bomb_msg \<or> m = Place_block_msg" by simp
  then show ?thesis
    using assms(3) place_bomb_mirrored [OF assms(1), of i e'] place_block_mirrored [OF assms(1), of i e']
    by (elim disjE) simp_all
qed

definition sample_view :: game_info where
  "sample_view = fresh_view\<lparr>gi_player_positions := players_positions sample_game,
     gi_blocks := blocks_positions sample_game, gi_bombs := bombs sample_game\<rparr>"

lemma sample_view_mirrored: "mirrored sample_view sample_game"
  by (simp add: mirrored_def agrees_def sample_view_def fresh_view_def sample_game_def new_game_engine_def
      sample_params_def)

theorem placing_keeps_agreement_witness:
  "\<exists>e'. client_handle_msg (Position 0 0) Place_bomb_msg 1 sample_game = Inr e' \<and> mirrored sample_view e'"
proof -
  obtain e' where "place_bomb_handle_msg 1 sample_game = Inr e'"
    using place_bomb_ok [OF engine_inv_sample_game started_sample] by blast
  with placing_keeps_agreement [OF sample_view_mirrored, of Place_bomb_msg "Position 0 0" 1] show ?thesis by simp
qed

text \<open>
  C36. The first accepted move ends the agreement: after a robot moved to another field, replaying the
  events of the turn no longer gives the server's board, because the client keeps the old position.
\<close>

theorem move_ends_agreement:
  assumes "mirrored g0 e" and "engine_inv e" and "acting_player i e = Some p"
    and "map_of (players_positions e) p = Some pos"
    and "check_position_to_move e (moved_position indet d pos)" and "moved_position indet d pos \<noteq> pos"
    and "move_handle_msg indet d i e = Inr e'"
  shows "\<not> mirrored g0 e'"
proof -
  have "map_ok (players_positions e)" using assms(2) by (simp add: engine_inv_def tables_ok_def)
  with move_not_mirrored [OF assms(1,3) _ assms(4-7)] show ?thesis .
qed

theorem move_ends_agreement_witness:
  "\<exists>e'. move_handle_msg (Position 0 0) Up 1 sample_game = Inr e' \<and> \<not> mirrored sample_view e'"
proof -
  have "check_position_to_move sample_game (moved_position (Position 0 0) Up (Position 1 1))"
    by (simp add: check_position_to_move_def check_position_def sample_game_def new_game_engine_def
        sample_params_def pos_count_def set_count_def position_lt_def)
  moreover obtain e' where "move_handle_msg (Position 0 0) Up 1 sample_game = Inr e'"
    using move_ok [OF engine_inv_sample_game started_sample] by blast
  ultimately show ?thesis
    using move_ends_agreement [OF sample_view_mirrored engine_inv_sample_game acting_sample position_sample,
        of "Position 0 0" Up e'] by auto
qed

subsection \<open>A whole game\<close>

text \<open>
  C16. In every state of a game that the server, started with a usable configuration, gets to, a client that knew the players
  when the game started, and has received the start of the game and all turns so far, is still running and has exactly
  the bombs of the server, each with the full timer, and exactly the identifiers of its robots (though not where they are).
\<close>

theorem client_follows_game:
  assumes "config_ok params" and "handler_ok h" and "for_each loop_iteration envs (new_game_engine params h) = Inr e"
    and "gameplay_started e" and "knows_lobby e c"
  shows "\<exists>c'. for_each (apply_message t True) (Started_message (players e) # map Turn_message (turns e)) c = Inr c'
    \<and> gi_bombs (game c') = as_placed (bomb_timer (game_params e)) (bombs e)
    \<and> keys (gi_player_positions (game c')) = keys (players_positions e)"
proof -
  note idle = idle_inv_new [OF assms(1,2)]
  have "tallied e \<and> followed g0 e" for g0
    using new_game_followed by (intro game_followed [OF idle _ _ assms(3)]) simp_all
  with client_after_turns [OF server.run_keeps [OF idle assms(3)] assms(4) _ _ assms(5)] show ?thesis by blast
qed

theorem client_follows_game_witness:
  "\<exists>e c'. for_each loop_iteration [message_on 1 [0, 1, 65], quiet_env] (new_game_engine solo_params sample_handler) = Inr e
    \<and> gameplay_started e
    \<and> for_each (apply_message 0 True) (Started_message (players e) # map Turn_message (turns e)) (spectator e) = Inr c'
    \<and> keys (gi_player_positions (game c')) = keys (players_positions e)"
proof -
  obtain e where e: "for_each loop_iteration [message_on 1 [0, 1, 65], quiet_env]
      (new_game_engine solo_params sample_handler) = Inr e" "gameplay_started e" "config_ok solo_params"
    by (rule solo_game)
  from client_follows_game [OF e(3) handler_ok_sample e(1,2) spectator_knows, of 0] e show ?thesis by blast
qed

text \<open>
  C17. What the scores count. With a usable configuration, in every state of a game, the score of a player at the server is
  the number of turns in which its robot was destroyed. A client that knew the players when the game started, and has
  received the start and all turns so far, has as score of the player the number of explosions that hit the robot, which
  is larger when two hit it in one turn.
\<close>

theorem scores_count_hits:
  assumes "config_ok params" and "handler_ok h" and "for_each loop_iteration envs (new_game_engine params h) = Inr e"
    and "gameplay_started e" and "knows_lobby e c" and "p \<in> keys (players e)"
  shows "map_of (scores e) p = Some (of_nat (turns_hit p (turns e)))
    \<and> (\<exists>c'. for_each (apply_message t True) (Started_message (players e) # map Turn_message (turns e)) c = Inr c'
         \<and> map_of (gi_scores (game c')) p = Some (of_nat (explosions_hit p (turns e))))"
proof -
  note idle = idle_inv_new [OF assms(1,2)]
  have "tallied e \<and> followed g0 e" for g0
    using new_game_followed by (intro game_followed [OF idle _ _ assms(3)]) simp_all
  with client_after_turns [OF server.run_keeps [OF idle assms(3)] assms(4) _ _ assms(5)] assms(6)
  show ?thesis by blast
qed

theorem scores_count_hits_witness:
  "(\<exists>e. for_each loop_iteration [message_on 1 [0, 1, 65], quiet_env] (new_game_engine solo_params sample_handler) = Inr e
      \<and> (\<forall>p \<in> keys (players e). map_of (scores e) p = Some (of_nat (turns_hit p (turns e)))))
    \<and> turns_hit 0 [Turn_info 1 [Bomb_exploded_event 0 [0] [], Bomb_exploded_event 1 [0] []]] = 1
    \<and> explosions_hit 0 [Turn_info 1 [Bomb_exploded_event 0 [0] [], Bomb_exploded_event 1 [0] []]] = 2"
proof -
  obtain e where e: "for_each loop_iteration [message_on 1 [0, 1, 65], quiet_env]
      (new_game_engine solo_params sample_handler) = Inr e" "gameplay_started e" "config_ok solo_params"
    by (rule solo_game)
  from scores_count_hits [OF e(3) handler_ok_sample e(1,2) spectator_knows] e(1) show ?thesis
    by (simp add: turns_hit_def turn_hits_def explosions_hit_def del: for_each.simps)
qed

subsection \<open>A client and the loop of the server\<close>

text \<open>
  C18. A client that connects in the lobby and gets slot 1 is in step after its greeting: it is sent exactly the
  configuration and the players so far, and executing these messages gives it the players of the server.
\<close>

theorem slot_one_gets_in_step:
  assumes "engine_inv e" and "\<not> gameplay_started e" and "env_accept env = (d, ip, prt)"
    and "free_slot (tcp_handler e) = Some 1" and "d \<noteq> -1"
    and "\<forall>j. 0 < j \<and> j < conn_max \<longrightarrow> slot_fd (tcp_handler e) j \<noteq> d" and "known_scores c = []"
  shows "attached 1 d (tcp_handler (accept_new env e))
    \<and> inbox d (tcp_handler (accept_new env e)) = inbox d (tcp_handler e) @ map message_bytes (greeting e)
    \<and> (\<exists>c'. for_each (apply_message t True) (greeting e) c = Inr c' \<and> in_step (turns e) (accept_new env e) c')"
proof -
  have len: "length (poll_descriptors (tcp_handler e)) = conn_max" and sorted: "map_ok (players e)"
    using assms(1) by (simp_all add: engine_inv_def tables_ok_def handler_ok_def)
  obtain h where h: "accept_new env e = e\<lparr>tcp_handler := h\<rparr>" using accept_new_frame [OF assms(1)] by blast
  note eff = accept_new_effect [OF len assms(3), unfolded h, simplified]
  have "attached 1 d h"
    using eff assms(4-6) by (auto simp: attached_def conn_max_def)
  moreover have "inbox d h = inbox d (tcp_handler e) @ map message_bytes (greeting e)"
    using eff assms(4) by (simp add: inbox_def filter_map comp_def)
  moreover obtain c' where "for_each (apply_message t True) (greeting e) c = Inr c'" "in_step (turns e) e c'"
    using greeting_in_step [OF sorted assms(2,7)] by blast
  moreover have "in_step (turns e) (e\<lparr>tcp_handler := h\<rparr>) c' = in_step (turns e) e c'" by (rule in_step_cong) simp_all
  ultimately show ?thesis unfolding h by auto
qed

theorem slot_one_gets_in_step_witness:
  "attached 1 9 (tcp_handler (accept_new (quiet_env\<lparr>env_accept := (9, [99], 80)\<rparr>)
     (new_game_engine sample_params sample_start)))"
proof -
  let ?e = "new_game_engine sample_params sample_start"
  have inv: "engine_inv ?e" using sample_start_idle by (simp add: idle_inv_def)
  have slots: "slot_fd (tcp_handler ?e) j = -1" if "0 < j" "j < conn_max" for j
    using that by (auto simp: new_game_engine_def sample_start_def slot_fd_def conn_max_def nth_Cons split: nat.splits)
  then have "free_slot (tcp_handler ?e) = Some 1" unfolding free_slot_Some by (auto simp: conn_max_def)
  with slots slot_one_gets_in_step [OF inv, of "quiet_env\<lparr>env_accept := (9, [99], 80)\<rparr>" 9 "[99]" 80 sample_client]
  show ?thesis by (auto simp: new_game_engine_def sample_client_def new_client_def)
qed

text \<open>
  C3. A client stays in step with the server over the runs of its loop in which it is undisturbed, through the starts and
  ends of games: the server was started with a usable configuration and a name that fits its length byte, the addresses
  fit theirs, the client is in step when the run begins, it sends nothing malformed, no one connects while it sits in slot
  1, and no new connection gets its descriptor. Then the messages it is sent are such that executing them
  succeeds, if the client can send its drawings, and leaves it in step; in a game it has the bombs of the server with full timers, the identifiers of its robots, and as
  score of each player the number of explosions that hit it; in the lobby it has the players.
\<close>

theorem client_stays_in_step:
  assumes "proper_start params h" and "list_all named_env before"
    and "for_each loop_iteration before (new_game_engine params h) = Inr e"
    and "attached i d (tcp_handler e)" and "in_step (turns e) e c"
    and "list_all (\<lambda>env. named_env env \<and> undisturbed i d env) envs" and "for_each loop_iteration envs e = Inr e'"
  shows "\<exists>ms c'. inbox d (tcp_handler e') = inbox d (tcp_handler e) @ map message_bytes ms \<and> list_all message_ok ms
    \<and> for_each (apply_message t True) ms c = Inr c' \<and> in_step (turns e') e' c'
    \<and> (if gameplay_started e' then \<not> is_lobby_status c' \<and> shows_board e' (game c')
       else is_lobby_status c' \<and> li_players (lobby c') = players e')"
proof -
  note start = proper_run [OF assms(1-3)]
  obtain ms c' where "inbox d (tcp_handler e') = inbox d (tcp_handler e) @ map message_bytes ms"
      "list_all message_ok ms" "for_each (apply_message t True) ms c = Inr c'" "in_step (turns e') e' c'"
    using run_alongside(3) [OF start assms(4-7)] by blast
  moreover from this have "if gameplay_started e' then \<not> is_lobby_status c' \<and> shows_board e' (game c')
       else is_lobby_status c' \<and> li_players (lobby c') = players e'"
    using in_step_board [OF run_alongside(1) [OF start assms(4-7)] _ run_alongside(2) [OF start assms(4-7)]]
    by (auto simp: in_step_def knows_lobby_def)
  ultimately show ?thesis by blast
qed

theorem client_stays_in_step_witness:
  "\<exists>e ms c. for_each loop_iteration [message_on 1 [0, 1, 65], quiet_env] (new_game_engine solo_params sample_handler) = Inr e
    \<and> inbox 5 (tcp_handler e) = map message_bytes ms \<and> for_each (apply_message 0 True) ms watcher = Inr c
    \<and> gameplay_started e \<and> shows_board e (game c)"
proof -
  let ?e0 = "new_game_engine solo_params sample_handler"
  obtain e where e: "for_each loop_iteration [message_on 1 [0, 1, 65], quiet_env] ?e0 = Inr e" "gameplay_started e"
    by (rule solo_game)
  have "tcp_handler ?e0 = sample_handler" "turns ?e0 = []" "inbox 5 sample_handler = []"
    by (simp_all add: new_game_engine_def inbox_def sample_handler_def)
  with client_stays_in_step [OF proper_start_solo, of "[]" ?e0 2 5, OF _ _ _ _ watcher_undisturbed e(1)]
    watcher_in_step watcher_attached e
  show ?thesis by (fastforce simp del: for_each.simps(2))
qed

text \<open>
  C4. Both programs, on the bytes, under the conditions of C3: when the messages sent to the client's descriptor during the
  run arrive in pieces of its stream, one or several whole messages in each, and no piece is longer than the client's
  buffer of 256 bytes, as many rounds of the client's receiver as there are messages read them all, end no program, leave
  the rest of the stream, and leave the client in step with the server. (A longer message is misread: see C35.)
\<close>

theorem client_plays_along:
  assumes "proper_start params h" and "list_all named_env before"
    and "for_each loop_iteration before (new_game_engine params h) = Inr e"
    and "attached i d (tcp_handler e)" and "in_step (turns e) e c"
    and "list_all (\<lambda>env. named_env env \<and> undisturbed i d env) envs" and "for_each loop_iteration envs e = Inr e'"
    and "inbox d (tcp_handler e') = inbox d (tcp_handler e) @ concat groups" and "[] \<notin> set groups"
    and "list_all (\<lambda>piece. length piece \<le> BUFFER_SIZE) (map concat groups)"
    and "cur_buf (rd c) = []" and "incoming (rd c) = map concat groups @ later"
  shows "\<exists>c'. for_each (\<lambda>msg. handle_server_message t True) (concat groups) c = Inr c' \<and> incoming (rd c') = later
    \<and> in_step (turns e') e' c' \<and> (gameplay_started e' \<longrightarrow> shows_board e' (game c'))"
proof -
  note start = proper_run [OF assms(1-3)]
  obtain ms c' where ms: "inbox d (tcp_handler e') = inbox d (tcp_handler e) @ map message_bytes ms"
      "list_all message_ok ms" "for_each (apply_message t True) ms c = Inr c'" "in_step (turns e') e' c'"
    using run_alongside(3) [OF start assms(4-7)] by blast
  have "concat groups = map message_bytes ms" using ms(1) assms(8) by simp
  from rounds_over_groups [OF ms(2) this assms(9-12), of t True] ms(3)
  have run: "for_each (\<lambda>msg. handle_server_message t True) (concat groups) c
      = Inr (rd_update (incoming_update (\<lambda>_. later)) c')" by simp
  have "in_step (turns e') e' (rd_update (incoming_update (\<lambda>_. later)) c')" using ms(4) by simp
  moreover have "gameplay_started e' \<longrightarrow> shows_board e' (game (rd_update (incoming_update (\<lambda>_. later)) c'))"
    using in_step_board [OF run_alongside(1) [OF start assms(4-7)] _ run_alongside(2) [OF start assms(4-7)] ms(4)] by simp
  ultimately show ?thesis
    using run by (intro exI [of _ "rd_update (incoming_update (\<lambda>_. later)) c'"]) simp
qed

theorem client_plays_along_witness:
  "\<exists>e c. for_each loop_iteration [message_on 1 [0, 1, 65]] (new_game_engine sample_params sample_handler) = Inr e
    \<and> handle_server_message 0 True
        (rd_update (incoming_update (\<lambda>_. [accepted_player_msg 0 (Player [65] [97])])) watcher) = Inr c
    \<and> incoming (rd c) = [] \<and> in_step [] e c"
proof -
  let ?e0 = "new_game_engine sample_params sample_handler" and ?msg = "accepted_player_msg 0 (Player [65] [97])"
  obtain e where e: "loop_iteration (message_on 1 [0, 1, 65]) ?e0 = Inr e" "inbox 5 (tcp_handler e) = [?msg]"
      "\<not> gameplay_started e"
    by (rule first_join)
  have run: "for_each loop_iteration [message_on 1 [0, 1, 65]] ?e0 = Inr e" using e(1) by simp
  have h: "tcp_handler ?e0 = sample_handler" "turns ?e0 = []" "inbox 5 sample_handler = []"
    by (simp_all add: new_game_engine_def inbox_def sample_handler_def)
  have "idle_inv e"
    using proper_run(2) [OF proper_start_sample _ run] by (simp add: named_env_def message_on_def)
  then have no_turns: "turns e = []" using e(3) by (simp add: idle_inv_def engine_inv_def lobby_ok_def)
  let ?c = "rd_update (incoming_update (\<lambda>_. [?msg])) watcher"
  have c: "in_step [] ?e0 ?c" "cur_buf (rd ?c) = []" "incoming (rd ?c) = [?msg] @ []"
    using watcher_in_step_of_two by simp (simp_all add: watcher_def spectator_def sample_client_def new_client_def)
  have "length ?msg \<le> BUFFER_SIZE"
    by (simp add: accepted_player_msg_def player_to_bytes_def string_to_bytes_def BUFFER_SIZE_def)
  moreover have "list_all (\<lambda>env. named_env env \<and> undisturbed 2 5 env) [message_on 1 [0, 1, 65]]"
    using watcher_undisturbed by simp
  ultimately have "\<exists>c'. for_each (\<lambda>msg. handle_server_message 0 True) [?msg] ?c = Inr c'
      \<and> incoming (rd c') = [] \<and> in_step (turns e) e c' \<and> (gameplay_started e \<longrightarrow> shows_board e (game c'))"
    using client_plays_along [OF proper_start_sample, of "[]" ?e0 2 5 ?c "[message_on 1 [0, 1, 65]]" e "[[?msg]]" "[]" 0]
      c watcher_attached run h e(2) by simp
  with run show ?thesis unfolding no_turns by auto
qed

text \<open>
  C32. In a running game a new connection ends the client of slot 1 once a bomb has hit a robot: the greeting of the
  new client is sent to slot 1, whose client forgets the players at \<open>Hello\<close>, and throws when it replays the hit.
\<close>

theorem connection_ends_first_client:
  assumes "engine_inv e" and "gameplay_started e" and "attached 1 d (tcp_handler e)"
    and "env_accept env = (d', ip, prt)" and "free_slot (tcp_handler e) = Some k"
    and "ti \<in> set (turns e)" and "turn_hits ti \<noteq> {}" and "known_scores c = []"
  shows "inbox d (tcp_handler (accept_new env e)) = inbox d (tcp_handler e) @ map message_bytes (greeting e)
    \<and> for_each (apply_message t True) (greeting e) c = Inl Out_of_range"
proof -
  have len: "length (poll_descriptors (tcp_handler e)) = conn_max"
    using assms(1) by (simp add: engine_inv_def tables_ok_def handler_ok_def)
  have one: "slot_fd (tcp_handler e) 1 = d" "d \<noteq> -1" using assms(3) by (simp_all add: attached_def)
  then have "k \<noteq> 1" using assms(5) by (auto simp: free_slot_Some)
  with accept_new_effect [OF len assms(4)] assms(5) one
  have "inbox d (tcp_handler (accept_new env e)) = inbox d (tcp_handler e) @ map message_bytes (greeting e)"
    by (simp add: inbox_def filter_map comp_def)
  with greeting_in_game_fails [OF assms(2,8)] assms(6,7) show ?thesis by blast
qed

theorem connection_ends_first_client_witness:
  "for_each (apply_message 0 True) (greeting hit_game) sample_client = Inl Out_of_range"
proof -
  have h: "tcp_handler hit_game = sample_handler" "gameplay_started hit_game"
    by (simp_all add: hit_game_def sample_game_def new_game_engine_def)
  have "attached 1 4 sample_handler" using slot_fd_sample by (auto simp: attached_def conn_max_def)
  with connection_ends_first_client [OF engine_inv_hit_game h(2), of 4 "quiet_env\<lparr>env_accept := (6, [99], 80)\<rparr>" 6 "[99]" 80 3
      "Turn_info 0 [Bomb_exploded_event 7 [0] []]" sample_client 0] h free_slot_sample
  show ?thesis by (simp add: hit_game_def turn_hits_def sample_client_def new_client_def)
qed

end
